(* ===== verification/QDB_Prelude.thy ===== *)
theory QDB_Prelude
  imports Main "HOL-Library.Word" "HOL-Library.AList"
begin

text \<open>
  Shared ground of the development: the machine types of the sources, the faults a C++
  statement can end in, raw memory as byte lists with bounds-checked access, the
  little-endian layout of \<open>int32_t\<close> and \<open>int64_t\<close>, fixed-width arrays inside a memory
  block, and the association lists that stand for \<open>boost::unordered_map\<close>.
\<close>

section \<open>Collections of facts\<close>

named_theorems res_simps \<open>running a fallible computation\<close>
named_theorems mem_simps \<open>reading and writing raw memory\<close>
named_theorems um_simps \<open>lookup in and update of unordered maps\<close>

section \<open>Machine types\<close>

type_synonym byte = "8 word"
type_synonym bytes = "byte list"
type_synonym i32 = "32 word"
type_synonym i64 = "64 word"

text \<open>
  How a statement of the sources can fail to continue: an access outside the allocated
  block, a failed allocation, a null pointer, a failed glog \<open>CHECK\<close> (with its message),
  a \<open>LOG(FATAL)\<close>, a blocking receive with nothing to receive, a loop that runs for ever, an
  operation on numbers that C++ leaves undefined.
\<close>

datatype fault =
    Out_of_bounds
  | Bad_alloc
  | Null_pointer
  | Check_failed string
  | Log_fatal string
  | Blocked
  | Diverges
  | Undefined

type_synonym 'a res = "fault + 'a"

definition bindR :: "'a res \<Rightarrow> ('a \<Rightarrow> 'b res) \<Rightarrow> 'b res" where
  "bindR m f = (case m of Inl e \<Rightarrow> Inl e | Inr x \<Rightarrow> f x)"

definition checkR :: "string \<Rightarrow> bool \<Rightarrow> unit res" where
  "checkR msg b = (if b then Inr () else Inl (Check_failed msg))"

lemma bindR_simps [simp, res_simps]:
  "bindR (Inl e) f = Inl e"
  "bindR (Inr x) f = f x"
  by (simp_all add: bindR_def)

lemma bindR_Inr_iff [res_simps]: "bindR m f = Inr y \<longleftrightarrow> (\<exists>x. m = Inr x \<and> f x = Inr y)"
  by (cases m) auto

lemma bindR_Inl_iff: "bindR m f = Inl e \<longleftrightarrow> m = Inl e \<or> (\<exists>x. m = Inr x \<and> f x = Inl e)"
  by (cases m) auto

lemma bindR_assoc: "bindR (bindR m f) g = bindR m (\<lambda>x. bindR (f x) g)"
  by (cases m) auto

lemma bindR_cong [fundef_cong]:
  "m = m' \<Longrightarrow> (\<And>x. m' = Inr x \<Longrightarrow> f x = f' x) \<Longrightarrow> bindR m f = bindR m' f'"
  by (cases m') auto

lemma checkR_simps [simp, res_simps]:
  "checkR msg True = Inr ()"
  "checkR msg False = Inl (Check_failed msg)"
  by (simp_all add: checkR_def)

lemma checkR_Inr_iff [simp, res_simps]: "checkR msg b = Inr u \<longleftrightarrow> b"
  by (simp add: checkR_def)

section \<open>Signed machine integers\<close>

lemma sint_of_nat_i32 [simp]: "n < 2147483648 \<Longrightarrow> sint (of_nat n :: i32) = int n"
  by (simp add: signed_of_nat signed_take_bit_int_eq_self)

lemma sint_of_int_i32: "- 2147483648 \<le> x \<Longrightarrow> x < 2147483648 \<Longrightarrow> sint (word_of_int x :: i32) = x"
  by (simp add: signed_of_int signed_take_bit_int_eq_self)

lemma sint_i32_range: "- 2147483648 \<le> sint (w :: i32) \<and> sint (w :: i32) < 2147483648"
  using sint_range_size [of w] by (simp add: word_size)

lemma of_nat_eq_i32:
  "m < 2147483648 \<Longrightarrow> n < 2147483648 \<Longrightarrow> (of_nat m :: i32) = of_nat n \<longleftrightarrow> m = n"
  by (metis of_nat_eq_iff sint_of_nat_i32)

lemma sint_inj_iff: "sint a = sint b \<longleftrightarrow> a = (b :: 'a::len word)"
  by (auto intro: signed_word_eqI)

lemma signed_take_bit_31: "signed_take_bit 31 (x :: int) = (x + 2147483648) mod 4294967296 - 2147483648"
  by (simp only: signed_take_bit_eq_take_bit_shift take_bit_eq_mod) simp

lemma sint_add_i32:
  "- 2147483648 \<le> sint a + sint b \<Longrightarrow> sint a + sint b < 2147483648 \<Longrightarrow>
     sint (a + b :: i32) = sint a + sint b"
  by (simp add: sint_word_add signed_take_bit_int_eq_self)

text \<open>A sum of non-negative values that wraps is negative.\<close>

lemma sint_add_i32_nonneg:
  assumes "0 \<le> sint (a + b :: i32)" and "0 \<le> sint a" and "0 \<le> sint b"
  shows "sint (a + b) = sint a + sint b"
proof -
  let ?s = "sint a + sint b"
  have r: "sint a < 2147483648" "sint b < 2147483648"
    using sint_i32_range [of a] sint_i32_range [of b] by auto
  have "sint (a + b) = signed_take_bit 31 ?s" by (simp add: sint_word_add)
  then have e: "sint (a + b) = (?s + 2147483648) mod 4294967296 - 2147483648"
    by (simp only: signed_take_bit_31)
  show ?thesis
  proof (cases "?s < 2147483648")
    case True
    with assms show ?thesis by (intro sint_add_i32) auto
  next
    case False
    have "(?s + 2147483648) mod 4294967296 = (?s - 2147483648 + 4294967296) mod 4294967296"
      by (simp add: algebra_simps)
    also have "\<dots> = ?s - 2147483648"
      using False r by (simp only: mod_add_self2 mod_pos_pos_trivial)
    finally show ?thesis using e assms r by linarith
  qed
qed

section \<open>Little-endian layout\<close>

primrec le_bytes :: "nat \<Rightarrow> 'a::len word \<Rightarrow> bytes" where
  "le_bytes 0 w = []"
| "le_bytes (Suc n) w = ucast w # le_bytes n (drop_bit 8 w)"

primrec le_word :: "bytes \<Rightarrow> 'a::len word" where
  "le_word [] = 0"
| "le_word (b # bs) = or (ucast b) (push_bit 8 (le_word bs))"

lemma length_le_bytes [simp]: "length (le_bytes n w) = n"
  by (induction n arbitrary: w) auto

lemma le_word_le_bytes: "le_word (le_bytes n w) = take_bit (8 * n) (w :: 'a::len word)"
proof (induction n arbitrary: w)
  case (Suc n)
  have "or (ucast (ucast w :: byte)) (push_bit 8 (take_bit (8 * n) (drop_bit 8 w))) =
      take_bit (8 * Suc n) w"
    by (rule bit_word_eqI) (auto simp: bit_simps)
  with Suc show ?case by simp
qed simp

definition i32_bytes :: "i32 \<Rightarrow> bytes" where
  "i32_bytes w = le_bytes 4 w"

definition i64_bytes :: "i64 \<Rightarrow> bytes" where
  "i64_bytes w = le_bytes 8 w"

lemma length_i32_bytes [simp]: "length (i32_bytes w) = 4"
  by (simp add: i32_bytes_def)

lemma length_i64_bytes [simp]: "length (i64_bytes w) = 8"
  by (simp add: i64_bytes_def)

lemma le_word_i32_bytes [simp]: "le_word (i32_bytes w) = w"
  by (simp add: i32_bytes_def le_word_le_bytes take_bit_word_eq_self)

lemma le_word_i64_bytes [simp]: "le_word (i64_bytes w) = w"
  by (simp add: i64_bytes_def le_word_le_bytes take_bit_word_eq_self)

section \<open>Raw memory\<close>

text \<open>An access of \<open>n\<close> bytes at byte offset \<open>off\<close> of a block; a negative or too large offset faults.\<close>

definition mem_read :: "int \<Rightarrow> nat \<Rightarrow> bytes \<Rightarrow> bytes res" where
  "mem_read off n m =
     (if 0 \<le> off \<and> off + int n \<le> int (length m)
      then Inr (take n (drop (nat off) m)) else Inl Out_of_bounds)"

definition mem_write :: "int \<Rightarrow> bytes \<Rightarrow> bytes \<Rightarrow> bytes res" where
  "mem_write off bs m =
     (if 0 \<le> off \<and> off + int (length bs) \<le> int (length m)
      then Inr (take (nat off) m @ bs @ drop (nat off + length bs) m) else Inl Out_of_bounds)"

lemma mem_read_append [mem_simps]:
  "off = int (length xs) \<Longrightarrow> n = length ys \<Longrightarrow> mem_read off n (xs @ ys @ zs) = Inr ys"
  by (simp add: mem_read_def)

lemma mem_write_append [mem_simps]:
  "off = int (length xs) \<Longrightarrow> length ys = length ys' \<Longrightarrow>
     mem_write off ys' (xs @ ys @ zs) = Inr (xs @ ys' @ zs)"
  by (simp add: mem_write_def)

lemma mem_write_length: "mem_write off bs m = Inr m' \<Longrightarrow> length m' = length m"
  by (auto simp: mem_write_def split: if_splits)

lemma mem_read_length: "mem_read off n m = Inr bs \<Longrightarrow> length bs = n"
  by (auto simp: mem_read_def split: if_splits)

text \<open>What was written is read back, and other bytes are unchanged.\<close>

lemma mem_read_write_same: "mem_write off bs m = Inr m' \<Longrightarrow> mem_read off (length bs) m' = Inr bs"
  by (auto simp: mem_write_def mem_read_def split: if_splits)

section \<open>Fixed-width arrays\<close>

lemma length_concat_map_fixed:
  "(\<And>x. x \<in> set xs \<Longrightarrow> length (enc x) = w) \<Longrightarrow> length (concat (map enc xs)) = w * length xs"
  by (induction xs) auto

lemma concat_map_split:
  "i < length xs \<Longrightarrow>
     concat (map enc xs) = concat (map enc (take i xs)) @ enc (xs ! i) @ concat (map enc (drop (Suc i) xs))"
  by (subst id_take_nth_drop [of i xs]) auto

lemma concat_map_update:
  "i < length xs \<Longrightarrow>
     concat (map enc (xs[i := y])) =
       concat (map enc (take i xs)) @ enc y @ concat (map enc (drop (Suc i) xs))"
  by (simp add: upd_conv_take_nth_drop)

section \<open>Unordered maps\<close>

text \<open>
  \<open>boost::unordered_map\<close> is an association list with distinct keys; the list order is the
  order an iteration visits the entries in. A new key is put last: the iteration order of
  the library is unspecified, and every statement below is proved for any list with
  distinct keys.
\<close>

type_synonym ('k, 'v) umap = "('k \<times> 'v) list"

abbreviation um_find :: "'k \<Rightarrow> ('k, 'v) umap \<Rightarrow> 'v option" where
  "um_find k m \<equiv> map_of m k"

abbreviation um_put :: "'k \<Rightarrow> 'v \<Rightarrow> ('k, 'v) umap \<Rightarrow> ('k, 'v) umap" where
  "um_put k v m \<equiv> AList.update k v m"

text \<open>\<open>m[k]\<close> as a value: a missing key reads as the value-initialised \<open>d\<close>.\<close>

definition um_at :: "'v \<Rightarrow> 'k \<Rightarrow> ('k, 'v) umap \<Rightarrow> 'v" where
  "um_at d k m = (case map_of m k of None \<Rightarrow> d | Some v \<Rightarrow> v)"

abbreviation um_keys :: "('k, 'v) umap \<Rightarrow> 'k list" where
  "um_keys m \<equiv> map fst m"

lemma um_find_put [simp, um_simps]:
  "um_find k (um_put k' v m) = (if k = k' then Some v else um_find k m)"
  by (simp add: AList.update_conv')

lemma um_at_put [simp, um_simps]: "um_at d k (um_put k' v m) = (if k = k' then v else um_at d k m)"
  by (simp add: um_at_def)

lemma um_put_distinct [simp, intro]: "distinct (um_keys m) \<Longrightarrow> distinct (um_keys (um_put k v m))"
  by (rule AList.distinct_update)

lemma set_um_keys_put [simp]: "set (um_keys (um_put k v m)) = insert k (set (um_keys m))"
  using AList.dom_update [of k v m] by simp

end
