(* ===== verification/Memstruct.thy ===== *)
theory Memstruct
  imports QDB_Prelude
begin

text \<open>
  \<open>src/quiltdb/utils/memstruct.hpp\<close> and \<open>memstruct.cpp\<close>: \<open>UpdateRange\<close>, and the
  \<open>UpdateBuffer\<close>, a relocatable block of raw memory. The object header (eleven
  \<open>int32_t\<close>) sits at the start of the block; the node ranges (20 bytes each) and the
  updates (8 bytes of key and \<open>update_size_\<close> bytes of delta each) follow it and are
  reached by offsets from \<open>this\<close>. The operations below do the pointer arithmetic of the
  source on the bytes of the block and fault on any access outside it. What the block
  means is stated and proved in \<open>Buffer_Spec\<close>.
\<close>

section \<open>Update ranges\<close>

text \<open>An empty range has \<open>ur_st > ur_end\<close>.\<close>

record UpdateRange =
  ur_st :: i64
  ur_end :: i64

definition Contains :: "UpdateRange \<Rightarrow> UpdateRange \<Rightarrow> bool" where
  "Contains r ur = (if ur_st r <=s ur_st ur \<and> ur_end ur <=s ur_end r then True else False)"

section \<open>The buffer object\<close>

text \<open>Field \<open>ub_f\<close> is the member \<open>f_\<close> of the class.\<close>

record UpdateBuffer =
  ub_buff_size :: i32
  ub_update_size :: i32
  ub_update_capacity :: i32
  ub_node_range_capacity :: i32
  ub_num_updates_occupied :: i32
  ub_node_range_st_offset :: i32
  ub_num_nodes :: i32
  ub_update_st_offset :: i32
  ub_update_end_offset :: i32
  ub_update_iter_offset :: i32
  ub_node_range_iter_offset :: i32
  ub_tail :: bytes  \<comment> \<open>the bytes of the block behind the header\<close>

definition sizeof_UpdateBuffer :: nat where
  "sizeof_UpdateBuffer = 44"

text \<open>\<open>int32_t\<close> to \<open>size_t\<close> extends the sign, \<open>size_t\<close> to \<open>int32_t\<close> truncates.\<close>

abbreviation szt :: "i32 \<Rightarrow> 64 word" where
  "szt w \<equiv> scast w"

abbreviation trunc32 :: "64 word \<Rightarrow> i32" where
  "trunc32 w \<equiv> ucast w"

text \<open>Access to the block at a byte offset from \<open>this\<close>.\<close>

definition ub_read :: "int \<Rightarrow> nat \<Rightarrow> UpdateBuffer \<Rightarrow> bytes res" where
  "ub_read off n b = mem_read (off - int sizeof_UpdateBuffer) n (ub_tail b)"

definition ub_write :: "int \<Rightarrow> bytes \<Rightarrow> UpdateBuffer \<Rightarrow> UpdateBuffer res" where
  "ub_write off bs b =
     bindR (mem_write (off - int sizeof_UpdateBuffer) bs (ub_tail b)) (\<lambda>t. Inr (b\<lparr>ub_tail := t\<rparr>))"

definition rd_i32 :: "int \<Rightarrow> UpdateBuffer \<Rightarrow> i32 res" where
  "rd_i32 off b = bindR (ub_read off 4 b) (\<lambda>bs. Inr (le_word bs))"

definition rd_i64 :: "int \<Rightarrow> UpdateBuffer \<Rightarrow> i64 res" where
  "rd_i64 off b = bindR (ub_read off 8 b) (\<lambda>bs. Inr (le_word bs))"

definition wr_i32 :: "int \<Rightarrow> i32 \<Rightarrow> UpdateBuffer \<Rightarrow> UpdateBuffer res" where
  "wr_i32 off v b = ub_write off (i32_bytes v) b"

definition wr_i64 :: "int \<Rightarrow> i64 \<Rightarrow> UpdateBuffer \<Rightarrow> UpdateBuffer res" where
  "wr_i64 off v b = ub_write off (i64_bytes v) b"

section \<open>Creation\<close>

definition GetBuffSize :: "i32 \<Rightarrow> i32 \<Rightarrow> i32 \<Rightarrow> i32" where
  "GetBuffSize update_size update_capacity node_range_capacity =
     (let node_range_mem_size = trunc32 (szt node_range_capacity * (4 + 8 + 8));
          update_mem_size = trunc32 (szt update_capacity * (8 + szt update_size))
      in trunc32 (szt (node_range_mem_size + update_mem_size) + of_nat sizeof_UpdateBuffer))"

text \<open>\<open>new uint8_t[n]\<close>: fresh memory holds whatever \<open>junk\<close> says; a negative size is refused.\<close>

definition AllocateBufferMemory :: "(nat \<Rightarrow> byte) \<Rightarrow> i32 \<Rightarrow> bytes res" where
  "AllocateBufferMemory junk buff_size =
     (if sint buff_size < 0 then Inl Bad_alloc else Inr (map junk [0..<nat (sint buff_size)]))"

text \<open>The constructor's loop marks \<open>n\<close> node-range slots at \<open>ptr\<close> as free.\<close>

primrec init_node_ranges :: "nat \<Rightarrow> int \<Rightarrow> UpdateBuffer \<Rightarrow> UpdateBuffer res" where
  "init_node_ranges 0 ptr b = Inr b"
| "init_node_ranges (Suc n) ptr b =
     bindR (wr_i32 ptr (-1) b) (\<lambda>b.
     bindR (wr_i64 (ptr + 4) (-1) b) (\<lambda>b.
     bindR (wr_i64 (ptr + 4 + 8) (-1) b) (\<lambda>b.
     init_node_ranges n (ptr + (4 + 8 + 8)) b)))"

text \<open>
  The constructor runs on the memory \<open>mem\<close> given to placement new.
  \<open>ub_node_range_iter_offset\<close> is left as the memory had it.
\<close>

definition UpdateBuffer_ctor :: "bytes \<Rightarrow> i32 \<Rightarrow> i32 \<Rightarrow> i32 \<Rightarrow> i32 \<Rightarrow> UpdateBuffer res" where
  "UpdateBuffer_ctor mem buff_size update_size update_capacity node_range_capacity =
     (if length mem < sizeof_UpdateBuffer then Inl Out_of_bounds
      else
        let b = \<lparr>ub_buff_size = buff_size,
                 ub_update_size = update_size,
                 ub_update_capacity = update_capacity,
                 ub_node_range_capacity = node_range_capacity,
                 ub_num_updates_occupied = 0,
                 ub_node_range_st_offset = of_nat sizeof_UpdateBuffer,
                 ub_num_nodes = 0,
                 ub_update_st_offset = le_word (take 4 (drop 28 mem)),
                 ub_update_end_offset = le_word (take 4 (drop 32 mem)),
                 ub_update_iter_offset = le_word (take 4 (drop 36 mem)),
                 ub_node_range_iter_offset = le_word (take 4 (drop 40 mem)),
                 ub_tail = drop sizeof_UpdateBuffer mem\<rparr>
        in bindR (init_node_ranges (nat (sint (ub_node_range_capacity b)))
                    (sint (ub_node_range_st_offset b)) b) (\<lambda>b.
           let st = trunc32 (of_nat sizeof_UpdateBuffer + szt (ub_node_range_capacity b) * (4 + 8 + 8))
           in Inr (b\<lparr>ub_update_st_offset := st, ub_update_end_offset := st, ub_update_iter_offset := st\<rparr>)))"

definition CreateUpdateBuffer :: "(nat \<Rightarrow> byte) \<Rightarrow> i32 \<Rightarrow> i32 \<Rightarrow> i32 \<Rightarrow> UpdateBuffer res" where
  "CreateUpdateBuffer junk update_size update_capacity node_range_capacity =
     (let buff_size = GetBuffSize update_size update_capacity node_range_capacity
      in bindR (AllocateBufferMemory junk buff_size) (\<lambda>mem.
         UpdateBuffer_ctor mem buff_size update_size update_capacity node_range_capacity))"

section \<open>Updates\<close>

definition memcpy_src :: "bytes \<Rightarrow> i32 \<Rightarrow> bytes res" where
  "memcpy_src src n =
     (if sint n < 0 then Inl Out_of_bounds else mem_read 0 (nat (sint n)) src)"

definition AppendUpdate :: "i64 \<Rightarrow> bytes \<Rightarrow> UpdateBuffer \<Rightarrow> (int \<times> UpdateBuffer) res" where
  "AppendUpdate key update b =
     (if ub_num_updates_occupied b = ub_update_capacity b then Inr (-1, b)
      else
        let update_end_ptr = sint (ub_update_end_offset b)
        in bindR (wr_i64 update_end_ptr key b) (\<lambda>b.
           bindR (memcpy_src update (ub_update_size b)) (\<lambda>src.
           bindR (ub_write (update_end_ptr + 8) src b) (\<lambda>b.
           Inr (0, b\<lparr>ub_update_end_offset :=
                        trunc32 (szt (ub_update_end_offset b) + (8 + szt (ub_update_size b))),
                     ub_num_updates_occupied := ub_num_updates_occupied b + 1\<rparr>)))))"

definition StartIteration :: "UpdateBuffer \<Rightarrow> int \<times> UpdateBuffer" where
  "StartIteration b =
     (if ub_num_updates_occupied b = 0 then (-1, b)
      else (0, b\<lparr>ub_update_iter_offset := ub_update_st_offset b\<rparr>))"

text \<open>\<open>NULL\<close> is \<open>None\<close>; otherwise the key and the offset of the delta.\<close>

definition NextUpdate :: "UpdateBuffer \<Rightarrow> ((i64 \<times> int) option \<times> UpdateBuffer) res" where
  "NextUpdate b =
     (if ub_update_end_offset b <=s ub_update_iter_offset b then Inr (None, b)
      else
        let update_iter_ptr = sint (ub_update_iter_offset b)
        in bindR (rd_i64 update_iter_ptr b) (\<lambda>key.
           Inr (Some (key, update_iter_ptr + 8),
                b\<lparr>ub_update_iter_offset :=
                    trunc32 (szt (ub_update_iter_offset b) + (8 + szt (ub_update_size b)))\<rparr>)))"

primrec get_update_loop :: "nat \<Rightarrow> int \<Rightarrow> i64 \<Rightarrow> UpdateBuffer \<Rightarrow> int option res" where
  "get_update_loop 0 update_ptr key b = Inr None"
| "get_update_loop (Suc n) update_ptr key b =
     bindR (rd_i64 update_ptr b) (\<lambda>k.
       if k = key then Inr (Some (update_ptr + 8))
       else get_update_loop n (update_ptr + (8 + sint (ub_update_size b))) key b)"

definition GetUpdate :: "i64 \<Rightarrow> UpdateBuffer \<Rightarrow> int option res" where
  "GetUpdate key b =
     get_update_loop (nat (sint (ub_num_updates_occupied b))) (sint (ub_update_st_offset b)) key b"

section \<open>Node ranges\<close>

primrec update_range_loop ::
  "nat \<Rightarrow> int \<Rightarrow> i32 \<Rightarrow> i64 \<Rightarrow> i64 \<Rightarrow> UpdateBuffer \<Rightarrow> (bool \<times> UpdateBuffer) res" where
  "update_range_loop 0 ptr node_id key_st key_end b = Inr (False, b)"
| "update_range_loop (Suc n) ptr node_id key_st key_end b =
     bindR (rd_i32 ptr b) (\<lambda>nid.
       if nid = node_id then
         bindR (wr_i64 (ptr + 4) key_st b) (\<lambda>b.
         bindR (wr_i64 (ptr + 4 + 8) key_end b) (\<lambda>b. Inr (True, b)))
       else update_range_loop n (ptr + (4 + 8 + 8)) node_id key_st key_end b)"

primrec claim_range_loop ::
  "nat \<Rightarrow> int \<Rightarrow> i32 \<Rightarrow> i64 \<Rightarrow> i64 \<Rightarrow> UpdateBuffer \<Rightarrow> (bool \<times> UpdateBuffer) res" where
  "claim_range_loop 0 ptr node_id key_st key_end b = Inr (False, b)"
| "claim_range_loop (Suc n) ptr node_id key_st key_end b =
     bindR (rd_i32 ptr b) (\<lambda>nid.
       if nid = -1 then
         bindR (wr_i32 ptr node_id b) (\<lambda>b.
         bindR (wr_i64 (ptr + 4) key_st b) (\<lambda>b.
         bindR (wr_i64 (ptr + 4 + 8) key_end b) (\<lambda>b. Inr (True, b))))
       else claim_range_loop n (ptr + (4 + 8 + 8)) node_id key_st key_end b)"

definition UpdateNodeRange :: "i32 \<Rightarrow> i64 \<Rightarrow> i64 \<Rightarrow> UpdateBuffer \<Rightarrow> (int \<times> UpdateBuffer) res" where
  "UpdateNodeRange node_id key_st key_end b =
     (let n = nat (sint (ub_node_range_capacity b)); ptr = sint (ub_node_range_st_offset b)
      in bindR (update_range_loop n ptr node_id key_st key_end b) (\<lambda>(updated, b).
         if updated then Inr (0, b)
         else bindR (claim_range_loop n ptr node_id key_st key_end b) (\<lambda>(updated, b).
              if \<not> updated then Inr (-1, b) else Inr (0, b))))"

primrec delete_range_loop :: "nat \<Rightarrow> int \<Rightarrow> i32 \<Rightarrow> UpdateBuffer \<Rightarrow> (int \<times> UpdateBuffer) res" where
  "delete_range_loop 0 ptr node_id b = Inr (-1, b)"
| "delete_range_loop (Suc n) ptr node_id b =
     bindR (rd_i32 ptr b) (\<lambda>nid.
       if nid <s 0 then Inr (-1, b)
       else if nid = node_id then bindR (wr_i32 ptr (-1) b) (\<lambda>b. Inr (0, b))
       else delete_range_loop n (ptr + (4 + 8 + 8)) node_id b)"

definition DeleteNodeRange :: "i32 \<Rightarrow> UpdateBuffer \<Rightarrow> (int \<times> UpdateBuffer) res" where
  "DeleteNodeRange node_id b =
     delete_range_loop (nat (sint (ub_node_range_capacity b))) (sint (ub_node_range_st_offset b)) node_id b"

text \<open>\<open>GetNodeRange\<close> writes its two results only when it finds the node.\<close>

primrec get_range_loop :: "nat \<Rightarrow> int \<Rightarrow> i32 \<Rightarrow> UpdateBuffer \<Rightarrow> (i64 \<times> i64) option res" where
  "get_range_loop 0 ptr node_id b = Inr None"
| "get_range_loop (Suc n) ptr node_id b =
     bindR (rd_i32 ptr b) (\<lambda>nid.
       if nid = node_id then
         bindR (rd_i64 (ptr + 4) b) (\<lambda>s.
         bindR (rd_i64 (ptr + 4 + 8) b) (\<lambda>e. Inr (Some (s, e))))
       else get_range_loop n (ptr + (4 + 8 + 8)) node_id b)"

definition GetNodeRange :: "i32 \<Rightarrow> UpdateBuffer \<Rightarrow> (i64 \<times> i64) option res" where
  "GetNodeRange node_id b =
     get_range_loop (nat (sint (ub_node_range_capacity b))) (sint (ub_node_range_st_offset b)) node_id b"

definition StartNodeRangeIteration :: "UpdateBuffer \<Rightarrow> UpdateBuffer" where
  "StartNodeRangeIteration b = b\<lparr>ub_node_range_iter_offset := ub_node_range_st_offset b\<rparr>"

text \<open>Facts about accesses that succeed, needed for the loop below.\<close>

lemma rd_i32_InrD:
  "rd_i32 off b = Inr v \<Longrightarrow> 44 \<le> off \<and> off + 4 \<le> 44 + int (length (ub_tail b))"
  by (auto simp: rd_i32_def ub_read_def mem_read_def sizeof_UpdateBuffer_def split: if_splits)

text \<open>
  The loop of \<open>NextNodeRange\<close> that steps over free slots, with the loop condition of the
  source. It ends because an offset behind the block faults.
\<close>

function skip_free_slots :: "i32 \<Rightarrow> UpdateBuffer \<Rightarrow> (i32 \<times> UpdateBuffer) res" where
  "skip_free_slots peer_id b =
     (if peer_id <s 0 \<and> ub_update_st_offset b <=s ub_node_range_iter_offset b then
        let b' = b\<lparr>ub_node_range_iter_offset := ub_node_range_iter_offset b + 20\<rparr>
        in (case rd_i32 (sint (ub_node_range_iter_offset b')) b' of
              Inl e \<Rightarrow> Inl e
            | Inr peer_id' \<Rightarrow> skip_free_slots peer_id' b')
      else Inr (peer_id, b))"
  by pat_completeness auto
termination
proof (relation "measure (\<lambda>(p, b). nat (44 + int (length (ub_tail b)) - sint (ub_node_range_iter_offset b)))",
    goal_cases)
  case (2 p b b' q)
  let ?w = "ub_node_range_iter_offset b"
  from 2 have a: "44 \<le> sint (?w + 20)" "sint (?w + 20) + 4 \<le> 44 + int (length (ub_tail b))"
    by (auto dest!: rd_i32_InrD)
  show ?case
  proof (cases "0 \<le> sint ?w")
    case True
    with a have "sint (?w + 20) = sint ?w + 20" using sint_add_i32_nonneg [of ?w 20] by simp
    with a show ?thesis by (simp add: 2)
  next
    case False
    with a show ?thesis by (simp add: 2)
  qed
qed simp

declare skip_free_slots.simps [simp del]

definition NextNodeRange :: "UpdateBuffer \<Rightarrow> ((i32 \<times> i64 \<times> i64) option \<times> UpdateBuffer) res" where
  "NextNodeRange b =
     (if ub_update_st_offset b <=s ub_node_range_iter_offset b then Inr (None, b)
      else
        bindR (rd_i32 (sint (ub_node_range_iter_offset b)) b) (\<lambda>peer_id.
        bindR (skip_free_slots peer_id b) (\<lambda>(peer_id, b).
          if peer_id <s 0 then Inr (None, b)
          else
            let ptr = sint (ub_node_range_iter_offset b)
            in bindR (rd_i64 (ptr + 4) b) (\<lambda>s.
               bindR (rd_i64 (ptr + 4 + 8) b) (\<lambda>e.
               Inr (Some (peer_id, s, e),
                    b\<lparr>ub_node_range_iter_offset := ub_node_range_iter_offset b + 20\<rparr>))))))"

definition get_update_size :: "UpdateBuffer \<Rightarrow> i32" where
  "get_update_size b = ub_update_size b"

definition get_update_capacity :: "UpdateBuffer \<Rightarrow> i32" where
  "get_update_capacity b = ub_update_capacity b"

definition get_buff_size :: "UpdateBuffer \<Rightarrow> i32" where
  "get_buff_size b = ub_buff_size b"

section \<open>The buffer as a run of bytes\<close>

text \<open>
  A buffer travels as the bytes of its block: the members in declaration order, then the
  tail. Sending takes \<open>get_buff_size()\<close> bytes from \<open>this\<close>; the receiving side casts the
  bytes it got back to a buffer.
\<close>

definition ub_header :: "UpdateBuffer \<Rightarrow> bytes" where
  "ub_header b =
     concat (map i32_bytes
       [ub_buff_size b, ub_update_size b, ub_update_capacity b, ub_node_range_capacity b,
        ub_num_updates_occupied b, ub_node_range_st_offset b, ub_num_nodes b,
        ub_update_st_offset b, ub_update_end_offset b, ub_update_iter_offset b,
        ub_node_range_iter_offset b])"

definition ub_image :: "UpdateBuffer \<Rightarrow> bytes res" where
  "ub_image b = memcpy_src (ub_header b @ ub_tail b) (get_buff_size b)"

definition ub_field :: "nat \<Rightarrow> bytes \<Rightarrow> i32" where
  "ub_field i data = le_word (take 4 (drop (4 * i) data))"

definition cast_UpdateBuffer :: "bytes \<Rightarrow> UpdateBuffer res" where
  "cast_UpdateBuffer data =
     (if length data < sizeof_UpdateBuffer then Inl Out_of_bounds
      else Inr \<lparr>ub_buff_size = ub_field 0 data, ub_update_size = ub_field 1 data,
                ub_update_capacity = ub_field 2 data, ub_node_range_capacity = ub_field 3 data,
                ub_num_updates_occupied = ub_field 4 data, ub_node_range_st_offset = ub_field 5 data,
                ub_num_nodes = ub_field 6 data, ub_update_st_offset = ub_field 7 data,
                ub_update_end_offset = ub_field 8 data, ub_update_iter_offset = ub_field 9 data,
                ub_node_range_iter_offset = ub_field 10 data,
                ub_tail = drop sizeof_UpdateBuffer data\<rparr>)"

section \<open>Sizes and offsets\<close>

text \<open>Arithmetic done in \<open>size_t\<close> and stored in an \<open>int32_t\<close> is arithmetic modulo \<open>2\<^sup>3\<^sup>2\<close>.\<close>

lemma take_bit_64_32_add: "take_bit 32 (take_bit 64 x + take_bit 64 y) = take_bit 32 (x + y :: int)"
  using take_bit_add [of 32 "take_bit 64 x" "take_bit 64 y"] take_bit_add [of 32 x y]
  by (simp add: take_bit_take_bit)

lemma take_bit_64_32_mult: "take_bit 32 (take_bit 64 x * take_bit 64 y) = take_bit 32 (x * y :: int)"
  using take_bit_mult [of 32 "take_bit 64 x" "take_bit 64 y"] take_bit_mult [of 32 x y]
  by (simp add: take_bit_take_bit)

lemma trunc32_add: "trunc32 (x + y) = trunc32 x + trunc32 y"
  by transfer (simp add: take_bit_64_32_add)

lemma trunc32_mult: "trunc32 (x * y) = trunc32 x * trunc32 y"
  by transfer (simp add: take_bit_64_32_mult)

lemma trunc32_szt: "trunc32 (szt w) = w"
  by transfer (simp add: take_bit_signed_take_bit)

lemmas trunc32_simps = trunc32_add trunc32_mult trunc32_szt

lemma GetBuffSize_alt: "GetBuffSize us uc nc = nc * 20 + uc * (8 + us) + 44"
  by (simp add: GetBuffSize_def Let_def trunc32_simps sizeof_UpdateBuffer_def)

end
