(* ===== verification/Buffer_Spec.thy ===== *)
theory Buffer_Spec
  imports Memstruct
begin

text \<open>
  What an \<open>UpdateBuffer\<close> promises: an abstract buffer (node-range slots, a sequence of
  updates, an iterator), the relation between it and the bytes of the block, and a
  refinement lemma for every operation.
\<close>

section \<open>The abstract buffer\<close>

record abuf =
  a_usize :: nat
  a_cap :: nat
  a_ranges :: "(i32 \<times> i64 \<times> i64) list"
  a_upds :: "(i64 \<times> bytes) list"
  a_uiter :: nat
  a_riter :: i32

definition a_st :: "abuf \<Rightarrow> nat" where
  "a_st a = 44 + 20 * length (a_ranges a)"

definition a_step :: "abuf \<Rightarrow> nat" where
  "a_step a = 8 + a_usize a"

definition abuf_ok :: "abuf \<Rightarrow> bool" where
  "abuf_ok a \<longleftrightarrow>
     length (a_upds a) \<le> a_cap a \<and> a_uiter a \<le> length (a_upds a) \<and>
     (\<forall>u \<in> set (a_upds a). length (snd u) = a_usize a) \<and>
     a_st a + a_step a * a_cap a < 2147483648"

definition enc_range :: "i32 \<times> i64 \<times> i64 \<Rightarrow> bytes" where
  "enc_range r = i32_bytes (fst r) @ i64_bytes (fst (snd r)) @ i64_bytes (snd (snd r))"

definition enc_upd :: "i64 \<times> bytes \<Rightarrow> bytes" where
  "enc_upd u = i64_bytes (fst u) @ snd u"

text \<open>The block \<open>b\<close> represents the abstract buffer \<open>a\<close>.\<close>

definition ub_rep :: "abuf \<Rightarrow> UpdateBuffer \<Rightarrow> bool" where
  "ub_rep a b \<longleftrightarrow>
     abuf_ok a \<and>
     ub_buff_size b = of_nat (a_st a + a_step a * a_cap a) \<and>
     ub_update_size b = of_nat (a_usize a) \<and>
     ub_update_capacity b = of_nat (a_cap a) \<and>
     ub_node_range_capacity b = of_nat (length (a_ranges a)) \<and>
     ub_num_updates_occupied b = of_nat (length (a_upds a)) \<and>
     ub_node_range_st_offset b = 44 \<and>
     ub_update_st_offset b = of_nat (a_st a) \<and>
     ub_update_end_offset b = of_nat (a_st a + a_step a * length (a_upds a)) \<and>
     ub_update_iter_offset b = of_nat (a_st a + a_step a * a_uiter a) \<and>
     ub_node_range_iter_offset b = a_riter a \<and>
     (\<exists>rest. length rest = a_step a * (a_cap a - length (a_upds a)) \<and>
        ub_tail b = concat (map enc_range (a_ranges a)) @ concat (map enc_upd (a_upds a)) @ rest)"

section \<open>Layout facts\<close>

lemma length_enc_range [simp]: "length (enc_range r) = 20"
  by (simp add: enc_range_def)

lemma length_enc_ranges [simp]: "length (concat (map enc_range rs)) = 20 * length rs"
  by (simp add: length_concat_map_fixed)

lemma length_enc_upds:
  "\<forall>u \<in> set us. length (snd u) = n \<Longrightarrow> length (concat (map enc_upd us)) = (8 + n) * length us"
  by (rule length_concat_map_fixed) (simp add: enc_upd_def)

lemma abuf_ok_bound: "abuf_ok a \<Longrightarrow> n \<le> a_cap a \<Longrightarrow> a_st a + a_step a * n < 2147483648"
  using mult_le_mono2 [of n "a_cap a" "a_step a"] unfolding abuf_ok_def by linarith

lemma abuf_ok_cap: "abuf_ok a \<Longrightarrow> a_cap a < 2147483648"
  using mult_le_mono1 [of 1 "a_step a" "a_cap a"] unfolding abuf_ok_def a_step_def by linarith

lemma abuf_ok_sizes:
  "abuf_ok a \<Longrightarrow> length (a_ranges a) < 2147483648"
  "abuf_ok a \<Longrightarrow> a_st a < 2147483648"
  by (simp_all add: abuf_ok_def a_st_def)

text \<open>The header members as integers.\<close>

lemma rep_sint:
  assumes "ub_rep a b"
  shows "sint (ub_update_st_offset b) = int (a_st a)"
    and "sint (ub_update_end_offset b) = int (a_st a + a_step a * length (a_upds a))"
    and "sint (ub_update_iter_offset b) = int (a_st a + a_step a * a_uiter a)"
    and "sint (ub_num_updates_occupied b) = int (length (a_upds a))"
    and "sint (ub_update_capacity b) = int (a_cap a)"
    and "sint (ub_node_range_capacity b) = int (length (a_ranges a))"
    and "sint (ub_node_range_st_offset b) = 44"
    and "sint (ub_buff_size b) = int (a_st a + a_step a * a_cap a)"
proof -
  from assms have ok: "abuf_ok a" by (simp add: ub_rep_def)
  then have l: "length (a_upds a) \<le> a_cap a" "a_uiter a \<le> length (a_upds a)"
    by (simp_all add: abuf_ok_def)
  note bounds = abuf_ok_bound [OF ok] abuf_ok_cap [OF ok] abuf_ok_sizes [OF ok] l
  show "sint (ub_update_st_offset b) = int (a_st a)"
    using assms bounds by (simp add: ub_rep_def)
  show "sint (ub_update_end_offset b) = int (a_st a + a_step a * length (a_upds a))"
    using assms bounds(1) [OF l(1)] by (simp add: ub_rep_def del: of_nat_add of_nat_mult)
  show "sint (ub_update_iter_offset b) = int (a_st a + a_step a * a_uiter a)"
    using assms bounds(1) [OF order_trans [OF l(2,1)]] by (simp add: ub_rep_def del: of_nat_add of_nat_mult)
  show "sint (ub_num_updates_occupied b) = int (length (a_upds a))"
    using assms bounds by (simp add: ub_rep_def)
  show "sint (ub_update_capacity b) = int (a_cap a)"
    using assms bounds by (simp add: ub_rep_def)
  show "sint (ub_node_range_capacity b) = int (length (a_ranges a))"
    using assms bounds by (simp add: ub_rep_def)
  show "sint (ub_node_range_st_offset b) = 44"
    using assms by (simp add: ub_rep_def)
  show "sint (ub_buff_size b) = int (a_st a + a_step a * a_cap a)"
    using assms bounds(1) [OF order_refl] by (simp add: ub_rep_def del: of_nat_add of_nat_mult)
qed

text \<open>Typed accesses at a known place of the tail.\<close>

lemma rd_i32_at:
  "ub_tail b = p @ i32_bytes v @ q \<Longrightarrow> off = 44 + int (length p) \<Longrightarrow> rd_i32 off b = Inr v"
  by (simp add: rd_i32_def ub_read_def sizeof_UpdateBuffer_def mem_read_append)

lemma rd_i64_at:
  "ub_tail b = p @ i64_bytes v @ q \<Longrightarrow> off = 44 + int (length p) \<Longrightarrow> rd_i64 off b = Inr v"
  by (simp add: rd_i64_def ub_read_def sizeof_UpdateBuffer_def mem_read_append)

lemma ub_read_at:
  "ub_tail b = p @ bs @ q \<Longrightarrow> off = 44 + int (length p) \<Longrightarrow> n = length bs \<Longrightarrow> ub_read off n b = Inr bs"
  by (simp add: ub_read_def sizeof_UpdateBuffer_def mem_read_append)

lemma ub_write_at:
  "ub_tail b = p @ bs @ q \<Longrightarrow> off = 44 + int (length p) \<Longrightarrow> length bs = length bs' \<Longrightarrow>
     ub_write off bs' b = Inr (b\<lparr>ub_tail := p @ bs' @ q\<rparr>)"
  by (simp add: ub_write_def sizeof_UpdateBuffer_def mem_write_append)

lemma wr_i32_at:
  "ub_tail b = p @ bs @ q \<Longrightarrow> off = 44 + int (length p) \<Longrightarrow> length bs = 4 \<Longrightarrow>
     wr_i32 off v b = Inr (b\<lparr>ub_tail := p @ i32_bytes v @ q\<rparr>)"
  by (simp add: wr_i32_def ub_write_at)

lemma wr_i64_at:
  "ub_tail b = p @ bs @ q \<Longrightarrow> off = 44 + int (length p) \<Longrightarrow> length bs = 8 \<Longrightarrow>
     wr_i64 off v b = Inr (b\<lparr>ub_tail := p @ i64_bytes v @ q\<rparr>)"
  by (simp add: wr_i64_def ub_write_at)

section \<open>One slot, one update\<close>

lemma rep_read_range:
  assumes "ub_rep a b" and "a_ranges a = pre @ (n, s, e) # suf" and "ptr = 44 + 20 * int (length pre)"
  shows "rd_i32 ptr b = Inr n" and "rd_i64 (ptr + 4) b = Inr s" and "rd_i64 (ptr + 4 + 8) b = Inr e"
proof -
  let ?p = "concat (map enc_range pre)"
  from assms(1,2) obtain q where t: "ub_tail b = ?p @ i32_bytes n @ i64_bytes s @ i64_bytes e @ q"
    by (auto simp: ub_rep_def enc_range_def)
  show "rd_i32 ptr b = Inr n"
    using t by (rule rd_i32_at) (simp add: assms(3))
  show "rd_i64 (ptr + 4) b = Inr s"
    using t by (intro rd_i64_at [where p = "?p @ i32_bytes n"]) (auto simp: assms(3))
  show "rd_i64 (ptr + 4 + 8) b = Inr e"
    using t by (intro rd_i64_at [where p = "?p @ i32_bytes n @ i64_bytes s"]) (auto simp: assms(3))
qed

lemma rep_set_ranges:
  assumes "ub_rep a b" and "length rs = length (a_ranges a)"
    and "ub_tail b = concat (map enc_range (a_ranges a)) @ q"
  shows "ub_rep (a\<lparr>a_ranges := rs\<rparr>) (b\<lparr>ub_tail := concat (map enc_range rs) @ q\<rparr>)"
  using assms by (auto simp: ub_rep_def abuf_ok_def a_st_def a_step_def)

lemma rep_write_range:
  assumes "ub_rep a b" and "a_ranges a = pre @ (n, s, e) # suf" and "ptr = 44 + 20 * int (length pre)"
  shows "\<exists>b'. wr_i32 ptr v b = Inr b' \<and> ub_rep (a\<lparr>a_ranges := pre @ (v, s, e) # suf\<rparr>) b'"
    and "\<exists>b'. wr_i64 (ptr + 4) w b = Inr b' \<and> ub_rep (a\<lparr>a_ranges := pre @ (n, w, e) # suf\<rparr>) b'"
    and "\<exists>b'. wr_i64 (ptr + 4 + 8) w b = Inr b' \<and> ub_rep (a\<lparr>a_ranges := pre @ (n, s, w) # suf\<rparr>) b'"
proof -
  let ?p = "concat (map enc_range pre)" and ?q = "concat (map enc_range suf)"
  from assms(1,2) obtain q where
    t: "ub_tail b = concat (map enc_range (a_ranges a)) @ q"
    by (auto simp: ub_rep_def)
  then have t': "ub_tail b = ?p @ i32_bytes n @ i64_bytes s @ i64_bytes e @ ?q @ q"
    by (simp add: assms(2) enc_range_def)
  note upd = rep_set_ranges [OF assms(1) _ t, of "pre @ (_, _, _) # suf", unfolded assms(2), simplified]
  have "wr_i32 ptr v b = Inr (b\<lparr>ub_tail := ?p @ i32_bytes v @ i64_bytes s @ i64_bytes e @ ?q @ q\<rparr>)"
    using t' by (rule wr_i32_at) (auto simp: assms(3))
  then show "\<exists>b'. wr_i32 ptr v b = Inr b' \<and> ub_rep (a\<lparr>a_ranges := pre @ (v, s, e) # suf\<rparr>) b'"
    using upd [of v s e] by (simp add: enc_range_def)
  have "wr_i64 (ptr + 4) w b = Inr (b\<lparr>ub_tail := (?p @ i32_bytes n) @ i64_bytes w @ i64_bytes e @ ?q @ q\<rparr>)"
    by (rule wr_i64_at [where bs = "i64_bytes s"]) (auto simp: assms(3) t')
  then show "\<exists>b'. wr_i64 (ptr + 4) w b = Inr b' \<and> ub_rep (a\<lparr>a_ranges := pre @ (n, w, e) # suf\<rparr>) b'"
    using upd [of n w e] by (simp add: enc_range_def)
  have "wr_i64 (ptr + 4 + 8) w b =
      Inr (b\<lparr>ub_tail := (?p @ i32_bytes n @ i64_bytes s) @ i64_bytes w @ ?q @ q\<rparr>)"
    by (rule wr_i64_at [where bs = "i64_bytes e"]) (auto simp: assms(3) t')
  then show "\<exists>b'. wr_i64 (ptr + 4 + 8) w b = Inr b' \<and> ub_rep (a\<lparr>a_ranges := pre @ (n, s, w) # suf\<rparr>) b'"
    using upd [of n s w] by (simp add: enc_range_def)
qed

text \<open>Writing the two bounds of a slot, as three of the loops do.\<close>

lemma rep_write_bounds:
  assumes "ub_rep a b" and "a_ranges a = pre @ (n, s, e) # suf" and "ptr = 44 + 20 * int (length pre)"
  shows "\<exists>b'. bindR (wr_i64 (ptr + 4) s' b) (\<lambda>b. bindR (wr_i64 (ptr + 4 + 8) e' b) (\<lambda>b. f b)) = f b' \<and>
           ub_rep (a\<lparr>a_ranges := pre @ (n, s', e') # suf\<rparr>) b'"
proof -
  obtain b1 where 1: "wr_i64 (ptr + 4) s' b = Inr b1" "ub_rep (a\<lparr>a_ranges := pre @ (n, s', e) # suf\<rparr>) b1"
    using rep_write_range(2) [OF assms] by blast
  obtain b2 where "wr_i64 (ptr + 4 + 8) e' b1 = Inr b2" "ub_rep (a\<lparr>a_ranges := pre @ (n, s', e') # suf\<rparr>) b2"
    using rep_write_range(3) [OF 1(2) _ assms(3)] by auto
  with 1 show ?thesis by (metis bindR_simps(2))
qed

definition upd_ptr :: "abuf \<Rightarrow> nat \<Rightarrow> int" where
  "upd_ptr a i = int (a_st a + a_step a * i)"

lemma rep_upd_tail:
  assumes "ub_rep a b" and "a_upds a = pre @ (k, d) # suf"
  obtains q where
    "ub_tail b = (concat (map enc_range (a_ranges a)) @ concat (map enc_upd pre)) @ i64_bytes k @ d @ q"
    and "44 + int (length (concat (map enc_range (a_ranges a)) @ concat (map enc_upd pre))) =
      upd_ptr a (length pre)"
    and "length d = a_usize a"
proof -
  from assms have l: "\<forall>u \<in> set pre. length (snd u) = a_usize a" "length d = a_usize a"
    by (auto simp: ub_rep_def abuf_ok_def)
  then have "44 + int (length (concat (map enc_range (a_ranges a)) @ concat (map enc_upd pre))) =
      upd_ptr a (length pre)"
    by (simp only: length_append length_enc_ranges length_enc_upds [OF l(1)] upd_ptr_def a_st_def a_step_def)
  moreover from assms obtain q where
    "ub_tail b = (concat (map enc_range (a_ranges a)) @ concat (map enc_upd pre)) @ i64_bytes k @ d @ q"
    by (auto simp: ub_rep_def enc_upd_def)
  ultimately show thesis using that l(2) by blast
qed

lemma rep_read_upd:
  assumes "ub_rep a b" and "a_upds a = pre @ (k, d) # suf" and "ptr = upd_ptr a (length pre)"
  shows "rd_i64 ptr b = Inr k" and "ub_read (ptr + 8) (a_usize a) b = Inr d"
proof -
  let ?p = "concat (map enc_range (a_ranges a)) @ concat (map enc_upd pre)"
  from assms(1,2) obtain q where t: "ub_tail b = ?p @ i64_bytes k @ d @ q"
    and l: "44 + int (length ?p) = ptr" and d: "length d = a_usize a"
    unfolding assms(3) by (rule rep_upd_tail)
  show "rd_i64 ptr b = Inr k" using t l [symmetric] by (rule rd_i64_at)
  show "ub_read (ptr + 8) (a_usize a) b = Inr d"
    by (rule ub_read_at [where p = "?p @ i64_bytes k" and q = q]) (use t l d in auto)
qed

lemma rep_write_upd:
  assumes rep: "ub_rep a b" and upds: "a_upds a = pre @ (k, d) # suf"
    and ptr: "ptr = upd_ptr a (length pre)" and len: "length d' = a_usize a"
  shows "\<exists>b'. ub_write (ptr + 8) d' b = Inr b' \<and> ub_rep (a\<lparr>a_upds := pre @ (k, d') # suf\<rparr>) b'"
proof -
  let ?r = "concat (map enc_range (a_ranges a))" and ?p = "concat (map enc_upd pre)"
    and ?s = "concat (map enc_upd suf)"
  from rep upds obtain rest where t: "ub_tail b = (?r @ ?p @ i64_bytes k) @ d @ ?s @ rest"
    and rest: "length rest = a_step a * (a_cap a - length (a_upds a))"
    by (auto simp: ub_rep_def enc_upd_def)
  from rep upds have l: "44 + int (length (?r @ ?p)) = ptr" and d: "length d = a_usize a"
    by (auto elim!: rep_upd_tail simp: ptr)
  have "ub_write (ptr + 8) d' b = Inr (b\<lparr>ub_tail := (?r @ ?p @ i64_bytes k) @ d' @ ?s @ rest\<rparr>)"
    using t by (rule ub_write_at) (use l d len in auto)
  moreover have "ub_rep (a\<lparr>a_upds := pre @ (k, d') # suf\<rparr>)
      (b\<lparr>ub_tail := (?r @ ?p @ i64_bytes k) @ d' @ ?s @ rest\<rparr>)"
    using rep upds len rest by (auto simp: ub_rep_def abuf_ok_def a_st_def a_step_def enc_upd_def)
  ultimately show ?thesis by blast
qed

section \<open>Creation\<close>

definition empty_abuf :: "nat \<Rightarrow> nat \<Rightarrow> nat \<Rightarrow> i32 \<Rightarrow> abuf" where
  "empty_abuf us cap nr r =
     \<lparr>a_usize = us, a_cap = cap, a_ranges = replicate nr (-1, -1, -1), a_upds = [],
      a_uiter = 0, a_riter = r\<rparr>"

lemma init_node_ranges_at:
  "ub_tail b = p @ m @ q \<Longrightarrow> length m = 20 * n \<Longrightarrow> ptr = 44 + int (length p) \<Longrightarrow>
     init_node_ranges n ptr b =
       Inr (b\<lparr>ub_tail := p @ concat (map enc_range (replicate n (-1, -1, -1))) @ q\<rparr>)"
proof (induction n arbitrary: p m b ptr)
  case 0
  then show ?case by simp
next
  case (Suc n)
  define m1 m2 m3 m4 where
    "m1 = take 4 m" and "m2 = take 8 (drop 4 m)" and "m3 = take 8 (drop 12 m)" and "m4 = drop 20 m"
  have m: "m = m1 @ m2 @ m3 @ m4"
    using append_take_drop_id [of 4 m] append_take_drop_id [of 8 "drop 4 m"]
      append_take_drop_id [of 8 "drop 12 m"]
    by (simp add: m1_def m2_def m3_def m4_def)
  have l: "length m1 = 4" "length m2 = 8" "length m3 = 8" "length m4 = 20 * n"
    using Suc.prems(2) by (simp_all add: m1_def m2_def m3_def m4_def)
  let ?w = "i32_bytes (-1)" and ?x = "i64_bytes (-1)"
  have 1: "wr_i32 ptr (-1) b = Inr (b\<lparr>ub_tail := p @ ?w @ m2 @ m3 @ m4 @ q\<rparr>)"
    using l Suc.prems by (intro wr_i32_at) (auto simp: m)
  have 2: "wr_i64 (ptr + 4) (-1) (b\<lparr>ub_tail := p @ ?w @ m2 @ m3 @ m4 @ q\<rparr>) =
      Inr (b\<lparr>ub_tail := p @ ?w @ ?x @ m3 @ m4 @ q\<rparr>)"
    using l Suc.prems by (subst wr_i64_at [where p = "p @ ?w" and bs = m2]) auto
  have 3: "wr_i64 (ptr + 4 + 8) (-1) (b\<lparr>ub_tail := p @ ?w @ ?x @ m3 @ m4 @ q\<rparr>) =
      Inr (b\<lparr>ub_tail := p @ ?w @ ?x @ ?x @ m4 @ q\<rparr>)"
    using l Suc.prems by (subst wr_i64_at [where p = "p @ ?w @ ?x" and bs = m3]) auto
  have 4: "init_node_ranges n (ptr + (4 + 8 + 8)) (b\<lparr>ub_tail := p @ ?w @ ?x @ ?x @ m4 @ q\<rparr>) =
      Inr (b\<lparr>ub_tail := p @ ?w @ ?x @ ?x @ concat (map enc_range (replicate n (-1, -1, -1))) @ q\<rparr>)"
    using l Suc.prems by (subst Suc.IH [where p = "p @ ?w @ ?x @ ?x"]) auto
  show ?case
    by (simp only: init_node_ranges.simps 1 2 3 4 bindR_simps) (simp add: enc_range_def)
qed

lemma CreateUpdateBuffer_rep:
  assumes "44 + 20 * nr + (8 + us) * cap < 2147483648"
  shows "\<exists>b r. CreateUpdateBuffer junk (of_nat us) (of_nat cap) (of_nat nr) = Inr b \<and>
           ub_rep (empty_abuf us cap nr r) b"
proof -
  define n where "n = 44 + 20 * nr + (8 + us) * cap"
  define mem where "mem = map junk [0..<n]"
  have nr: "nr < 2147483648" using assms by linarith
  have size: "GetBuffSize (of_nat us) (of_nat cap) (of_nat nr) = of_nat n"
    by (simp add: GetBuffSize_alt n_def algebra_simps)
  have alloc: "AllocateBufferMemory junk (of_nat n) = Inr mem"
    using assms by (simp add: AllocateBufferMemory_def mem_def n_def del: of_nat_add of_nat_mult)
  have st: "trunc32 (44 + szt (of_nat nr) * 20) = 44 + 20 * of_nat nr"
    by (simp only: trunc32_simps) simp
  define m q where "m = take (20 * nr) (drop 44 mem)" and "q = drop (20 * nr) (drop 44 mem)"
  have lmem: "length mem = n" by (simp add: mem_def)
  have split: "drop 44 mem = [] @ m @ q" unfolding m_def q_def by (simp only: append_take_drop_id append_Nil)
  have lm: "length m = 20 * nr" using lmem by (simp add: m_def n_def)
  have lq: "length q = (8 + us) * cap" using lmem by (simp add: q_def n_def)
  have len: "\<not> length mem < sizeof_UpdateBuffer"
    using lmem by (simp add: n_def sizeof_UpdateBuffer_def)
  show ?thesis
    unfolding CreateUpdateBuffer_def Let_def size alloc UpdateBuffer_ctor_def
    using len split lm lq assms nr
    by (simp add: init_node_ranges_at [where p = "[]" and m = m and q = q] sizeof_UpdateBuffer_def)
       (auto simp: st ub_rep_def empty_abuf_def abuf_ok_def a_st_def a_step_def n_def)
qed

section \<open>Updates\<close>

definition a_append :: "i64 \<Rightarrow> bytes \<Rightarrow> abuf \<Rightarrow> int \<times> abuf" where
  "a_append k d a =
     (if length (a_upds a) = a_cap a then (-1, a)
      else (0, a\<lparr>a_upds := a_upds a @ [(k, take (a_usize a) d)]\<rparr>))"

primrec key_index :: "'k \<Rightarrow> ('k \<times> 'v) list \<Rightarrow> nat option" where
  "key_index k [] = None"
| "key_index k (x # xs) = (if fst x = k then Some 0 else map_option Suc (key_index k xs))"

lemma map_of_key_index: "map_of xs k = map_option (\<lambda>i. snd (xs ! i)) (key_index k xs)"
  by (induction xs) (auto simp: option.map_comp comp_def)

lemma key_index_Some:
  "key_index k xs = Some i \<Longrightarrow> i < length xs \<and> fst (xs ! i) = k"
  by (induction xs arbitrary: i) (auto split: if_splits)

lemma rep_upds_length:
  "ub_rep a b \<Longrightarrow> length (concat (map enc_upd (a_upds a))) = a_step a * length (a_upds a)"
  unfolding a_step_def by (rule length_enc_upds) (simp add: ub_rep_def abuf_ok_def)

lemma memcpy_src_rep:
  "ub_rep a b \<Longrightarrow> a_usize a \<le> length d \<Longrightarrow> a_usize a < 2147483648 \<Longrightarrow>
     memcpy_src d (ub_update_size b) = Inr (take (a_usize a) d)"
  by (simp add: memcpy_src_def ub_rep_def mem_read_def)

lemma rep_full_iff:
  "ub_rep a b \<Longrightarrow> ub_num_updates_occupied b = ub_update_capacity b \<longleftrightarrow> length (a_upds a) = a_cap a"
  using rep_sint(4,5) [of a b] by (simp flip: sint_inj_iff)

text \<open>A buffer with room has at least one update's worth of memory left.\<close>

lemma rep_room:
  assumes "ub_rep a b" and "length (a_upds a) < a_cap a"
  shows "a_usize a < 2147483648"
    and "\<exists>x d0 q. length x = 8 \<and> length d0 = a_usize a \<and>
      length q = a_step a * (a_cap a - Suc (length (a_upds a))) \<and>
      ub_tail b = (concat (map enc_range (a_ranges a)) @ concat (map enc_upd (a_upds a))) @ x @ d0 @ q"
proof -
  from assms(1) obtain rest where r: "length rest = a_step a * (a_cap a - length (a_upds a))"
    and t: "ub_tail b = concat (map enc_range (a_ranges a)) @ concat (map enc_upd (a_upds a)) @ rest"
    by (auto simp: ub_rep_def)
  from assms(2) have c: "a_cap a - length (a_upds a) = Suc (a_cap a - Suc (length (a_upds a)))" by simp
  have "rest = take 8 rest @ take (a_usize a) (drop 8 rest) @ drop (a_step a) rest"
    using append_take_drop_id [of 8 rest] append_take_drop_id [of "a_usize a" "drop 8 rest"]
    by (simp add: a_step_def add.commute)
  with t r c show "\<exists>x d0 q. length x = 8 \<and> length d0 = a_usize a \<and>
      length q = a_step a * (a_cap a - Suc (length (a_upds a))) \<and>
      ub_tail b = (concat (map enc_range (a_ranges a)) @ concat (map enc_upd (a_upds a))) @ x @ d0 @ q"
    by (intro exI [of _ "take 8 rest"] exI [of _ "take (a_usize a) (drop 8 rest)"]
        exI [of _ "drop (a_step a) rest"]) (auto simp: a_step_def)
  from assms have "a_st a + a_step a * 1 < 2147483648"
    by (intro abuf_ok_bound) (auto simp: ub_rep_def)
  then show "a_usize a < 2147483648" by (simp add: a_step_def)
qed

lemma AppendUpdate_full: "ub_rep a b \<Longrightarrow> length (a_upds a) = a_cap a \<Longrightarrow> AppendUpdate k d b = Inr (-1, b)"
  by (simp add: AppendUpdate_def rep_full_iff)

lemma AppendUpdate_room:
  assumes rep: "ub_rep a b" and room: "length (a_upds a) < a_cap a" and d: "a_usize a \<le> length d"
  shows "\<exists>b'. AppendUpdate k d b = Inr (0, b') \<and>
           ub_rep (a\<lparr>a_upds := a_upds a @ [(k, take (a_usize a) d)]\<rparr>) b'"
proof -
  let ?p = "concat (map enc_range (a_ranges a)) @ concat (map enc_upd (a_upds a))"
  let ?d = "take (a_usize a) d"
  obtain x d0 q where l: "length x = 8" "length d0 = a_usize a"
      "length q = a_step a * (a_cap a - Suc (length (a_upds a)))"
    and t: "ub_tail b = ?p @ x @ d0 @ q"
    using rep_room(2) [OF rep room] by blast
  have e: "sint (ub_update_end_offset b) = 44 + int (length ?p)"
    by (simp add: rep_sint(2) [OF rep] rep_upds_length [OF rep] a_st_def)
  define b1 where "b1 = b\<lparr>ub_tail := ?p @ i64_bytes k @ d0 @ q\<rparr>"
  define b2 where "b2 = b\<lparr>ub_tail := ?p @ i64_bytes k @ ?d @ q\<rparr>"
  have w1: "wr_i64 (sint (ub_update_end_offset b)) k b = Inr b1"
    unfolding b1_def using t e l(1) by (rule wr_i64_at)
  have w2: "ub_write (sint (ub_update_end_offset b) + 8) ?d b1 = Inr b2"
    unfolding b1_def b2_def e using l d
    by (subst ub_write_at [where p = "?p @ i64_bytes k" and bs = d0 and q = q]) auto
  have src: "memcpy_src d (ub_update_size b1) = Inr ?d"
    using memcpy_src_rep [OF rep d rep_room(1) [OF rep room]] by (simp add: b1_def)
  have off: "trunc32 (szt (ub_update_end_offset b) + (8 + szt (ub_update_size b))) =
      ub_update_end_offset b + (8 + ub_update_size b)"
    by (simp only: trunc32_simps) simp
  have ne: "ub_num_updates_occupied b \<noteq> ub_update_capacity b"
    using room by (simp add: rep_full_iff [OF rep])
  have "AppendUpdate k d b =
      Inr (0, b2\<lparr>ub_update_end_offset := ub_update_end_offset b + (8 + ub_update_size b),
                 ub_num_updates_occupied := ub_num_updates_occupied b + 1\<rparr>)"
    by (simp add: AppendUpdate_def Let_def ne w1 w2 src off) (simp add: b2_def off)
  moreover have "ub_rep (a\<lparr>a_upds := a_upds a @ [(k, ?d)]\<rparr>)
      (b2\<lparr>ub_update_end_offset := ub_update_end_offset b + (8 + ub_update_size b),
          ub_num_updates_occupied := ub_num_updates_occupied b + 1\<rparr>)"
    using rep room l d unfolding b2_def
    by (auto simp: ub_rep_def abuf_ok_def a_st_def a_step_def enc_upd_def algebra_simps)
  ultimately show ?thesis by blast
qed

lemma AppendUpdate_rep:
  "ub_rep a b \<Longrightarrow> a_usize a \<le> length d \<Longrightarrow>
     \<exists>b'. AppendUpdate k d b = Inr (fst (a_append k d a), b') \<and> ub_rep (snd (a_append k d a)) b'"
  using AppendUpdate_full [of a b k d] AppendUpdate_room [of a b d k]
  by (cases "length (a_upds a) = a_cap a") (auto simp: a_append_def ub_rep_def abuf_ok_def)

text \<open>Iteration.\<close>

definition a_start :: "abuf \<Rightarrow> int \<times> abuf" where
  "a_start a = (if a_upds a = [] then (-1, a) else (0, a\<lparr>a_uiter := 0\<rparr>))"

lemma StartIteration_rep:
  assumes "ub_rep a b"
  shows "fst (StartIteration b) = fst (a_start a) \<and> ub_rep (snd (a_start a)) (snd (StartIteration b))"
proof -
  have "ub_num_updates_occupied b = 0 \<longleftrightarrow> a_upds a = []"
    using rep_sint(4) [OF assms] by (simp flip: sint_inj_iff)
  with assms show ?thesis
    by (auto simp: StartIteration_def a_start_def ub_rep_def abuf_ok_def a_st_def a_step_def)
qed

lemma NextUpdate_end:
  "ub_rep a b \<Longrightarrow> a_uiter a = length (a_upds a) \<Longrightarrow> NextUpdate b = Inr (None, b)"
  by (simp add: NextUpdate_def word_sle_eq rep_sint)

lemma NextUpdate_step:
  assumes rep: "ub_rep a b" and i: "a_uiter a < length (a_upds a)"
  shows "\<exists>b'. NextUpdate b = Inr (Some (fst (a_upds a ! a_uiter a), upd_ptr a (a_uiter a) + 8), b') \<and>
           ub_rep (a\<lparr>a_uiter := Suc (a_uiter a)\<rparr>) b'"
proof -
  let ?i = "a_uiter a"
  let ?u = "a_upds a ! ?i"
  have s: "a_upds a = take ?i (a_upds a) @ (fst ?u, snd ?u) # drop (Suc ?i) (a_upds a)"
    using i by (simp add: id_take_nth_drop)
  have r: "rd_i64 (upd_ptr a ?i) b = Inr (fst ?u)"
    using rep s by (rule rep_read_upd(1)) (use i in simp)
  have p: "sint (ub_update_iter_offset b) = upd_ptr a ?i"
    by (simp add: rep_sint(3) [OF rep] upd_ptr_def)
  have ne: "\<not> ub_update_end_offset b <=s ub_update_iter_offset b"
    using i by (simp add: word_sle_eq rep_sint [OF rep] a_step_def)
  have off: "trunc32 (szt (ub_update_iter_offset b) + (8 + szt (ub_update_size b))) =
      ub_update_iter_offset b + (8 + ub_update_size b)"
    by (simp only: trunc32_simps) simp
  have "ub_rep (a\<lparr>a_uiter := Suc ?i\<rparr>)
      (b\<lparr>ub_update_iter_offset := ub_update_iter_offset b + (8 + ub_update_size b)\<rparr>)"
    using rep i by (auto simp: ub_rep_def abuf_ok_def a_st_def a_step_def algebra_simps)
  then show ?thesis
    by (simp add: NextUpdate_def ne p r off)
qed

lemma get_update_loop_rep:
  assumes "ub_rep a b"
  shows "a_upds a = pre @ suf \<Longrightarrow>
    get_update_loop (length suf) (upd_ptr a (length pre)) k b =
      Inr (map_option (\<lambda>i. upd_ptr a (length pre + i) + 8) (key_index k suf))"
proof (induction suf arbitrary: pre)
  case Nil
  then show ?case by simp
next
  case (Cons u suf)
  obtain ku du where u: "u = (ku, du)" by (cases u)
  from Cons.prems have s: "a_upds a = pre @ (ku, du) # suf" by (simp add: u)
  have r: "rd_i64 (upd_ptr a (length pre)) b = Inr ku"
    using assms s by (rule rep_read_upd(1)) simp
  have us: "sint (ub_update_size b) = int (a_usize a)"
  proof -
    have "a_usize a < 2147483648"
      using assms s abuf_ok_bound [of a 1] by (auto simp: ub_rep_def abuf_ok_def a_step_def)
    with assms show ?thesis by (simp add: ub_rep_def)
  qed
  have nxt: "upd_ptr a (length pre) + (8 + sint (ub_update_size b)) = upd_ptr a (length (pre @ [u]))"
    by (simp add: us upd_ptr_def a_step_def algebra_simps)
  have IH: "get_update_loop (length suf) (upd_ptr a (length (pre @ [u]))) k b =
      Inr (map_option (\<lambda>i. upd_ptr a (length (pre @ [u]) + i) + 8) (key_index k suf))"
    using Cons.prems by (intro Cons.IH) simp
  show ?case
    using IH by (simp add: r nxt u option.map_comp comp_def)
qed

lemma GetUpdate_rep:
  assumes "ub_rep a b"
  shows "GetUpdate k b = Inr (map_option (\<lambda>i. upd_ptr a i + 8) (key_index k (a_upds a)))"
  using get_update_loop_rep [OF assms, of "[]" "a_upds a"] rep_sint [OF assms]
  by (simp add: GetUpdate_def upd_ptr_def)

section \<open>Node ranges\<close>

primrec replace_first :: "'k \<Rightarrow> 'k \<times> 'v \<Rightarrow> ('k \<times> 'v) list \<Rightarrow> ('k \<times> 'v) list" where
  "replace_first k x [] = []"
| "replace_first k x (y # ys) = (if fst y = k then x # ys else y # replace_first k x ys)"

lemma length_replace_first [simp]: "length (replace_first k x ys) = length ys"
  by (induction ys) auto

lemma map_of_replace_first:
  "k \<in> fst ` set ys \<Longrightarrow> k' = k \<or> k' \<notin> fst ` set ys \<Longrightarrow> map_of (replace_first k (k', v) ys) k' = Some v"
  by (induction ys) auto

lemma map_of_replace_first_other:
  "k \<noteq> j \<Longrightarrow> k' \<noteq> j \<Longrightarrow> map_of (replace_first k (k', v) ys) j = map_of ys j"
  by (induction ys) auto

text \<open>
  \<open>UpdateNodeRange\<close> on the slots: the slot of the node if it has one, else the first free
  slot (\<open>-1\<close>), else failure.
\<close>

definition a_update_range :: "i32 \<Rightarrow> i64 \<Rightarrow> i64 \<Rightarrow> abuf \<Rightarrow> int \<times> abuf" where
  "a_update_range n s e a =
     (if n \<in> fst ` set (a_ranges a) then (0, a\<lparr>a_ranges := replace_first n (n, s, e) (a_ranges a)\<rparr>)
      else if -1 \<in> fst ` set (a_ranges a) then (0, a\<lparr>a_ranges := replace_first (-1) (n, s, e) (a_ranges a)\<rparr>)
      else (-1, a))"

primrec delete_slot :: "i32 \<Rightarrow> (i32 \<times> i64 \<times> i64) list \<Rightarrow> (i32 \<times> i64 \<times> i64) list option" where
  "delete_slot n [] = None"
| "delete_slot n (r # rs) =
     (if fst r <s 0 then None
      else if fst r = n then Some ((-1, snd r) # rs)
      else map_option (Cons r) (delete_slot n rs))"

definition a_delete_range :: "i32 \<Rightarrow> abuf \<Rightarrow> int \<times> abuf" where
  "a_delete_range n a =
     (case delete_slot n (a_ranges a) of None \<Rightarrow> (-1, a) | Some rs \<Rightarrow> (0, a\<lparr>a_ranges := rs\<rparr>))"

lemma slot_ptr_Suc: "44 + 20 * int (length pre) + (4 + 8 + 8) = 44 + 20 * int (length (pre @ [r]))"
  by simp

lemma get_range_loop_rep:
  assumes "ub_rep a b"
  shows "a_ranges a = pre @ suf \<Longrightarrow>
    get_range_loop (length suf) (44 + 20 * int (length pre)) n b = Inr (map_of suf n)"
proof (induction suf arbitrary: pre)
  case Nil
  then show ?case by simp
next
  case (Cons r suf)
  obtain k s e where r: "r = (k, s, e)" by (cases r)
  note rd = rep_read_range [OF assms Cons.prems [unfolded r] refl]
  have "get_range_loop (length suf) (44 + 20 * int (length (pre @ [r]))) n b = Inr (map_of suf n)"
    using Cons.prems by (intro Cons.IH) simp
  then show ?case
    by (simp only: length_Cons get_range_loop.simps rd bindR_simps slot_ptr_Suc) (simp add: r)
qed

lemma GetNodeRange_rep: "ub_rep a b \<Longrightarrow> GetNodeRange n b = Inr (map_of (a_ranges a) n)"
  using get_range_loop_rep [of a b "[]" "a_ranges a"] rep_sint [of a b]
  by (simp add: GetNodeRange_def)

lemma update_range_loop_rep:
  assumes "ub_rep a b"
  shows "a_ranges a = pre @ suf \<Longrightarrow>
    \<exists>b'. update_range_loop (length suf) (44 + 20 * int (length pre)) n s e b =
      Inr (n \<in> fst ` set suf, b') \<and> ub_rep (a\<lparr>a_ranges := pre @ replace_first n (n, s, e) suf\<rparr>) b'"
proof (induction suf arbitrary: pre)
  case Nil
  with assms show ?case by auto
next
  case (Cons r suf)
  obtain k s0 e0 where r: "r = (k, s0, e0)" by (cases r)
  note prems = Cons.prems [unfolded r]
  note rd = rep_read_range(1) [OF assms prems refl]
  show ?case
  proof (cases "k = n")
    case True
    from rep_write_bounds [OF assms prems refl, where f = "\<lambda>b. Inr (True, b)"] obtain b' where
      "bindR (wr_i64 (44 + 20 * int (length pre) + 4) s b) (\<lambda>b.
        bindR (wr_i64 (44 + 20 * int (length pre) + 4 + 8) e b) (\<lambda>b. Inr (True, b))) = Inr (True, b')"
      and "ub_rep (a\<lparr>a_ranges := pre @ (k, s, e) # suf\<rparr>) b'" by blast
    with True r show ?thesis
      by (simp only: length_Cons update_range_loop.simps rd bindR_simps) auto
  next
    case False
    from Cons.prems obtain b' where
      "update_range_loop (length suf) (44 + 20 * int (length (pre @ [r]))) n s e b =
        Inr (n \<in> fst ` set suf, b')"
      and "ub_rep (a\<lparr>a_ranges := (pre @ [r]) @ replace_first n (n, s, e) suf\<rparr>) b'"
      using Cons.IH [of "pre @ [r]"] by auto
    with False r show ?thesis
      by (simp only: length_Cons update_range_loop.simps rd bindR_simps slot_ptr_Suc) auto
  qed
qed

lemma claim_range_loop_rep:
  assumes "ub_rep a b"
  shows "a_ranges a = pre @ suf \<Longrightarrow>
    \<exists>b'. claim_range_loop (length suf) (44 + 20 * int (length pre)) n s e b =
      Inr (-1 \<in> fst ` set suf, b') \<and> ub_rep (a\<lparr>a_ranges := pre @ replace_first (-1) (n, s, e) suf\<rparr>) b'"
proof (induction suf arbitrary: pre)
  case Nil
  with assms show ?case by auto
next
  case (Cons r suf)
  obtain k s0 e0 where r: "r = (k, s0, e0)" by (cases r)
  note prems = Cons.prems [unfolded r]
  note rd = rep_read_range(1) [OF assms prems refl]
  show ?case
  proof (cases "k = -1")
    case True
    obtain b1 where w: "wr_i32 (44 + 20 * int (length pre)) n b = Inr b1"
      and r1: "ub_rep (a\<lparr>a_ranges := pre @ (n, s0, e0) # suf\<rparr>) b1"
      using rep_write_range(1) [OF assms prems refl] by blast
    from rep_write_bounds [OF r1, of pre n s0 e0 suf _ s e "\<lambda>b. Inr (True, b)"] obtain b' where
      "bindR (wr_i64 (44 + 20 * int (length pre) + 4) s b1) (\<lambda>b.
        bindR (wr_i64 (44 + 20 * int (length pre) + 4 + 8) e b) (\<lambda>b. Inr (True, b))) = Inr (True, b')"
      and "ub_rep (a\<lparr>a_ranges := pre @ (n, s, e) # suf\<rparr>) b'" by auto
    with True r w show ?thesis
      by (simp only: length_Cons claim_range_loop.simps rd bindR_simps) auto
  next
    case False
    from Cons.prems obtain b' where
      "claim_range_loop (length suf) (44 + 20 * int (length (pre @ [r]))) n s e b =
        Inr (-1 \<in> fst ` set suf, b')"
      and "ub_rep (a\<lparr>a_ranges := (pre @ [r]) @ replace_first (-1) (n, s, e) suf\<rparr>) b'"
      using Cons.IH [of "pre @ [r]"] by auto
    with False r show ?thesis
      by (simp only: length_Cons claim_range_loop.simps rd bindR_simps slot_ptr_Suc) auto
  qed
qed

lemma replace_first_absent: "k \<notin> fst ` set ys \<Longrightarrow> replace_first k x ys = ys"
  by (induction ys) auto

lemma UpdateNodeRange_rep:
  assumes "ub_rep a b"
  shows "\<exists>b'. UpdateNodeRange n s e b = Inr (fst (a_update_range n s e a), b') \<and>
           ub_rep (snd (a_update_range n s e a)) b'"
proof -
  let ?rs = "a_ranges a"
  from update_range_loop_rep [OF assms, of "[]" ?rs n s e] obtain b1 where
    1: "update_range_loop (length ?rs) 44 n s e b = Inr (n \<in> fst ` set ?rs, b1)"
    and r1: "ub_rep (a\<lparr>a_ranges := replace_first n (n, s, e) ?rs\<rparr>) b1" by auto
  show ?thesis
  proof (cases "n \<in> fst ` set ?rs")
    case True
    with 1 r1 rep_sint [OF assms] show ?thesis
      by (simp add: UpdateNodeRange_def a_update_range_def Let_def)
  next
    case False
    with r1 have r1': "ub_rep a b1" by (simp add: replace_first_absent)
    from claim_range_loop_rep [OF r1', of "[]" ?rs n s e] obtain b2 where
      "claim_range_loop (length ?rs) 44 n s e b1 = Inr (-1 \<in> fst ` set ?rs, b2)"
      and "ub_rep (a\<lparr>a_ranges := replace_first (-1) (n, s, e) ?rs\<rparr>) b2" by auto
    with False 1 rep_sint [OF assms] show ?thesis
      by (auto simp: UpdateNodeRange_def a_update_range_def Let_def replace_first_absent)
  qed
qed

lemma delete_range_loop_rep:
  assumes "ub_rep a b"
  shows "a_ranges a = pre @ suf \<Longrightarrow>
    (case delete_slot n suf of
       None \<Rightarrow> delete_range_loop (length suf) (44 + 20 * int (length pre)) n b = Inr (-1, b)
     | Some rs \<Rightarrow> \<exists>b'. delete_range_loop (length suf) (44 + 20 * int (length pre)) n b = Inr (0, b') \<and>
         ub_rep (a\<lparr>a_ranges := pre @ rs\<rparr>) b')"
proof (induction suf arbitrary: pre)
  case Nil
  then show ?case by simp
next
  case (Cons r suf)
  obtain k s0 e0 where r: "r = (k, s0, e0)" by (cases r)
  note prems = Cons.prems [unfolded r]
  note rd = rep_read_range(1) [OF assms prems refl]
  have IH: "case delete_slot n suf of
       None \<Rightarrow> delete_range_loop (length suf) (44 + 20 * int (length (pre @ [r]))) n b = Inr (-1, b)
     | Some rs \<Rightarrow> \<exists>b'. delete_range_loop (length suf) (44 + 20 * int (length (pre @ [r]))) n b = Inr (0, b') \<and>
         ub_rep (a\<lparr>a_ranges := (pre @ [r]) @ rs\<rparr>) b'"
    using Cons.prems by (intro Cons.IH) simp
  obtain b1 where "wr_i32 (44 + 20 * int (length pre)) (-1) b = Inr b1"
    and "ub_rep (a\<lparr>a_ranges := pre @ (-1, s0, e0) # suf\<rparr>) b1"
    using rep_write_range(1) [OF assms prems refl] by blast
  with IH show ?case
    by (simp only: length_Cons delete_range_loop.simps rd bindR_simps slot_ptr_Suc)
       (auto simp: r split: option.splits)
qed

lemma DeleteNodeRange_rep:
  assumes "ub_rep a b"
  shows "\<exists>b'. DeleteNodeRange n b = Inr (fst (a_delete_range n a), b') \<and> ub_rep (snd (a_delete_range n a)) b'"
  using delete_range_loop_rep [OF assms, of "[]" "a_ranges a" n] rep_sint [OF assms] assms
  by (auto simp: DeleteNodeRange_def a_delete_range_def split: option.splits)

text \<open>Iteration over the slots: the loop over free slots never runs its body.\<close>

lemma StartNodeRangeIteration_rep: "ub_rep a b \<Longrightarrow> ub_rep (a\<lparr>a_riter := 44\<rparr>) (StartNodeRangeIteration b)"
  by (auto simp: StartNodeRangeIteration_def ub_rep_def abuf_ok_def a_st_def a_step_def)

definition riter_at :: "nat \<Rightarrow> i32" where
  "riter_at i = of_nat (44 + 20 * i)"

lemma NextNodeRange_rep:
  assumes rep: "ub_rep a b" and it: "a_riter a = riter_at i" and i: "i \<le> length (a_ranges a)"
  shows "\<exists>b'. NextNodeRange b =
      Inr (if i < length (a_ranges a) \<and> \<not> fst (a_ranges a ! i) <s 0 then Some (a_ranges a ! i) else None, b') \<and>
    ub_rep (a\<lparr>a_riter := riter_at (if i < length (a_ranges a) \<and> \<not> fst (a_ranges a ! i) <s 0 then Suc i else i)\<rparr>) b'"
proof -
  let ?rs = "a_ranges a"
  have b1: "44 + 20 * i < 2147483648"
    using rep i abuf_ok_sizes(2) [of a] by (simp add: ub_rep_def a_st_def)
  then have s: "sint (ub_node_range_iter_offset b) = int (44 + 20 * i)"
    using rep it by (simp add: ub_rep_def riter_at_def del: of_nat_add of_nat_mult)
  have le: "ub_update_st_offset b <=s ub_node_range_iter_offset b \<longleftrightarrow> \<not> i < length ?rs"
    by (simp add: word_sle_eq s rep_sint [OF rep] a_st_def) (use i in linarith)
  have same: "ub_rep (a\<lparr>a_riter := riter_at i\<rparr>) b" using rep by (simp flip: it)
  show ?thesis
  proof (cases "i < length ?rs")
    case False
    with le same show ?thesis by (simp add: NextNodeRange_def)
  next
    case True
    obtain k st en where r: "?rs ! i = (k, st, en)" by (cases "?rs ! i")
    with True have split: "?rs = take i ?rs @ (k, st, en) # drop (Suc i) ?rs"
      by (metis id_take_nth_drop)
    have ptr: "int (44 + 20 * i) = 44 + 20 * int (length (take i ?rs))" using True by simp
    note rd = rep_read_range [OF rep split ptr]
    have "ub_rep (a\<lparr>a_riter := riter_at (Suc i)\<rparr>)
        (b\<lparr>ub_node_range_iter_offset := ub_node_range_iter_offset b + 20\<rparr>)"
      using rep it by (auto simp: ub_rep_def abuf_ok_def a_st_def a_step_def riter_at_def)
    with same show ?thesis
      using le True rd r
      by (auto simp: NextNodeRange_def s skip_free_slots.simps [of _ b] Let_def)
  qed
qed

section \<open>The buffer on the wire\<close>

lemma length_ub_header [simp]: "length (ub_header b) = 44"
  by (simp add: ub_header_def)

lemma rep_tail_length:
  assumes "ub_rep a b"
  shows "44 + length (ub_tail b) = a_st a + a_step a * a_cap a"
proof -
  from assms have "length (a_upds a) \<le> a_cap a" by (simp add: ub_rep_def abuf_ok_def)
  then have "a_step a * length (a_upds a) + a_step a * (a_cap a - length (a_upds a)) = a_step a * a_cap a"
    by (simp flip: add_mult_distrib2)
  with assms rep_upds_length [OF assms] show ?thesis by (auto simp: ub_rep_def a_st_def)
qed

lemma ub_image_rep:
  assumes "ub_rep a b"
  shows "ub_image b = Inr (ub_header b @ ub_tail b)"
proof -
  have "sint (ub_buff_size b) = int (44 + length (ub_tail b))"
    by (simp only: rep_tail_length [OF assms] rep_sint(8) [OF assms])
  then show ?thesis
    by (simp add: ub_image_def memcpy_src_def get_buff_size_def mem_read_def nat_add_distrib)
qed

lemma ub_field_header:
  "ub_field 0 (ub_header b @ t) = ub_buff_size b"
  "ub_field 1 (ub_header b @ t) = ub_update_size b"
  "ub_field 2 (ub_header b @ t) = ub_update_capacity b"
  "ub_field 3 (ub_header b @ t) = ub_node_range_capacity b"
  "ub_field 4 (ub_header b @ t) = ub_num_updates_occupied b"
  "ub_field 5 (ub_header b @ t) = ub_node_range_st_offset b"
  "ub_field 6 (ub_header b @ t) = ub_num_nodes b"
  "ub_field 7 (ub_header b @ t) = ub_update_st_offset b"
  "ub_field 8 (ub_header b @ t) = ub_update_end_offset b"
  "ub_field 9 (ub_header b @ t) = ub_update_iter_offset b"
  "ub_field 10 (ub_header b @ t) = ub_node_range_iter_offset b"
  by (simp_all add: ub_field_def ub_header_def)

lemma cast_header_tail: "cast_UpdateBuffer (ub_header b @ ub_tail b) = Inr b"
  by (simp add: cast_UpdateBuffer_def sizeof_UpdateBuffer_def ub_field_header
      ub_field_header(2) [unfolded One_nat_def])

section \<open>Loops over a buffer\<close>

text \<open>
  The loops of the clients: appending a sequence of updates under the \<open>CHECK\<close> that each
  append succeeds, and the \<open>while\<close> loop that asks an iterator for the next item until it
  has none. The second takes fuel; \<open>Diverges\<close> is the value of a run that does not end
  within it.
\<close>

fun append_all :: "(i64 \<Rightarrow> bytes \<Rightarrow> 'b \<Rightarrow> (int \<times> 'b) res) \<Rightarrow> (i64 \<times> bytes) list \<Rightarrow> 'b \<Rightarrow> 'b res" where
  "append_all app [] b = Inr b"
| "append_all app ((k, d) # us) b =
     bindR (app k d b) (\<lambda>(ret, b).
     bindR (checkR ''Append to update buffer failed'' (ret = 0)) (\<lambda>_.
     append_all app us b))"

fun drain :: "('b \<Rightarrow> ('x option \<times> 'b) res) \<Rightarrow> nat \<Rightarrow> ('x \<Rightarrow> 'b \<Rightarrow> 's \<Rightarrow> 's res) \<Rightarrow> 'b \<Rightarrow> 's \<Rightarrow> ('b \<times> 's) res" where
  "drain nxt 0 f b s = Inl Diverges"
| "drain nxt (Suc n) f b s =
     bindR (nxt b) (\<lambda>(item, b').
       case item of
         None \<Rightarrow> Inr (b', s)
       | Some x \<Rightarrow> bindR (f x b' s) (\<lambda>s'. drain nxt n f b' s'))"

fun foldR :: "('x \<Rightarrow> 's \<Rightarrow> 's res) \<Rightarrow> 'x list \<Rightarrow> 's \<Rightarrow> 's res" where
  "foldR g [] s = Inr s"
| "foldR g (x # xs) s = bindR (g x s) (foldR g xs)"

lemma foldR_append: "foldR g (xs @ ys) s = bindR (foldR g xs s) (foldR g ys)"
  by (induction xs arbitrary: s) (auto simp: bindR_assoc intro!: bindR_cong)

lemma foldR_cong: "(\<And>x s. x \<in> set xs \<Longrightarrow> g x s = h x s) \<Longrightarrow> foldR g xs s = foldR h xs s"
  by (induction xs arbitrary: s) (auto intro!: bindR_cong)

lemma foldR_total: "foldR (\<lambda>x s. Inr (h x s)) xs s = Inr (fold h xs s)"
  by (induction xs arbitrary: s) auto

text \<open>
  The contract the clients of a buffer rely on. \<open>rep a b\<close>: the object \<open>b\<close> holds the
  abstract buffer \<open>a\<close>.
\<close>

locale update_buffer =
  fixes rep :: "abuf \<Rightarrow> 'b \<Rightarrow> bool"
    and app :: "i64 \<Rightarrow> bytes \<Rightarrow> 'b \<Rightarrow> (int \<times> 'b) res"
    and start :: "'b \<Rightarrow> int \<times> 'b"
    and nxt :: "'b \<Rightarrow> ((i64 \<times> int) option \<times> 'b) res"
    and rstart :: "'b \<Rightarrow> 'b"
    and rnxt :: "'b \<Rightarrow> ((i32 \<times> i64 \<times> i64) option \<times> 'b) res"
  assumes rep_ok: "rep a b \<Longrightarrow> abuf_ok a"
    and app_law: "rep a b \<Longrightarrow> length (a_upds a) < a_cap a \<Longrightarrow> a_usize a \<le> length d \<Longrightarrow>
      \<exists>b'. app k d b = Inr (0, b') \<and> rep (a\<lparr>a_upds := a_upds a @ [(k, take (a_usize a) d)]\<rparr>) b'"
    and start_law: "rep a b \<Longrightarrow> rep (snd (a_start a)) (snd (start b))"
    and nxt_end: "rep a b \<Longrightarrow> a_uiter a = length (a_upds a) \<Longrightarrow> nxt b = Inr (None, b)"
    and nxt_step: "rep a b \<Longrightarrow> a_uiter a < length (a_upds a) \<Longrightarrow>
      \<exists>b'. nxt b = Inr (Some (fst (a_upds a ! a_uiter a), upd_ptr a (a_uiter a) + 8), b') \<and>
        rep (a\<lparr>a_uiter := Suc (a_uiter a)\<rparr>) b'"
    and rstart_law: "rep a b \<Longrightarrow> rep (a\<lparr>a_riter := riter_at 0\<rparr>) (rstart b)"
    and rnxt_law: "rep a b \<Longrightarrow> a_riter a = riter_at i \<Longrightarrow> i \<le> length (a_ranges a) \<Longrightarrow>
      \<exists>b'. rnxt b =
          Inr (if i < length (a_ranges a) \<and> \<not> fst (a_ranges a ! i) <s 0 then Some (a_ranges a ! i) else None, b') \<and>
        rep (a\<lparr>a_riter := riter_at (if i < length (a_ranges a) \<and> \<not> fst (a_ranges a ! i) <s 0 then Suc i else i)\<rparr>) b'"
begin

lemma append_all_rep:
  "rep a b \<Longrightarrow> length (a_upds a) + length us \<le> a_cap a \<Longrightarrow>
   (\<forall>u \<in> set us. length (snd u) = a_usize a) \<Longrightarrow>
     \<exists>b'. append_all app us b = Inr b' \<and> rep (a\<lparr>a_upds := a_upds a @ us\<rparr>) b'"
proof (induction us arbitrary: a b)
  case Nil
  then show ?case by simp
next
  case (Cons u us)
  obtain k d where u: "u = (k, d)" by (cases u)
  from Cons.prems u obtain b1 where
    1: "app k d b = Inr (0, b1)" and r: "rep (a\<lparr>a_upds := a_upds a @ [(k, d)]\<rparr>) b1"
    using app_law [of a b d k] by auto
  from Cons.IH [OF r] Cons.prems obtain b2 where
    "append_all app us b1 = Inr b2" "rep (a\<lparr>a_upds := (a_upds a @ [(k, d)]) @ us\<rparr>) b2"
    by auto
  with 1 u show ?case by auto
qed

text \<open>
  The update loop visits the updates from the iterator on, in order, once each: it is a
  fold of the body over them. Enough fuel is one more than their number.
\<close>

lemma drain_updates:
  assumes "rep a b" and "length (a_upds a) - a_uiter a < n"
    and body: "\<And>i j b' s. rep (a\<lparr>a_uiter := j\<rparr>) b' \<Longrightarrow> i < length (a_upds a) \<Longrightarrow>
      f (fst (a_upds a ! i), upd_ptr a i + 8) b' s = g (a_upds a ! i) s"
  shows "\<exists>b'. rep (a\<lparr>a_uiter := length (a_upds a)\<rparr>) b' \<and>
    drain nxt n f b s = bindR (foldR g (drop (a_uiter a) (a_upds a)) s) (\<lambda>s. Inr (b', s))"
  using assms
proof (induction n arbitrary: a b s)
  case 0
  then show ?case by simp
next
  case (Suc n)
  let ?i = "a_uiter a"
  show ?case
  proof (cases "?i < length (a_upds a)")
    case False
    with Suc.prems(1) have "?i = length (a_upds a)" using rep_ok by (fastforce simp: abuf_ok_def)
    with nxt_end [OF Suc.prems(1)] Suc.prems(1) show ?thesis
      by (metis (mono_tags, lifting) abuf.surjective abuf.update_convs(5) bindR_simps(2) case_prod_conv
          drain.simps(2) drop_all foldR.simps(1) option.simps(4) order_refl)
  next
    case True
    obtain b1 where nx: "nxt b = Inr (Some (fst (a_upds a ! ?i), upd_ptr a ?i + 8), b1)"
      and r1: "rep (a\<lparr>a_uiter := Suc ?i\<rparr>) b1"
      using nxt_step [OF Suc.prems(1) True] by blast
    have "\<exists>b'. rep (a\<lparr>a_uiter := length (a_upds a)\<rparr>) b' \<and>
        drain nxt n f b1 s' = bindR (foldR g (drop (Suc ?i) (a_upds a)) s') (\<lambda>s. Inr (b', s))" for s'
      using Suc.IH [OF r1, of s'] Suc.prems(2,3) True by (auto simp: upd_ptr_def a_st_def a_step_def)
    then have IH: "\<And>s'. \<exists>b'. rep (a\<lparr>a_uiter := length (a_upds a)\<rparr>) b' \<and>
        drain nxt n f b1 s' = bindR (foldR g (drop (Suc ?i) (a_upds a)) s') (\<lambda>s. Inr (b', s))" .
    have d: "drop ?i (a_upds a) = a_upds a ! ?i # drop (Suc ?i) (a_upds a)"
      using True by (simp add: Cons_nth_drop_Suc)
    have fb: "f (fst (a_upds a ! ?i), upd_ptr a ?i + 8) b1 s = g (a_upds a ! ?i) s"
      using r1 True by (rule Suc.prems(3))
    show ?thesis
    proof (cases "g (a_upds a ! ?i) s")
      case (Inl e)
      with IH [of s] show ?thesis by (auto simp: nx fb d)
    next
      case (Inr s')
      with IH [of s'] show ?thesis by (auto simp: nx fb d)
    qed
  qed
qed

text \<open>The range loop visits the slots up to the first free one.\<close>

lemma drain_ranges:
  assumes "rep a b" and "a_riter a = riter_at i" and "i \<le> length (a_ranges a)"
    and "length (a_ranges a) - i < n"
  shows "\<exists>b' j. rep (a\<lparr>a_riter := riter_at j\<rparr>) b' \<and>
    drain rnxt n (\<lambda>x b s. g x s) b s =
      bindR (foldR g (takeWhile (\<lambda>r. \<not> fst r <s 0) (drop i (a_ranges a))) s) (\<lambda>s. Inr (b', s))"
  using assms
proof (induction n arbitrary: a b i s)
  case 0
  then show ?case by simp
next
  case (Suc n)
  let ?rs = "a_ranges a"
  let ?P = "\<lambda>r :: i32 \<times> i64 \<times> i64. \<not> fst r <s 0"
  show ?case
  proof (cases "i < length ?rs \<and> ?P (?rs ! i)")
    case False
    have "takeWhile ?P (drop i ?rs) = []"
      using False by (cases "i < length ?rs") (auto simp flip: Cons_nth_drop_Suc)
    with rnxt_law [OF Suc.prems(1-3)] False show ?thesis by auto
  next
    case True
    then obtain b1 where nx: "rnxt b = Inr (Some (?rs ! i), b1)"
      and r1: "rep (a\<lparr>a_riter := riter_at (Suc i)\<rparr>) b1"
      using rnxt_law [OF Suc.prems(1-3)] by auto
    have IH: "\<exists>b' j. rep (a\<lparr>a_riter := riter_at j\<rparr>) b' \<and> drain rnxt n (\<lambda>x b s. g x s) b1 s' =
        bindR (foldR g (takeWhile ?P (drop (Suc i) ?rs)) s') (\<lambda>s. Inr (b', s))" for s'
      using Suc.IH [OF r1, of "Suc i" s'] Suc.prems(4) True by auto
    have d: "takeWhile ?P (drop i ?rs) = ?rs ! i # takeWhile ?P (drop (Suc i) ?rs)"
      using True by (simp flip: Cons_nth_drop_Suc)
    show ?thesis
    proof (cases "g (?rs ! i) s")
      case (Inl e)
      with IH [of s] show ?thesis by (auto simp: nx d)
    next
      case (Inr s')
      with IH [of s'] show ?thesis by (auto simp: nx d)
    qed
  qed
qed

end

interpretation ub: update_buffer ub_rep AppendUpdate StartIteration NextUpdate
  StartNodeRangeIteration NextNodeRange
proof (unfold_locales, goal_cases)
  case 1
  then show ?case by (simp add: ub_rep_def)
next
  case 2
  then show ?case by (rule AppendUpdate_room)
next
  case 3
  then show ?case using StartIteration_rep by blast
next
  case 4
  then show ?case by (rule NextUpdate_end)
next
  case 5
  then show ?case by (rule NextUpdate_step)
next
  case 6
  then show ?case using StartNodeRangeIteration_rep by (simp add: riter_at_def)
next
  case 7
  then show ?case by (rule NextNodeRange_rep)
qed

section \<open>Reading a whole buffer\<close>

text \<open>
  The fuel of every loop over a buffer: one more than the bytes behind the header, and an
  update takes at least eight of them, a range twenty.
\<close>

definition ub_fuel :: "UpdateBuffer \<Rightarrow> nat" where
  "ub_fuel b = Suc (length (ub_tail b))"

lemma ub_fuel_updates: "ub_rep a b \<Longrightarrow> length (a_upds a) < ub_fuel b"
proof -
  assume rep: "ub_rep a b"
  then have "length (concat (map enc_upd (a_upds a))) \<le> length (ub_tail b)" by (auto simp: ub_rep_def)
  then have "length (a_upds a) * (8 + a_usize a) \<le> length (ub_tail b)"
    using rep_upds_length [OF rep] by (simp add: a_step_def mult.commute)
  moreover have "length (a_upds a) * 1 \<le> length (a_upds a) * (8 + a_usize a)" by (rule mult_le_mono2) simp
  ultimately show ?thesis unfolding ub_fuel_def by linarith
qed

lemma ub_fuel_ranges: "ub_rep a b \<Longrightarrow> length (a_ranges a) < ub_fuel b"
proof -
  assume "ub_rep a b"
  then have "length (concat (map enc_range (a_ranges a))) \<le> length (ub_tail b)" by (auto simp: ub_rep_def)
  then show ?thesis by (simp add: ub_fuel_def)
qed

lemma rep_usize_bound: "ub_rep a b \<Longrightarrow> a_upds a \<noteq> [] \<Longrightarrow> sint (ub_update_size b) = int (a_usize a)"
proof -
  assume rep: "ub_rep a b" and ne: "a_upds a \<noteq> []"
  then have "1 \<le> a_cap a" by (cases "a_upds a") (auto simp: ub_rep_def abuf_ok_def)
  with rep abuf_ok_bound [of a 1] have "a_usize a < 2147483648" by (auto simp: ub_rep_def a_step_def)
  with rep show ?thesis by (simp add: ub_rep_def)
qed

lemma rep_read_nth:
  "ub_rep a b \<Longrightarrow> i < length (a_upds a) \<Longrightarrow> ub_read (upd_ptr a i + 8) (a_usize a) b = Inr (snd (a_upds a ! i))"
  by (rule rep_read_upd(2) [where pre = "take i (a_upds a)" and k = "fst (a_upds a ! i)"
        and suf = "drop (Suc i) (a_upds a)"]) (auto simp: id_take_nth_drop)

text \<open>A loop over a buffer whose body reads the delta of each update is a fold over the updates.\<close>

lemma drain_read:
  assumes "ub_rep a b"
    and "\<And>k ptr b' d s. ub_rep a b' \<or> (\<exists>j. ub_rep (a\<lparr>a_uiter := j\<rparr>) b') \<Longrightarrow> (k, d) \<in> set (a_upds a) \<Longrightarrow>
      ub_read ptr (a_usize a) b' = Inr d \<Longrightarrow> f (k, ptr) b' s = g (k, d) s"
  shows "\<exists>b'. ub_rep (a\<lparr>a_uiter := length (a_upds a)\<rparr>) b' \<and>
    drain NextUpdate (ub_fuel b) f (snd (StartIteration b)) s =
      bindR (foldR g (a_upds a) s) (\<lambda>s. Inr (b', s))"
proof -
  let ?a = "snd (a_start a)"
  have rep': "ub_rep ?a (snd (StartIteration b))" using assms(1) by (rule ub.start_law)
  have eq: "?a = a\<lparr>a_uiter := 0\<rparr>"
    using assms(1) by (auto simp: a_start_def ub_rep_def abuf_ok_def)
  have body: "f (fst (a_upds ?a ! i), upd_ptr ?a i + 8) b' s = g (a_upds ?a ! i) s"
    if "ub_rep (?a\<lparr>a_uiter := j\<rparr>) b'" and "i < length (a_upds ?a)" for i j b' s
  proof -
    have r: "ub_rep (a\<lparr>a_uiter := j\<rparr>) b'" using that(1) by (simp add: eq)
    have "ub_read (upd_ptr ?a i + 8) (a_usize a) b' = Inr (snd (a_upds a ! i))"
      using rep_read_nth [OF r, of i] that(2) by (simp add: eq upd_ptr_def a_st_def a_step_def)
    moreover have "(fst (a_upds a ! i), snd (a_upds a ! i)) \<in> set (a_upds a)" using that(2) by (simp add: eq)
    ultimately have "f (fst (a_upds a ! i), upd_ptr ?a i + 8) b' s = g (fst (a_upds a ! i), snd (a_upds a ! i)) s"
      using assms(2) r by blast
    then show ?thesis by (simp add: eq)
  qed
  have "length (a_upds ?a) - a_uiter ?a < ub_fuel b"
    using ub_fuel_updates [OF assms(1)] by (simp add: eq)
  from ub.drain_updates [where f = f and g = g and s = s, OF rep' this body]
  show ?thesis by (simp add: eq)
qed

definition buffer_updates :: "UpdateBuffer \<Rightarrow> (i64 \<times> bytes) list res" where
  "buffer_updates b =
     bindR (drain NextUpdate (ub_fuel b)
             (\<lambda>(k, ptr) b acc.
                bindR (ub_read ptr (nat (sint (ub_update_size b))) b) (\<lambda>d. Inr (acc @ [(k, d)])))
             (snd (StartIteration b)) []) (\<lambda>(b, us). Inr us)"

definition buffer_ranges :: "UpdateBuffer \<Rightarrow> (i32 \<times> i64 \<times> i64) list res" where
  "buffer_ranges b =
     bindR (drain NextNodeRange (ub_fuel b) (\<lambda>r b acc. Inr (acc @ [r])) (StartNodeRangeIteration b) [])
       (\<lambda>(b, rs). Inr rs)"

lemma fold_snoc: "fold (\<lambda>x acc. acc @ [x]) xs ys = ys @ xs"
  by (induction xs arbitrary: ys) auto

lemma buffer_updates_rep:
  assumes "ub_rep a b"
  shows "buffer_updates b = Inr (a_upds a)"
proof -
  have "\<exists>b'. ub_rep (a\<lparr>a_uiter := length (a_upds a)\<rparr>) b' \<and>
    drain NextUpdate (ub_fuel b)
             (\<lambda>(k, ptr) b acc.
                bindR (ub_read ptr (nat (sint (ub_update_size b))) b) (\<lambda>d. Inr (acc @ [(k, d)])))
             (snd (StartIteration b)) [] =
      bindR (foldR (\<lambda>x acc. Inr (acc @ [x])) (a_upds a) []) (\<lambda>s. Inr (b', s))"
  proof (rule drain_read [OF assms])
    fix k ptr b' d and s :: "(i64 \<times> bytes) list"
    assume "ub_rep a b' \<or> (\<exists>j. ub_rep (a\<lparr>a_uiter := j\<rparr>) b')" and m: "(k, d) \<in> set (a_upds a)"
      and rd: "ub_read ptr (a_usize a) b' = Inr d"
    then obtain a' where "ub_rep a' b'" "a_upds a' = a_upds a" "a_usize a' = a_usize a" by auto
    with m have "sint (ub_update_size b') = int (a_usize a)" by (metis rep_usize_bound empty_iff list.set(1))
    with rd show "(case (k, ptr) of (k, ptr) \<Rightarrow> \<lambda>b acc.
        bindR (ub_read ptr (nat (sint (ub_update_size b))) b) (\<lambda>d. Inr (acc @ [(k, d)]))) b' s =
      Inr (s @ [(k, d)])" by simp
  qed
  then show ?thesis by (auto simp: buffer_updates_def foldR_total fold_snoc)
qed

lemma buffer_ranges_rep:
  assumes "ub_rep a b"
  shows "buffer_ranges b = Inr (takeWhile (\<lambda>r. \<not> fst r <s 0) (a_ranges a))"
proof -
  have r: "ub_rep (a\<lparr>a_riter := riter_at 0\<rparr>) (StartNodeRangeIteration b)"
    using assms by (rule ub.rstart_law)
  have "length (a_ranges a) - 0 < ub_fuel b" using ub_fuel_ranges [OF assms] by simp
  with ub.drain_ranges [OF r, of 0 "ub_fuel b" "\<lambda>x acc. Inr (acc @ [x])" "[]"] show ?thesis
    by (auto simp: buffer_ranges_def foldR_total fold_snoc)
qed

end
