(* ===== verification/Buffer_Props.thy ===== *)
theory Buffer_Props
  imports Buffer_Spec
begin

text \<open>
  The properties of the update buffer of \<open>src/quiltdb/utils/memstruct.cpp\<close>: what is put in
  comes out, also after the bytes have travelled, lookup agrees with the sequence of
  updates, and the node ranges behave as a small map, whose iteration ends at the first
  free slot.
\<close>

section \<open>A buffer for the concrete instances\<close>

text \<open>Two range slots, room for two updates of four bytes.\<close>

lemma sample_rep: "\<exists>b r. CreateUpdateBuffer (\<lambda>_. 7) 4 2 2 = Inr b \<and> ub_rep (empty_abuf 4 2 2 r) b"
  using CreateUpdateBuffer_rep [of 2 4 2 "\<lambda>_. 7"] by simp

lemma replicate_two: "replicate 2 x = [x, x]"
  by (simp add: numeral_2_eq_2)

lemma sample_ranges_of:
  assumes "length d = 4"
  shows "\<exists>a b. ub_rep a b \<and> a_usize a = 4 \<and> a_ranges a = [(3, s, e), (8, 2, 6)] \<and> a_upds a = [(10, d)] \<and> a_cap a = 2"
proof -
  obtain b r where r: "ub_rep (empty_abuf 4 2 2 r) b" using sample_rep by blast
  obtain b1 where 1: "ub_rep (empty_abuf 4 2 2 r\<lparr>a_upds := [(10, d)]\<rparr>) b1"
    using AppendUpdate_room [OF r, of d 10] assms by (auto simp: empty_abuf_def)
  obtain b2 where 2: "ub_rep (snd (a_update_range 3 s e (empty_abuf 4 2 2 r\<lparr>a_upds := [(10, d)]\<rparr>))) b2"
    using UpdateNodeRange_rep [OF 1] by blast
  obtain b3 where "ub_rep (snd (a_update_range 8 2 6 (snd (a_update_range 3 s e
      (empty_abuf 4 2 2 r\<lparr>a_upds := [(10, d)]\<rparr>))))) b3"
    using UpdateNodeRange_rep [OF 2] by blast
  then show ?thesis
    by (intro exI conjI) (auto simp: a_update_range_def empty_abuf_def replicate_two)
qed

lemma sample_ranges:
  "\<exists>a b. ub_rep a b \<and> a_usize a = 4 \<and> a_ranges a = [(3, 0, 5), (8, 2, 6)] \<and> a_upds a = [(10, [1, 0, 0, 0])] \<and> a_cap a = 2"
  by (rule sample_ranges_of) simp

section \<open>Updates\<close>

text \<open>
  C3: a buffer made for exactly the given updates takes all of them, and the iteration
  over it gives them back in order; no step leaves the block. The bound says that the
  size computed in \<open>GetBuffSize\<close> does not overflow.
\<close>

theorem create_append_read:
  assumes "44 + 20 * nr + (8 + n) * length us < 2147483648"
    and "\<forall>u \<in> set us. length (snd u) = n"
  shows "\<exists>b b'. CreateUpdateBuffer junk (of_nat n) (of_nat (length us)) (of_nat nr) = Inr b \<and>
    append_all AppendUpdate us b = Inr b' \<and> buffer_updates b' = Inr us \<and> buffer_ranges b' = Inr []"
proof -
  obtain b r where c: "CreateUpdateBuffer junk (of_nat n) (of_nat (length us)) (of_nat nr) = Inr b"
    and rep: "ub_rep (empty_abuf n (length us) nr r) b"
    using CreateUpdateBuffer_rep [OF assms(1)] by blast
  obtain b' where "append_all AppendUpdate us b = Inr b'"
    and "ub_rep (empty_abuf n (length us) nr r\<lparr>a_upds := us\<rparr>) b'"
    using ub.append_all_rep [OF rep, of us] assms(2) by (auto simp: empty_abuf_def)
  with c buffer_updates_rep buffer_ranges_rep show ?thesis
    by (cases nr) (fastforce simp: empty_abuf_def)+
qed

theorem create_append_read_witness:
  "\<exists>b b'. CreateUpdateBuffer (\<lambda>_. 7) 4 2 3 = Inr b \<and>
     append_all AppendUpdate [(10, [1, 0, 0, 0]), (20, [2, 0, 0, 0])] b = Inr b' \<and>
     buffer_updates b' = Inr [(10, [1, 0, 0, 0]), (20, [2, 0, 0, 0])] \<and> buffer_ranges b' = Inr []"
  using create_append_read [of 3 4 "[(10, [1, 0, 0, 0]), (20, [2, 0, 0, 0])]" "\<lambda>_. 7"] by simp

text \<open>
  C24: \<open>AppendUpdate\<close> refines appending to a bounded sequence: on a full buffer it returns
  -1 and changes nothing, else it returns 0 and the update is the last of the sequence.
\<close>

theorem append_update_refines:
  assumes "ub_rep a b" and "a_usize a \<le> length d"
  shows "\<exists>b'. AppendUpdate k d b = Inr (fst (a_append k d a), b') \<and> ub_rep (snd (a_append k d a)) b'"
  using assms by (rule AppendUpdate_rep)

theorem append_update_refines_witness:
  "\<exists>a b b'. ub_rep a b \<and> AppendUpdate 20 [2, 0, 0, 0] b = Inr (0, b') \<and>
     buffer_updates b' = Inr [(10, [1, 0, 0, 0]), (20, [2, 0, 0, 0])]"
proof -
  obtain a b where ab: "ub_rep a b" "a_usize a = 4" "a_cap a = 2" "a_upds a = [(10, [1, 0, 0, 0])]"
    using sample_ranges by blast
  with append_update_refines [of a b "[2, 0, 0, 0]" 20] buffer_updates_rep show ?thesis
    by (fastforce simp: a_append_def)
qed

text \<open>
  C25: the bytes sent for a buffer, cast back to a buffer on the receiving side, are the
  same buffer; their number is the recorded size.
\<close>

theorem buffer_wire_roundtrip:
  assumes "ub_rep a b"
  shows "\<exists>data. ub_image b = Inr data \<and> int (length data) = sint (get_buff_size b) \<and>
    cast_UpdateBuffer data = Inr b"
  using ub_image_rep [OF assms] cast_header_tail [of b] rep_tail_length [OF assms] rep_sint(8) [OF assms]
  by (simp add: get_buff_size_def)

theorem buffer_wire_roundtrip_witness:
  "\<exists>b data. CreateUpdateBuffer (\<lambda>_. 7) 4 2 2 = Inr b \<and> ub_image b = Inr data \<and>
     length data = 108 \<and> cast_UpdateBuffer data = Inr b"
proof -
  obtain b r where c: "CreateUpdateBuffer (\<lambda>_. 7) 4 2 2 = Inr b" and rep: "ub_rep (empty_abuf 4 2 2 r) b"
    using sample_rep by blast
  obtain data where "ub_image b = Inr data" "int (length data) = sint (get_buff_size b)"
    "cast_UpdateBuffer data = Inr b"
    using buffer_wire_roundtrip [OF rep] by blast
  with c rep show ?thesis
    by (auto simp: get_buff_size_def rep_sint(8) empty_abuf_def a_st_def a_step_def)
qed

text \<open>
  C27: \<open>GetUpdate\<close> finds the delta of the first update of the key, and nothing exactly when
  there is none.
\<close>

theorem get_update_is_lookup:
  assumes "ub_rep a b"
  shows "bindR (GetUpdate key b) (\<lambda>p. case p of
           None \<Rightarrow> Inr None
         | Some ptr \<Rightarrow> bindR (ub_read ptr (a_usize a) b) (\<lambda>d. Inr (Some d))) =
         Inr (map_of (a_upds a) key)"
proof (cases "key_index key (a_upds a)")
  case None
  then show ?thesis by (simp add: GetUpdate_rep [OF assms] map_of_key_index)
next
  case (Some i)
  with rep_read_nth [OF assms] key_index_Some [OF Some] show ?thesis
    by (simp add: GetUpdate_rep [OF assms] map_of_key_index)
qed

theorem get_update_is_lookup_witness:
  "\<exists>a b. ub_rep a b \<and>
     bindR (GetUpdate 10 b) (\<lambda>p. case p of
           None \<Rightarrow> Inr None
         | Some ptr \<Rightarrow> bindR (ub_read ptr (a_usize a) b) (\<lambda>d. Inr (Some d))) =
     Inr (Some [1, 0, 0, 0])"
proof -
  obtain a b where "ub_rep a b" "a_upds a = [(10, [1, 0, 0, 0])]"
    using sample_ranges by blast
  with get_update_is_lookup [of a b 10] show ?thesis by fastforce
qed

section \<open>Node ranges\<close>

text \<open>
  C28: \<open>UpdateNodeRange\<close> succeeds exactly when the node has a slot or a slot is free; then
  \<open>GetNodeRange\<close> returns the new range for this node and what it did for every other
  node, and the updates are untouched. Otherwise the block stays as it is.
\<close>

theorem update_get_node_range:
  assumes "ub_rep a b" and "n \<noteq> -1"
  shows "\<exists>ret b'. UpdateNodeRange n s e b = Inr (ret, b') \<and>
    (ret = 0 \<longleftrightarrow> n \<in> fst ` set (a_ranges a) \<or> -1 \<in> fst ` set (a_ranges a)) \<and>
    (ret = 0 \<longrightarrow> GetNodeRange n b' = Inr (Some (s, e))) \<and>
    (\<forall>m. m \<noteq> n \<longrightarrow> m \<noteq> -1 \<longrightarrow> GetNodeRange m b' = GetNodeRange m b) \<and>
    buffer_updates b' = buffer_updates b"
proof -
  obtain b' where u: "UpdateNodeRange n s e b = Inr (fst (a_update_range n s e a), b')"
    and rep: "ub_rep (snd (a_update_range n s e a)) b'"
    using UpdateNodeRange_rep [OF assms(1)] by blast
  have same: "a_upds (snd (a_update_range n s e a)) = a_upds a" by (simp add: a_update_range_def)
  show ?thesis
    unfolding u GetNodeRange_rep [OF assms(1)]
    by (rule exI [of _ "fst (a_update_range n s e a)"], rule exI [of _ b'])
       (use assms(2) in \<open>auto simp: GetNodeRange_rep [OF rep] buffer_updates_rep [OF rep]
          buffer_updates_rep [OF assms(1)] same a_update_range_def map_of_replace_first
          map_of_replace_first_other\<close>)
qed

theorem update_get_node_range_witness:
  "\<exists>b b'. UpdateNodeRange 3 4 9 b = Inr (0, b') \<and>
     GetNodeRange 3 b' = Inr (Some (4, 9)) \<and> GetNodeRange 8 b' = Inr (Some (2, 6))"
proof -
  obtain a b where ab: "ub_rep a b" "a_ranges a = [(3, 0, 5), (8, 2, 6)]"
    using sample_ranges by blast
  obtain ret b' where "UpdateNodeRange 3 4 9 b = Inr (ret, b')"
    "ret = 0 \<longleftrightarrow> 3 \<in> fst ` set (a_ranges a) \<or> -1 \<in> fst ` set (a_ranges a)"
    "ret = 0 \<longrightarrow> GetNodeRange 3 b' = Inr (Some (4, 9))"
    "\<forall>m. m \<noteq> 3 \<longrightarrow> m \<noteq> -1 \<longrightarrow> GetNodeRange m b' = GetNodeRange m b"
    using update_get_node_range [OF ab(1), of 3 4 9] by auto
  with ab show ?thesis by (intro exI [of _ b] exI [of _ b']) (simp add: GetNodeRange_rep)
qed

lemma delete_slot_mid:
  "\<forall>r \<in> set pre. \<not> fst r <s 0 \<and> fst r \<noteq> n \<Longrightarrow> \<not> n <s 0 \<Longrightarrow>
     delete_slot n (pre @ (n, s, e) # suf) = Some (pre @ (-1, s, e) # suf)"
  by (induction pre) auto

lemma takeWhile_used:
  "\<forall>r \<in> set pre. \<not> fst r <s 0 \<Longrightarrow>
     takeWhile (\<lambda>r. \<not> fst r <s (0 :: i32)) (pre @ (-1, x) # suf) = pre"
  by (induction pre) auto

text \<open>
  Deleting the range of a node frees its slot. The iteration afterwards returns only
  the ranges in front of the freed slot, although \<open>GetNodeRange\<close> still finds those behind
  it: the loop of \<open>NextNodeRange\<close> that should step over free slots runs only behind the
  last slot, so the iteration ends at the first free slot.
\<close>

theorem delete_hides_later_ranges:
  assumes "ub_rep a b" and "a_ranges a = pre @ (n, s, e) # suf"
    and "\<forall>r \<in> set pre. \<not> fst r <s 0 \<and> fst r \<noteq> n" and "\<not> n <s 0"
  shows "\<exists>b'. DeleteNodeRange n b = Inr (0, b') \<and> buffer_ranges b' = Inr pre \<and>
    (\<forall>m. m \<noteq> n \<longrightarrow> m \<noteq> -1 \<longrightarrow> GetNodeRange m b' = GetNodeRange m b)"
proof -
  obtain b' where "DeleteNodeRange n b = Inr (fst (a_delete_range n a), b')"
    and "ub_rep (snd (a_delete_range n a)) b'"
    using DeleteNodeRange_rep [OF assms(1)] by blast
  moreover have "a_delete_range n a = (0, a\<lparr>a_ranges := pre @ (-1, s, e) # suf\<rparr>)"
    using delete_slot_mid [OF assms(3,4), of s e suf] assms(2) by (simp add: a_delete_range_def)
  ultimately have d: "DeleteNodeRange n b = Inr (0, b')"
    and rep: "ub_rep (a\<lparr>a_ranges := pre @ (-1, s, e) # suf\<rparr>) b'" by simp_all
  have "buffer_ranges b' = Inr pre"
    using assms(3) by (simp add: buffer_ranges_rep [OF rep] takeWhile_used)
  with d show ?thesis
    using assms(2) by (auto simp: GetNodeRange_rep [OF rep] GetNodeRange_rep [OF assms(1)] map_add_def split: option.split)
qed

theorem delete_hides_later_ranges_witness:
  "\<exists>b b'. buffer_ranges b = Inr [(3, 0, 5), (8, 2, 6)] \<and> DeleteNodeRange 3 b = Inr (0, b') \<and>
     buffer_ranges b' = Inr [] \<and> GetNodeRange 8 b' = Inr (Some (2, 6))"
proof -
  obtain a b where ab: "ub_rep a b" "a_ranges a = [] @ (3, 0, 5) # [(8, 2, 6)]"
    using sample_ranges by auto
  obtain b' where "DeleteNodeRange 3 b = Inr (0, b')" "buffer_ranges b' = Inr []"
    "\<forall>m. m \<noteq> 3 \<longrightarrow> m \<noteq> -1 \<longrightarrow> GetNodeRange m b' = GetNodeRange m b"
    using delete_hides_later_ranges [OF ab] by (auto simp: word_sless_alt)
  with ab show ?thesis
    by (intro exI [of _ b] exI [of _ b']) (simp add: GetNodeRange_rep buffer_ranges_rep word_sless_alt)
qed

end
