(* ===== verification/Protocol.thy ===== *)
theory Protocol
  imports Buffer_Spec
begin

text \<open>
  \<open>src/quiltdb/comm/protocol.hpp\<close> and \<open>src/quiltdb/include/common.hpp\<close>: the messages of the
  threads and the data shared among the components. A multi-part message is one value;
  its first part is the message type, and the constructors carry the structures of the
  source.
\<close>

section \<open>Shared structures\<close>

record NodeInfo =
  ni_node_id :: i32
  ni_recv_pull_ip :: string
  ni_recv_pull_port :: string
  ni_recv_push_ip :: string
  ni_recv_push_port :: string

datatype UpdateType = EInc

section \<open>Messages to the propagator, between threads\<close>

datatype PropagatorMsgType =
    EPUpdateLog | EPUpdateBuffer | EPInternalTerminate
  | EPRecvInternalTerminateACK | EPRInit | EMyUpdatesACK

record PUpdateLogMsg =
  ul_table_id :: i32
  ul_key :: i64
  ul_update_type :: UpdateType

record PUpdateBufferMsg =
  pub_table_id :: i32
  pub_update_buffer_ptr :: UpdateBuffer

text \<open>A message on \<open>update_pull_sock\<close>: a bare type is a message that is nothing but its type.\<close>

datatype propagator_msg =
    MUpdateLog PUpdateLogMsg bytes
  | MUpdateBuffer PUpdateBufferMsg
  | MPlain PropagatorMsgType

fun propagator_msg_type :: "propagator_msg \<Rightarrow> PropagatorMsgType" where
  "propagator_msg_type (MUpdateLog m d) = EPUpdateLog"
| "propagator_msg_type (MUpdateBuffer m) = EPUpdateBuffer"
| "propagator_msg_type (MPlain t) = t"

section \<open>Messages between propagators and receivers, over TCP\<close>

datatype PropRecvMsgType =
    PropInit | PropInitACK | PropInitACKACK | PropStart
  | EPRUpdateBuffer | EPRTerminate | EPRTerminateACK

text \<open>
  What a propagator pushes to its downstream receiver. An update buffer travels as the
  table id and the bytes of the block.
\<close>

datatype receiver_wire_msg =
    WInit i32
  | WInitAckAck i32
  | WUpdateBuffer i32 bytes
  | WTerminateAck i32
  | WPlain PropRecvMsgType

section \<open>Messages to the receiver, between threads\<close>

datatype ReceiverMsgType = ERInternalTerminate | EPRInternalTerminate | EMyUpdates

record MyUpdatesMsg =
  mu_table_id :: i32
  mu_update_buffer_ptr :: UpdateBuffer

datatype receiver_msg =
    MMyUpdates MyUpdatesMsg
  | RPlain ReceiverMsgType

section \<open>Timer messages\<close>

datatype TimerMsgType = ETimerTrigger | ETimerCmd

record TimerCmdMsg =
  tc_msgtype :: TimerMsgType
  tc_nanosec :: i32

section \<open>Sizes of the structures\<close>

definition sizeof_enum :: nat where "sizeof_enum = 4"
definition sizeof_PUpdateLogMsg :: nat where "sizeof_PUpdateLogMsg = 24"
definition sizeof_PUpdateBufferMsg :: nat where "sizeof_PUpdateBufferMsg = 16"
definition sizeof_PropInitMsg :: nat where "sizeof_PropInitMsg = 8"
definition sizeof_PropInitAckAckMsg :: nat where "sizeof_PropInitAckAckMsg = 8"
definition sizeof_EPRUpdateBufferMsg :: nat where "sizeof_EPRUpdateBufferMsg = 8"
definition sizeof_PRTerminateAckMsg :: nat where "sizeof_PRTerminateAckMsg = 8"
definition sizeof_MyUpdatesMsg :: nat where "sizeof_MyUpdatesMsg = 16"
definition sizeof_TimerCmdMsg :: nat where "sizeof_TimerCmdMsg = 8"

end
