(* ===== verification/Zmq_Util.thy ===== *)
theory Zmq_Util
  imports QDB_Prelude
begin

text \<open>
  \<open>src/quiltdb/utils/zmq_util.cpp\<close> and \<open>src/quiltdb/comm/comm_util.cpp\<close>: the wrappers that
  turn what the 0MQ library does on a socket into the return codes the threads test. The
  library itself is a parameter: an incoming socket is the sequence of outcomes its \<open>recv\<close>
  calls have, and \<open>zmq_lib\<close> says which of the other calls succeed.
\<close>

unbundle bit_operations_syntax

section \<open>The library\<close>

datatype sock_type = ZMQ_PUSH | ZMQ_PULL | ZMQ_PUB | ZMQ_SUB

text \<open>
  Whether making a socket of a type, binding it and connecting it to an endpoint go
  without an exception; and what \<open>send\<close> does on a frame of \<open>n\<close> bytes: \<open>None\<close> if it throws, else
  the number it returns.
\<close>

record zmq_lib =
  zl_socket :: "sock_type \<Rightarrow> bool"
  zl_bind :: "string \<Rightarrow> bool"
  zl_connect :: "string \<Rightarrow> bool"
  zl_send :: "nat \<Rightarrow> int option"

section \<open>Client and router ids\<close>

definition CidToZmqRid :: "i32 \<Rightarrow> i32" where
  "CidToZmqRid cid = push_bit 4 cid OR 1"

definition ZmqRidToCid :: "i32 \<Rightarrow> i32" where
  "ZmqRidToCid zid = signed_drop_bit 4 zid"

section \<open>Receiving\<close>

text \<open>
  One call of \<open>recv\<close>: it throws, it returns false (nothing there, \<open>EAGAIN\<close>), or it fills
  in a frame, whose second component says whether more frames of the message follow. A
  blocking call on a socket with no outcome left does not return; a call with
  \<open>ZMQ_DONTWAIT\<close> returns false.
\<close>

datatype recv_outcome = RThrow | RAgain | RFrame bytes bool

type_synonym in_sock = "recv_outcome list"

text \<open>Return code, \<open>data\<close> and \<open>more\<close> where the call sets them, the rest of the socket.\<close>

type_synonym recv_result = "int \<times> bytes option \<times> bool option \<times> in_sock"

text \<open>\<open>alloc n\<close> says whether \<open>new uint8_t[n]\<close> succeeds.\<close>

definition take_frame :: "(nat \<Rightarrow> bool) \<Rightarrow> bool \<Rightarrow> bytes \<Rightarrow> bool \<Rightarrow> in_sock \<Rightarrow> recv_result" where
  "take_frame alloc want_more bs m sock =
     (if \<not> alloc (length bs) then (-1, None, None, sock)
      else (sint (of_nat (length bs) :: i32), Some bs, if want_more then Some m else None, sock))"

fun RecvMsg :: "(nat \<Rightarrow> bool) \<Rightarrow> bool \<Rightarrow> in_sock \<Rightarrow> recv_result res" where
  "RecvMsg alloc want_more [] = Inl Blocked"
| "RecvMsg alloc want_more (RThrow # sock) = Inr (-1, None, None, sock)"
| "RecvMsg alloc want_more (RAgain # sock) = Inr (0, None, None, sock)"
| "RecvMsg alloc want_more (RFrame bs m # sock) = Inr (take_frame alloc want_more bs m sock)"

text \<open>The variant that reads a client id from a first frame of four bytes.\<close>

fun RecvMsg_cid :: "(nat \<Rightarrow> bool) \<Rightarrow> bool \<Rightarrow> in_sock \<Rightarrow> (i32 option \<times> recv_result) res" where
  "RecvMsg_cid alloc want_more [] = Inl Blocked"
| "RecvMsg_cid alloc want_more (RThrow # sock) = Inr (None, -1, None, None, sock)"
| "RecvMsg_cid alloc want_more (RAgain # sock) = Inr (None, -1, None, None, sock)"
| "RecvMsg_cid alloc want_more (RFrame bs m # sock) =
     (if length bs \<noteq> 4 then Inr (None, -1, None, None, sock)
      else bindR (RecvMsg alloc want_more sock) (\<lambda>r. Inr (Some (le_word bs), r)))"

fun RecvMsgAsync :: "(nat \<Rightarrow> bool) \<Rightarrow> bool \<Rightarrow> in_sock \<Rightarrow> recv_result" where
  "RecvMsgAsync alloc want_more [] = (0, None, None, [])"
| "RecvMsgAsync alloc want_more (RThrow # sock) = (-1, None, None, sock)"
| "RecvMsgAsync alloc want_more (RAgain # sock) = (0, None, None, sock)"
| "RecvMsgAsync alloc want_more (RFrame bs m # sock) = take_frame alloc want_more bs m sock"

fun RecvMsgAsync_cid :: "(nat \<Rightarrow> bool) \<Rightarrow> bool \<Rightarrow> in_sock \<Rightarrow> (i32 option \<times> recv_result) res" where
  "RecvMsgAsync_cid alloc want_more [] = Inr (None, 0, None, None, [])"
| "RecvMsgAsync_cid alloc want_more (RThrow # sock) = Inr (None, -1, None, None, sock)"
| "RecvMsgAsync_cid alloc want_more (RAgain # sock) = Inr (None, 0, None, None, sock)"
| "RecvMsgAsync_cid alloc want_more (RFrame bs m # sock) =
     (if length bs \<noteq> 4 then Inr (None, -1, None, None, sock)
      else bindR (RecvMsg alloc want_more sock) (\<lambda>r. Inr (Some (le_word bs), r)))"

section \<open>Sending\<close>

text \<open>
  A frame that is sent whole joins the outgoing frames with its \<open>ZMQ_SNDMORE\<close> flag.
\<close>

type_synonym out_sock = "(bytes \<times> bool) list"

definition SendMsg :: "zmq_lib \<Rightarrow> bytes \<Rightarrow> bool \<Rightarrow> out_sock \<Rightarrow> int \<times> out_sock" where
  "SendMsg zs data sndmore out =
     (case zl_send zs (length data) of
        None \<Rightarrow> (-1, out)
      | Some n \<Rightarrow> (n, if n = int (length data) then out @ [(data, sndmore)] else out))"

definition SendMsg_cid :: "zmq_lib \<Rightarrow> i32 \<Rightarrow> bytes \<Rightarrow> bool \<Rightarrow> out_sock \<Rightarrow> int \<times> out_sock" where
  "SendMsg_cid zs cid data sndmore out =
     (let (nbytes, out) = SendMsg zs (i32_bytes cid) True out
      in if nbytes < 0 then (-1, out)
         else if nbytes \<noteq> 4 then (-1, out)
         else SendMsg zs data sndmore out)"

text \<open>A send under the \<open>CHECK_EQ(ret, sizeof(...))\<close> that follows it everywhere.\<close>

definition sent_whole :: "zmq_lib \<Rightarrow> nat \<Rightarrow> bool" where
  "sent_whole zs n \<longleftrightarrow> zl_send zs n = Some (int n)"

definition send_checked :: "zmq_lib \<Rightarrow> string \<Rightarrow> nat \<Rightarrow> unit res" where
  "send_checked zs what n = checkR what (sent_whole zs n)"

text \<open>The library as documented for blocking sockets with no error: the whole frame goes out.\<close>

definition zmq_ok :: zmq_lib where
  "zmq_ok = \<lparr>zl_socket = (\<lambda>_. True), zl_bind = (\<lambda>_. True), zl_connect = (\<lambda>_. True), zl_send = (\<lambda>n. Some (int n))\<rparr>"

lemma sent_whole_zmq_ok [simp]: "sent_whole zmq_ok n"
  by (simp add: sent_whole_def zmq_ok_def)

lemma send_checked_zmq_ok [simp]: "send_checked zmq_ok what n = Inr ()"
  by (simp add: send_checked_def)

lemma send_checked_Inr [res_simps]: "send_checked zs what n = Inr u \<longleftrightarrow> sent_whole zs n"
  by (simp add: send_checked_def)

text \<open>The frames of a send as the outcomes the peer's receives have.\<close>

definition deliver :: "out_sock \<Rightarrow> in_sock" where
  "deliver out = map (\<lambda>(bs, m). RFrame bs m) out"

section \<open>Creating sockets on demand\<close>

text \<open>
  \<open>InitThrSockIfHaveNot\<close> and \<open>InitScopedSockIfHaveNot\<close>: nothing to do when the holder has a
  socket; otherwise the holder gets a new socket (if its creation does not throw), which
  stays there even when the following \<open>connect\<close> throws.
\<close>

definition InitThrSockIfHaveNot :: "zmq_lib \<Rightarrow> sock_type \<Rightarrow> string \<Rightarrow> bool \<Rightarrow> int \<times> bool" where
  "InitThrSockIfHaveNot zs type connect_endp have_sock =
     (if \<not> have_sock then
        if \<not> zl_socket zs type then (-1, have_sock)
        else if \<not> zl_connect zs connect_endp then (-1, True)
        else (0, True)
      else (0, have_sock))"

definition InitScopedSockIfHaveNot :: "zmq_lib \<Rightarrow> sock_type \<Rightarrow> string \<Rightarrow> bool \<Rightarrow> int \<times> bool" where
  "InitScopedSockIfHaveNot zs type connect_endp have_sock =
     (if \<not> have_sock then
        if \<not> zl_socket zs type then (-1, have_sock)
        else if \<not> zl_connect zs connect_endp then (-1, True)
        else (0, True)
      else (0, have_sock))"

section \<open>Setting up the sockets of a thread\<close>

text \<open>
  A thread makes its sockets in one \<open>try\<close> block; any exception there is fatal.
\<close>

datatype sock_op =
    Bind sock_type string
  | Connect sock_type string
  | Subscribe i32

fun sock_op_ok :: "zmq_lib \<Rightarrow> sock_op \<Rightarrow> bool" where
  "sock_op_ok zs (Bind ty endp) = (zl_socket zs ty \<and> zl_bind zs endp)"
| "sock_op_ok zs (Connect ty endp) = (zl_socket zs ty \<and> zl_connect zs endp)"
| "sock_op_ok zs (Subscribe gid) = True"

definition setup_socks :: "zmq_lib \<Rightarrow> sock_op list \<Rightarrow> unit res" where
  "setup_socks zs ops =
     (if list_all (sock_op_ok zs) ops then Inr () else Inl (Log_fatal ''Failed to set up sockets''))"

definition tcp_endp :: "string \<Rightarrow> string \<Rightarrow> string" where
  "tcp_endp ip port = ''tcp://'' @ ip @ '':'' @ port"

lemma sock_op_ok_zmq_ok [simp]: "sock_op_ok zmq_ok sop"
  by (cases sop) (simp_all add: zmq_ok_def)

lemma setup_socks_zmq_ok [simp]: "setup_socks zmq_ok ops = Inr ()"
  by (simp add: setup_socks_def list_all_iff)

lemma zmq_ok_sel [simp]: "zl_socket zmq_ok ty" "zl_connect zmq_ok endp" "zl_bind zmq_ok endp"
  by (simp_all add: zmq_ok_def)

section \<open>Properties\<close>

lemma SendMsg_cid_ok:
  "SendMsg_cid zmq_ok cid data sndmore out = (int (length data), out @ [(i32_bytes cid, True), (data, sndmore)])"
  by (simp add: SendMsg_cid_def SendMsg_def zmq_ok_def)

end
