(* ===== verification/Values.thy ===== *)
theory Values
  imports Memstruct "HOL-Library.Multiset"
begin

text \<open>
  The value functions an application gives a table (\<open>ValueAddFunc\<close> and \<open>ValueSubFunc\<close> of
  \<open>src/quiltdb/include/common.hpp\<close>) and the contract the update propagation relies on.
  \<open>apps/helloworld/helloworld.cpp\<close> supplies the functions \<open>IntAdd\<close> and \<open>IntSub\<close>, which meet it.
\<close>

section \<open>Calling a value function\<close>

text \<open>
  \<open>f(_v, _delta, n)\<close> reads \<open>n\<close> bytes behind each pointer and overwrites the bytes behind
  \<open>_v\<close>; the model returns the code and the new bytes. No call site looks at the code.
\<close>

type_synonym value_fn = "bytes \<Rightarrow> bytes \<Rightarrow> i32 \<Rightarrow> int \<times> bytes"

definition call_vfn :: "value_fn \<Rightarrow> bytes \<Rightarrow> bytes \<Rightarrow> i32 \<Rightarrow> bytes res" where
  "call_vfn f v d n =
     bindR (memcpy_src v n) (\<lambda>v0.
     bindR (memcpy_src d n) (\<lambda>d0.
       let r = snd (f v0 d0 n)
       in if length r = length v0 then Inr (r @ drop (length v0) v) else Inl Out_of_bounds))"

text \<open>\<open>new uint8_t[n]\<close> followed by \<open>memset(_, 0, n)\<close>.\<close>

definition zero_value :: "i32 \<Rightarrow> bytes res" where
  "zero_value n = (if sint n < 0 then Inl Bad_alloc else Inr (replicate (nat (sint n)) 0))"

text \<open>The new value of a function on values of \<open>n\<close> bytes.\<close>

definition vapp :: "value_fn \<Rightarrow> nat \<Rightarrow> bytes \<Rightarrow> bytes \<Rightarrow> bytes" where
  "vapp f n v d = snd (f v d (of_nat n))"

definition vzero :: "nat \<Rightarrow> bytes" where
  "vzero n = replicate n 0"

definition vsum :: "value_fn \<Rightarrow> nat \<Rightarrow> bytes list \<Rightarrow> bytes" where
  "vsum f n ds = foldl (vapp f n) (vzero n) ds"

lemma length_vzero [simp]: "length (vzero n) = n"
  by (simp add: vzero_def)

lemma zero_value_eq [simp]: "n < 2147483648 \<Longrightarrow> zero_value (of_nat n) = Inr (vzero n)"
  by (simp add: zero_value_def vzero_def)

section \<open>The contract\<close>

text \<open>
  On values of \<open>n\<close> bytes, addition is a commutative monoid with the zero bytes as its
  unit, and subtraction takes back an addition.
\<close>

locale value_algebra =
  fixes vadd vsub :: value_fn and n :: nat
  assumes size_bound: "n < 2147483648"
    and vadd_length: "length v = n \<Longrightarrow> length d = n \<Longrightarrow> length (vapp vadd n v d) = n"
    and vsub_length: "length v = n \<Longrightarrow> length d = n \<Longrightarrow> length (vapp vsub n v d) = n"
    and vadd_zero: "length d = n \<Longrightarrow> vapp vadd n (vzero n) d = d"
    and vadd_commute: "length v = n \<Longrightarrow> length d = n \<Longrightarrow> vapp vadd n v d = vapp vadd n d v"
    and vadd_assoc: "length u = n \<Longrightarrow> length v = n \<Longrightarrow> length d = n \<Longrightarrow>
      vapp vadd n (vapp vadd n u v) d = vapp vadd n u (vapp vadd n v d)"
    and vsub_vadd: "length v = n \<Longrightarrow> length d = n \<Longrightarrow> vapp vsub n (vapp vadd n v d) d = v"
begin

lemma call_vadd:
  "length v = n \<Longrightarrow> length d = n \<Longrightarrow> call_vfn vadd v d (of_nat n) = Inr (vapp vadd n v d)"
  using size_bound vadd_length [of v d]
  by (simp add: call_vfn_def memcpy_src_def mem_read_def vapp_def Let_def)

lemma call_vsub:
  "length v = n \<Longrightarrow> length d = n \<Longrightarrow> call_vfn vsub v d (of_nat n) = Inr (vapp vsub n v d)"
  using size_bound vsub_length [of v d]
  by (simp add: call_vfn_def memcpy_src_def mem_read_def vapp_def Let_def)

lemma foldl_length:
  "length v = n \<Longrightarrow> \<forall>d \<in> set ds. length d = n \<Longrightarrow> length (foldl (vapp vadd n) v ds) = n"
  by (induction ds arbitrary: v) (auto simp: vadd_length)

lemma vsum_length [simp]: "\<forall>d \<in> set ds. length d = n \<Longrightarrow> length (vsum vadd n ds) = n"
  by (simp add: vsum_def foldl_length)

lemma vsum_snoc: "vsum vadd n (ds @ [d]) = vapp vadd n (vsum vadd n ds) d"
  by (simp add: vsum_def)

lemma vsum_single: "length d = n \<Longrightarrow> vsum vadd n [d] = d"
  by (simp add: vsum_def vadd_zero)

lemma foldl_start:
  "length v = n \<Longrightarrow> length d = n \<Longrightarrow> \<forall>d \<in> set ds. length d = n \<Longrightarrow>
     foldl (vapp vadd n) (vapp vadd n v d) ds = vapp vadd n v (foldl (vapp vadd n) d ds)"
proof (induction ds arbitrary: d)
  case (Cons x ds)
  then show ?case by (simp add: vadd_assoc vadd_length)
qed simp

lemma vsum_Cons:
  assumes "length d = n" and "\<forall>d \<in> set ds. length d = n"
  shows "vsum vadd n (d # ds) = vapp vadd n d (vsum vadd n ds)"
proof -
  have "vsum vadd n (d # ds) = foldl (vapp vadd n) (vapp vadd n d (vzero n)) ds"
    using assms by (simp add: vsum_def vadd_commute)
  then show ?thesis using assms by (simp add: foldl_start vsum_def)
qed

lemma vsum_append:
  "\<forall>d \<in> set (ds @ es). length d = n \<Longrightarrow>
     vsum vadd n (ds @ es) = vapp vadd n (vsum vadd n ds) (vsum vadd n es)"
proof (induction ds)
  case Nil
  then have "vapp vadd n (vzero n) (vsum vadd n es) = vsum vadd n es" by (simp add: vadd_zero)
  then show ?case by (simp add: vsum_def)
next
  case (Cons d ds)
  then show ?case by (simp add: vsum_Cons vadd_assoc)
qed

text \<open>The order in which deltas arrive does not matter.\<close>

lemma vsum_perm: "mset ds = mset es \<Longrightarrow> \<forall>d \<in> set ds. length d = n \<Longrightarrow> vsum vadd n ds = vsum vadd n es"
proof (induction ds arbitrary: es)
  case Nil
  then show ?case by simp
next
  case (Cons d ds)
  from Cons.prems(1) have "d \<in> set es" by (metis list.set_intros(1) mset_eq_setD)
  then obtain xs ys where es: "es = xs @ d # ys" by (meson split_list)
  with Cons.prems(1) have m: "mset ds = mset (xs @ ys)" by simp
  have len: "\<forall>d \<in> set es. length d = n" "length d = n"
    using Cons.prems mset_eq_setD [OF Cons.prems(1)] by auto
  have "vsum vadd n (d # ds) = vapp vadd n d (vsum vadd n (xs @ ys))"
    using Cons.prems Cons.IH [OF m] by (simp add: vsum_Cons)
  also have "\<dots> = vapp vadd n (vapp vadd n d (vsum vadd n xs)) (vsum vadd n ys)"
    using len es by (simp add: vsum_append vadd_assoc)
  also have "\<dots> = vapp vadd n (vapp vadd n (vsum vadd n xs) d) (vsum vadd n ys)"
    using len es by (simp add: vadd_commute [of d])
  also have "\<dots> = vsum vadd n es"
    using len es by (simp add: vsum_append vsum_Cons vadd_assoc)
  finally show ?case .
qed

text \<open>Taking back one's own part of a sum leaves the part of the others.\<close>

lemma vsub_vsum:
  "\<forall>d \<in> set (ds @ es). length d = n \<Longrightarrow>
     vapp vsub n (vsum vadd n (ds @ es)) (vsum vadd n es) = vsum vadd n ds"
  by (simp add: vsum_append vsub_vadd)

end

section \<open>The functions of helloworld\<close>

text \<open>
  \<open>int\<close> has four bytes. Signed overflow is undefined in C++; the model wraps, as the
  two's complement instructions do.
\<close>

definition IntAdd :: value_fn where
  "IntAdd v delta vsize =
     (if vsize \<noteq> 4 then (-1, v)
      else (0, i32_bytes (le_word v + le_word delta)))"

definition IntSub :: value_fn where
  "IntSub v delta vsize =
     (if vsize \<noteq> 4 then (-1, v)
      else (0, i32_bytes (le_word v - le_word delta)))"

lemma i32_bytes_le_word: "length v = 4 \<Longrightarrow> i32_bytes (le_word v) = v"
proof -
  assume "length v = 4"
  then obtain a b c d where v: "v = [a, b, c, d]"
    by (auto simp: length_Suc_conv numeral_eq_Suc)
  have "ucast (le_word v :: i32) = a" "ucast (drop_bit 8 (le_word v :: i32)) = b"
    "ucast (drop_bit 16 (le_word v :: i32)) = c" "ucast (drop_bit 24 (le_word v :: i32)) = d"
    unfolding v by (rule bit_word_eqI; auto simp: bit_simps dest: bit_imp_le_length)+
  then show ?thesis by (simp add: i32_bytes_def v numeral_eq_Suc)
qed

lemma vapp_Int:
  "vapp IntAdd 4 v d = i32_bytes (le_word v + le_word d)"
  "vapp IntSub 4 v d = i32_bytes (le_word v - le_word d)"
  by (simp_all add: vapp_def IntAdd_def IntSub_def)

lemma le_word_vzero: "(le_word (vzero k) :: i32) = 0"
  by (induction k) (auto simp: vzero_def)

interpretation int_value: value_algebra IntAdd IntSub 4
  by unfold_locales (simp_all add: vapp_Int le_word_vzero i32_bytes_le_word algebra_simps)

end
