(* ===== verification/Propagator.thy ===== *)
theory Propagator
  imports Protocol Zmq_Util Values
begin

text \<open>
  \<open>src/quiltdb/comm/propagator.hpp\<close> and \<open>propagator.cpp\<close>: the object the application threads
  call, and the propagator thread, which collects updates per table and key, sends them
  downstream in batches when the timer fires, and takes part in the start-up handshake and
  the termination protocol. A handler of the thread's loop is a function from the state
  to the new state and the messages it sends, in order.
\<close>

section \<open>State\<close>

datatype PropagatorState = P_INIT | P_RUN | P_TERM_PREP | P_TERM

record PropagatorConfig =
  pc_my_id :: i32
  pc_nanosec :: i32
  pc_downstream_recv :: NodeInfo
  pc_update_pull_endp :: string
  pc_internal_pair_p2r_endp :: string
  pc_internal_pair_r2p_endp :: string

record PropagatorThrInfo =
  pt_my_id :: i32
  pt_nanosec :: i32
  pt_downstream_recv :: NodeInfo
  pt_internal_pair_p2r_endp :: string
  pt_internal_pair_r2p_endp :: string

record TableInfo =
  ti_update_size :: i32
  ti_vadd_func :: value_fn
  ti_loop :: bool
  ti_apply_updates :: bool

text \<open>
  \<open>p_update_push_sock\<close> holds the application threads whose thread-specific socket exists;
  \<open>p_update_queue\<close> the messages pushed to the endpoint of \<open>update_pull_sock\<close>.
\<close>

record Propagator =
  p_thrinfo :: PropagatorThrInfo
  p_have_signaled_term :: bool
  p_state :: PropagatorState
  p_timer_trigger_endp :: string
  p_timer_cmd_endp :: string
  p_update_pull_endp :: string
  p_table_dir :: "(i32, TableInfo) umap"
  p_update_push_sock :: "nat set"
  p_update_queue :: "propagator_msg list"

abbreviation p_my_id :: "Propagator \<Rightarrow> i32" where
  "p_my_id p \<equiv> pt_my_id (p_thrinfo p)"

abbreviation p_nanosec :: "Propagator \<Rightarrow> i32" where
  "p_nanosec p \<equiv> pt_nanosec (p_thrinfo p)"

abbreviation p_ds_id :: "Propagator \<Rightarrow> i32" where
  "p_ds_id p \<equiv> ni_node_id (pt_downstream_recv (p_thrinfo p))"

section \<open>Interface to the application threads\<close>

text \<open>The constructor; the members it does not name hold what was there.\<close>

definition Propagator_ctor :: "PropagatorThrInfo \<Rightarrow> Propagator" where
  "Propagator_ctor info =
     \<lparr>p_thrinfo = info, p_have_signaled_term = False, p_state = P_INIT, p_timer_trigger_endp = [],
      p_timer_cmd_endp = [], p_update_pull_endp = [], p_table_dir = [], p_update_push_sock = {}, p_update_queue = []\<rparr>"

text \<open>\<open>ret\<close> is the result of \<open>pthread_create\<close>.\<close>

definition Propagator_Start :: "int \<Rightarrow> PropagatorConfig \<Rightarrow> Propagator \<Rightarrow> (int \<times> Propagator) res" where
  "Propagator_Start ret config p =
     (if p_state p \<noteq> P_INIT then Inr (-1, p)
      else
        let p = p\<lparr>p_update_pull_endp := pc_update_pull_endp config,
                  p_thrinfo := \<lparr>pt_my_id = pc_my_id config,
                                pt_nanosec = pc_nanosec config,
                                pt_downstream_recv = pc_downstream_recv config,
                                pt_internal_pair_p2r_endp = pc_internal_pair_p2r_endp config,
                                pt_internal_pair_r2p_endp = pc_internal_pair_r2p_endp config\<rparr>\<rparr>
        in bindR (checkR ''Create receiver thread failed'' (ret = 0)) (\<lambda>_.
           if ret \<noteq> 0 then Inr (-1, p) else Inr (0, p)))"

definition Propagator_RegisterTable ::
  "i32 \<Rightarrow> value_fn \<Rightarrow> i32 \<Rightarrow> bool \<Rightarrow> bool \<Rightarrow> Propagator \<Rightarrow> Propagator" where
  "Propagator_RegisterTable table_id vadd_func update_size loop apply_updates p =
     (if p_state p \<noteq> P_INIT then p
      else p\<lparr>p_table_dir :=
               um_put table_id
                 \<lparr>ti_update_size = update_size, ti_vadd_func = vadd_func, ti_loop = loop,
                  ti_apply_updates = apply_updates\<rparr> (p_table_dir p)\<rparr>)"

text \<open>The socket stays with the thread when only its \<open>connect\<close> fails.\<close>

definition Propagator_RegisterThr :: "zmq_lib \<Rightarrow> nat \<Rightarrow> Propagator \<Rightarrow> int \<times> Propagator" where
  "Propagator_RegisterThr zs thr p =
     (if p_state p \<noteq> P_RUN then (-1, p)
      else if thr \<in> p_update_push_sock p then (-1, p)
      else if \<not> zl_socket zs ZMQ_PUSH then (-1, p)
      else
        let p = p\<lparr>p_update_push_sock := insert thr (p_update_push_sock p)\<rparr>
        in if \<not> zl_connect zs (p_update_pull_endp p) then (-1, p) else (0, p))"

definition Propagator_DeregisterThr :: "nat \<Rightarrow> Propagator \<Rightarrow> int \<times> Propagator" where
  "Propagator_DeregisterThr thr p =
     (if p_state p = P_INIT then (-1, p)
      else if thr \<notin> p_update_push_sock p then (-1, p)
      else (0, p\<lparr>p_update_push_sock := p_update_push_sock p - {thr}\<rparr>))"

text \<open>The key parameter is an \<open>int32_t\<close>; the message field is an \<open>int64_t\<close>.\<close>

definition Propagator_Inc ::
  "zmq_lib \<Rightarrow> nat \<Rightarrow> i32 \<Rightarrow> i32 \<Rightarrow> bytes \<Rightarrow> Propagator \<Rightarrow> (int \<times> Propagator) res" where
  "Propagator_Inc zs thr table_id key delta p =
     (if p_state p \<noteq> P_RUN then Inr (-1, p)
      else if thr \<notin> p_update_push_sock p then Inr (-1, p)
      else
        let updatelog = \<lparr>ul_table_id = table_id, ul_key = scast key, ul_update_type = EInc\<rparr>
        in bindR (send_checked zs ''Failed sending inc message'' sizeof_PUpdateLogMsg) (\<lambda>_.
           bindR (send_checked zs ''Failed sending delta'' (length delta)) (\<lambda>_.
           Inr (0, p\<lparr>p_update_queue := p_update_queue p @ [MUpdateLog updatelog delta]\<rparr>))))"

definition Propagator_SignalTerm :: "zmq_lib \<Rightarrow> nat \<Rightarrow> Propagator \<Rightarrow> (int \<times> Propagator) res" where
  "Propagator_SignalTerm zs thr p =
     (if p_state p \<noteq> P_RUN then Inr (-1, p)
      else if thr \<notin> p_update_push_sock p then Inl Null_pointer
      else
        bindR (send_checked zs ''Failed sending termination message'' sizeof_enum) (\<lambda>_.
        Inr (0, p\<lparr>p_update_queue := p_update_queue p @ [MPlain EPInternalTerminate],
                  p_have_signaled_term := True\<rparr>)))"

text \<open>The thread ends exactly when it has set its state to \<open>TERM\<close>; until then the join waits.\<close>

definition Propagator_WaitTerm :: "Propagator \<Rightarrow> int res" where
  "Propagator_WaitTerm p =
     (if p_state p = P_INIT then Inr (-1)
      else if \<not> p_have_signaled_term p then Inr (-1)
      else if p_state p \<noteq> P_TERM then Inl Blocked
      else Inr 0)"

definition Propagator_CommitUpdates :: "i32 \<Rightarrow> UpdateBuffer \<Rightarrow> int" where
  "Propagator_CommitUpdates table_id updates = 0"

definition StopLocalReceiver :: int where
  "StopLocalReceiver = 0"

text \<open>
  The timer's callback: it pokes the propagator thread and returns the waiting time that
  comes back. \<open>have_push\<close> and \<open>have_recv\<close> say whether the timer thread has its two sockets
  already, \<open>cmd\<close> is the answer it receives. The result: what it sent, the two flags
  afterwards, and the waiting time.
\<close>

definition Propagator_TimerHandler ::
  "zmq_lib \<Rightarrow> Propagator \<Rightarrow> bool \<Rightarrow> bool \<Rightarrow> TimerCmdMsg option
    \<Rightarrow> (TimerMsgType \<times> bool \<times> bool \<times> i32) res" where
  "Propagator_TimerHandler zs p have_push have_recv cmd =
     (let (ret, have_push) = InitThrSockIfHaveNot zs ZMQ_PUSH (p_timer_trigger_endp p) have_push
      in bindR (checkR ''Failed, creating and initializing timer_push_sock_'' (ret = 0)) (\<lambda>_.
     let (ret, have_recv) = InitThrSockIfHaveNot zs ZMQ_PULL (p_timer_cmd_endp p) have_recv
      in bindR (checkR ''Failed initialize timer_recv_sock'' (ret = 0)) (\<lambda>_.
     bindR (send_checked zs ''ERROR!'' sizeof_enum) (\<lambda>_.
       case cmd of
         None \<Rightarrow> Inl Blocked
       | Some msg \<Rightarrow> Inr (ETimerTrigger, have_push, have_recv, tc_nanosec msg)))))"

section \<open>The propagator thread\<close>

record prop_thr =
  t_update_store :: "(i32, (i64, bytes) umap) umap"
  t_peers_range :: "(i32, (i32, UpdateRange) umap) umap"
  t_my_range :: "(i32, UpdateRange) umap"
  t_my_store :: "(i32, (i64, bytes) umap) umap"
  t_have_received_ds_term :: bool
  t_have_replied_ds_term :: bool
  t_have_stopped_timer_thr :: bool
  t_have_stopped_recv_thr :: bool
  t_have_pair_push_sock :: bool
  t_update_buffer_cnt :: i32

text \<open>What the thread sends: to the timer, to the paired receiver, to the downstream receiver.\<close>

datatype prop_act =
    ToTimer TimerCmdMsg
  | ToReceiver receiver_msg
  | ToDownstream receiver_wire_msg

definition AddUpdate ::
  "i64 \<Rightarrow> bytes \<Rightarrow> i32 \<Rightarrow> value_fn \<Rightarrow> (i64, bytes) umap \<Rightarrow> (i64, bytes) umap res" where
  "AddUpdate key update_delta vsize table_vadd table_updates =
     bindR (case um_find key table_updates of
              None \<Rightarrow> zero_value vsize
            | Some v \<Rightarrow> Inr v) (\<lambda>v.
     bindR (call_vfn table_vadd v update_delta vsize) (\<lambda>v'.
     Inr (um_put key v' table_updates)))"

definition empty_range :: UpdateRange where
  "empty_range = \<lparr>ur_st = 0, ur_end = -1\<rparr>"

text \<open>What \<open>operator[]\<close> of a map of ranges creates for a missing key.\<close>

definition default_range :: UpdateRange where
  "default_range = \<lparr>ur_st = 0, ur_end = 0\<rparr>"

definition prop_thr_init :: "Propagator \<Rightarrow> prop_thr" where
  "prop_thr_init p =
     \<lparr>t_update_store = [],
      t_peers_range = map (\<lambda>(tid, _). (tid, [])) (p_table_dir p),
      t_my_range = map (\<lambda>(tid, _). (tid, empty_range)) (p_table_dir p),
      t_my_store = [],
      t_have_received_ds_term = False,
      t_have_replied_ds_term = (p_ds_id p <s 0),
      t_have_stopped_timer_thr = False,
      t_have_stopped_recv_thr = False,
      t_have_pair_push_sock = False,
      t_update_buffer_cnt = 0\<rparr>"

subsection \<open>Handshake\<close>

text \<open>
  \<open>pair_in\<close>: what arrives from the paired receiver; \<open>sub_in\<close>: what the downstream receiver
  publishes to this node. The last loop reads until \<open>PropStart\<close> comes.
\<close>

fun await_prop_start :: "PropRecvMsgType list \<Rightarrow> PropRecvMsgType list res" where
  "await_prop_start [] = Inl Blocked"
| "await_prop_start (m # ms) = (if m = PropStart then Inr ms else await_prop_start ms)"

definition prop_handshake ::
  "zmq_lib \<Rightarrow> i32 \<Rightarrow> i32 \<Rightarrow> PropagatorMsgType list \<Rightarrow> PropRecvMsgType list
    \<Rightarrow> (receiver_wire_msg list \<times> PropRecvMsgType list) res" where
  "prop_handshake zs my_id ds_id pair_in sub_in =
     (case pair_in of
        [] \<Rightarrow> Inl Blocked
      | msg # _ \<Rightarrow>
          bindR (checkR ''received unrecognized message '' (msg = EPRInit)) (\<lambda>_.
          if \<not> ds_id <s 0 then
            bindR (send_checked zs ''Send InitMsg failed'' sizeof_PropInitMsg) (\<lambda>_.
              case sub_in of
                [] \<Rightarrow> Inl Blocked
              | ack # sub_in \<Rightarrow>
                  bindR (checkR ''Received message unexpected '' (ack = PropInitACK)) (\<lambda>_.
                  bindR (send_checked zs ''Send InitAckAckMsg failed'' sizeof_PropInitAckAckMsg) (\<lambda>_.
                  bindR (await_prop_start sub_in) (\<lambda>rest.
                  Inr ([WInit my_id, WInitAckAck my_id], rest)))))
          else Inr ([], sub_in)))"

subsection \<open>Start of the thread\<close>

text \<open>\<open>tid\<close> is the id of the thread, which makes the endpoints of the timer unique.\<close>

definition set_timer_endps :: "string \<Rightarrow> Propagator \<Rightarrow> Propagator" where
  "set_timer_endps tid p =
     p\<lparr>p_timer_trigger_endp := ''inproc://propagator.'' @ tid @ ''.timer.trigger'',
       p_timer_cmd_endp := ''inproc://propagator.'' @ tid @ ''.timer.cmd''\<rparr>"

definition prop_socks :: "Propagator \<Rightarrow> sock_op list" where
  "prop_socks p =
     (let ds = pt_downstream_recv (p_thrinfo p)
      in (if \<not> ni_node_id ds <s 0
          then [Connect ZMQ_PUSH (tcp_endp (ni_recv_pull_ip ds) (ni_recv_pull_port ds)),
                Connect ZMQ_SUB (tcp_endp (ni_recv_push_ip ds) (ni_recv_push_port ds)),
                Subscribe 1]
          else []) @
         [Bind ZMQ_PULL (p_update_pull_endp p),
          Bind ZMQ_PULL (pt_internal_pair_r2p_endp (p_thrinfo p))])"

definition prop_timer_socks :: "Propagator \<Rightarrow> sock_op list" where
  "prop_timer_socks p =
     (if 0 <s p_nanosec p
      then [Bind ZMQ_PULL (p_timer_trigger_endp p), Bind ZMQ_PUSH (p_timer_cmd_endp p)]
      else [])"

text \<open>
  From the start of the thread to its loop. The result: the propagator, now running, the
  local state, what was sent downstream, what is left on the subscription.
\<close>

definition prop_thr_start ::
  "zmq_lib \<Rightarrow> string \<Rightarrow> PropagatorMsgType list \<Rightarrow> PropRecvMsgType list \<Rightarrow> Propagator
    \<Rightarrow> (Propagator \<times> prop_thr \<times> receiver_wire_msg list \<times> PropRecvMsgType list) res" where
  "prop_thr_start zs tid pair_in sub_in p =
     (let t = prop_thr_init p; p = set_timer_endps tid p
      in bindR (setup_socks zs (prop_socks p)) (\<lambda>_.
         bindR (prop_handshake zs (p_my_id p) (p_ds_id p) pair_in sub_in) (\<lambda>(sent, rest).
         let p = p\<lparr>p_state := P_RUN\<rparr>
         in bindR (setup_socks zs (prop_timer_socks p)) (\<lambda>_. Inr (p, t, sent, rest)))))"

subsection \<open>The timer fires\<close>

text \<open>The command sent back: the batch interval while running, else 0, which stops the timer.\<close>

definition timer_cmd :: "Propagator \<Rightarrow> TimerCmdMsg" where
  "timer_cmd p =
     \<lparr>tc_msgtype = ETimerCmd, tc_nanosec = (if p_state p = P_RUN then p_nanosec p else 0)\<rparr>"

definition table_update_size :: "i32 \<Rightarrow> Propagator \<Rightarrow> i32" where
  "table_update_size tid p = (case um_find tid (p_table_dir p) of None \<Rightarrow> 0 | Some ti \<Rightarrow> ti_update_size ti)"

definition table_loop :: "i32 \<Rightarrow> Propagator \<Rightarrow> bool" where
  "table_loop tid p = (case um_find tid (p_table_dir p) of None \<Rightarrow> False | Some ti \<Rightarrow> ti_loop ti)"

text \<open>The non-empty ranges of the peers enter the buffer and become empty.\<close>

fun add_peer_ranges ::
  "(i32, UpdateRange) umap \<Rightarrow> UpdateBuffer \<Rightarrow> ((i32, UpdateRange) umap \<times> UpdateBuffer) res" where
  "add_peer_ranges [] b = Inr ([], b)"
| "add_peer_ranges ((nid, r) # rs) b =
     (if ur_st r <=s ur_end r then
        bindR (UpdateNodeRange nid (ur_st r) (ur_end r) b) (\<lambda>(ret, b).
        bindR (checkR ''CHECK_EQ(ret, 0)'' (ret = 0)) (\<lambda>_.
        bindR (add_peer_ranges rs b) (\<lambda>(rs, b).
        Inr ((nid, r\<lparr>ur_st := ur_end r + 1\<rparr>) # rs, b))))
      else
        bindR (add_peer_ranges rs b) (\<lambda>(rs, b). Inr ((nid, r) # rs, b)))"

text \<open>The buffer for one table: its updates, the peers' ranges, the node's own range.\<close>

definition build_update_buffer ::
  "(nat \<Rightarrow> byte) \<Rightarrow> i32 \<Rightarrow> i32 \<Rightarrow> (i64, bytes) umap \<Rightarrow> (i32, UpdateRange) umap \<Rightarrow> UpdateRange
    \<Rightarrow> ((i32, UpdateRange) umap \<times> UpdateBuffer) res" where
  "build_update_buffer junk my_id update_size updates peers my_range =
     bindR (CreateUpdateBuffer junk update_size (of_nat (length updates)) (of_nat (length peers) + 1)) (\<lambda>b.
     bindR (append_all AppendUpdate updates b) (\<lambda>b.
     bindR (add_peer_ranges peers b) (\<lambda>(peers, b).
       if ur_st my_range <=s ur_end my_range then
         bindR (UpdateNodeRange my_id (ur_st my_range) (ur_end my_range) b) (\<lambda>(ret, b).
         bindR (checkR ''CHECK_EQ(ret, 0)'' (ret = 0)) (\<lambda>_.
         Inr (peers, b)))
       else Inr (peers, b))))"

text \<open>The buffer with the node's own updates, kept by the receiver to cancel them later.\<close>

definition build_my_update_buffer ::
  "(nat \<Rightarrow> byte) \<Rightarrow> i32 \<Rightarrow> i32 \<Rightarrow> (i64, bytes) umap \<Rightarrow> UpdateRange \<Rightarrow> UpdateBuffer res" where
  "build_my_update_buffer junk my_id update_size my_updates my_range =
     bindR (CreateUpdateBuffer junk update_size (of_nat (length my_updates)) 1) (\<lambda>b.
     bindR (append_all AppendUpdate my_updates b) (\<lambda>b.
       if ur_st my_range <=s ur_end my_range then
         bindR (UpdateNodeRange my_id (ur_st my_range) (ur_end my_range) b) (\<lambda>(ret, b). Inr b)
       else Inl (Log_fatal ''I have updates, but my update range is empty!'')))"

text \<open>The socket to the paired receiver is made when it is first needed.\<close>

definition ensure_pair_sock :: "zmq_lib \<Rightarrow> Propagator \<Rightarrow> prop_thr \<Rightarrow> prop_thr res" where
  "ensure_pair_sock zs p t =
     (if t_have_pair_push_sock t then Inr t
      else if zl_socket zs ZMQ_PUSH \<and> zl_connect zs (pt_internal_pair_p2r_endp (p_thrinfo p))
      then Inr (t\<lparr>t_have_pair_push_sock := True\<rparr>)
      else Inl (Log_fatal ''Failed setting up socket''))"

text \<open>
  Handing them over: the message to the paired receiver, then the wait for its answer, the
  next of \<open>acks\<close>.
\<close>

definition send_my_updates ::
  "zmq_lib \<Rightarrow> i32 \<Rightarrow> UpdateBuffer \<Rightarrow> PropagatorMsgType list \<Rightarrow> (PropagatorMsgType list \<times> prop_act list) res" where
  "send_my_updates zs table_id b acks =
     bindR (send_checked zs ''Send my updates failed'' sizeof_MyUpdatesMsg) (\<lambda>_.
       case acks of
         [] \<Rightarrow> Inl Blocked
       | ack # acks \<Rightarrow>
           bindR (checkR ''CHECK_EQ(*my_update_ack_msg, EMyUpdatesACK)'' (ack = EMyUpdatesACK)) (\<lambda>_.
           Inr (acks, [ToReceiver (MMyUpdates \<lparr>mu_table_id = table_id, mu_update_buffer_ptr = b\<rparr>)])))"

definition flush_my_updates ::
  "zmq_lib \<Rightarrow> (nat \<Rightarrow> byte) \<Rightarrow> Propagator \<Rightarrow> i32 \<Rightarrow> UpdateRange
    \<Rightarrow> prop_thr \<times> PropagatorMsgType list \<times> prop_act list
    \<Rightarrow> (prop_thr \<times> PropagatorMsgType list \<times> prop_act list) res" where
  "flush_my_updates zs junk p table_id my_range = (\<lambda>(t, acks, acts).
     let my_updates = um_at [] table_id (t_my_store t)
     in if table_loop table_id p \<and> length my_updates > 0 then
          bindR (ensure_pair_sock zs p t) (\<lambda>t.
          bindR (build_my_update_buffer junk (p_my_id p) (table_update_size table_id p) my_updates my_range) (\<lambda>b.
          bindR (send_my_updates zs table_id b acks) (\<lambda>(acks, sent).
          Inr (t\<lparr>t_my_store := um_put table_id [] (t_my_store t)\<rparr>, acks, acts @ sent))))
        else Inr (t, acks, acts))"

text \<open>The buffer goes to the downstream receiver: a header part, then the bytes of the block.\<close>

definition send_update_buffer ::
  "zmq_lib \<Rightarrow> Propagator \<Rightarrow> i32 \<Rightarrow> UpdateBuffer \<Rightarrow> prop_act list res" where
  "send_update_buffer zs p table_id b =
     (if p_ds_id p <s 0 then Inl Null_pointer
      else
        bindR (send_checked zs ''Send EPRUpdateBuffer failed'' sizeof_EPRUpdateBufferMsg) (\<lambda>_.
        bindR (ub_image b) (\<lambda>data.
        bindR (send_checked zs ''Send EPRUpdateBuffer failed'' (length data)) (\<lambda>_.
        Inr [ToDownstream (WUpdateBuffer table_id data)]))))"

text \<open>One round of the loop over the update store.\<close>

definition flush_table ::
  "zmq_lib \<Rightarrow> (nat \<Rightarrow> byte) \<Rightarrow> Propagator \<Rightarrow> i32 \<times> (i64, bytes) umap
    \<Rightarrow> prop_thr \<times> PropagatorMsgType list \<times> prop_act list
    \<Rightarrow> (prop_thr \<times> PropagatorMsgType list \<times> prop_act list) res" where
  "flush_table zs junk p = (\<lambda>(table_id, updates) (t, acks, acts).
     if length updates = 0 then Inr (t, acks, acts)
     else
       let peers = um_at [] table_id (t_peers_range t);
           my_range = um_at default_range table_id (t_my_range t)
       in bindR (build_update_buffer junk (p_my_id p) (table_update_size table_id p) updates peers my_range)
            (\<lambda>(peers, b).
          let t = t\<lparr>t_update_store := um_put table_id [] (t_update_store t),
                    t_peers_range := um_put table_id peers (t_peers_range t)\<rparr>
          in bindR (flush_my_updates zs junk p table_id my_range (t, acks, acts)) (\<lambda>(t, acks, acts).
             let t = t\<lparr>t_my_range := um_put table_id (my_range\<lparr>ur_st := ur_end my_range + 1\<rparr>) (t_my_range t)\<rparr>
             in bindR (send_update_buffer zs p table_id b) (\<lambda>sent.
                Inr (t, acks, acts @ sent)))))"

text \<open>The three conditions under which the thread may end.\<close>

definition may_exit :: "prop_thr \<Rightarrow> bool" where
  "may_exit t \<longleftrightarrow> t_have_stopped_recv_thr t \<and> t_have_stopped_timer_thr t \<and> t_have_replied_ds_term t"

definition exit_if_done :: "Propagator \<Rightarrow> prop_thr \<Rightarrow> Propagator" where
  "exit_if_done p t = (if may_exit t then p\<lparr>p_state := P_TERM\<rparr> else p)"

definition handle_timer ::
  "zmq_lib \<Rightarrow> (nat \<Rightarrow> byte) \<Rightarrow> PropagatorMsgType list \<Rightarrow> TimerMsgType \<Rightarrow> Propagator \<Rightarrow> prop_thr
    \<Rightarrow> (Propagator \<times> prop_thr \<times> prop_act list) res" where
  "handle_timer zs junk acks msgtype p t =
     bindR (checkR ''CHECK_EQ(msgtype, ETimerTrigger)'' (msgtype = ETimerTrigger)) (\<lambda>_.
     bindR (send_checked zs ''SendMsg to timer_send_sock failed'' sizeof_TimerCmdMsg) (\<lambda>_.
     bindR (foldR (flush_table zs junk p) (t_update_store t) (t, acks, [ToTimer (timer_cmd p)]))
       (\<lambda>(t, acks, acts).
       if p_state p = P_TERM_PREP then
         let t = t\<lparr>t_have_stopped_timer_thr := True\<rparr>
         in Inr (exit_if_done p t, t, acts)
       else Inr (p, t, acts))))"

subsection \<open>A message on the update socket\<close>

definition handle_update_log ::
  "PUpdateLogMsg \<Rightarrow> bytes \<Rightarrow> Propagator \<Rightarrow> prop_thr \<Rightarrow> (Propagator \<times> prop_thr \<times> prop_act list) res" where
  "handle_update_log updatelog delta p t =
     (let tid = ul_table_id updatelog; key = ul_key updatelog; len = (of_nat (length delta) :: i32)
      in bindR (checkR ''Malformed UpdateLog message'' (0 <s len)) (\<lambda>_.
         if p_state p \<noteq> P_RUN then Inr (p, t, [])
         else
           let r = um_at default_range tid (t_my_range t);
               t = t\<lparr>t_my_range := um_put tid (r\<lparr>ur_end := ur_end r + 1\<rparr>) (t_my_range t)\<rparr>
           in if p_nanosec p <=s 0 then Inr (p, t, [])
              else
                case um_find tid (p_table_dir p) of
                  None \<Rightarrow> Inl (Check_failed ''Table does not exist'')
                | Some ti \<Rightarrow>
                    bindR (AddUpdate key delta len (ti_vadd_func ti) (um_at [] tid (t_update_store t))) (\<lambda>us.
                    let t = t\<lparr>t_update_store := um_put tid us (t_update_store t)\<rparr>
                    in if ti_loop ti then
                         bindR (AddUpdate key delta len (ti_vadd_func ti) (um_at [] tid (t_my_store t))) (\<lambda>ms.
                         Inr (p, t\<lparr>t_my_store := um_put tid ms (t_my_store t)\<rparr>, []))
                       else Inr (p, t, []))))"

text \<open>Adding the updates of a received buffer to the store of its table.\<close>

type_synonym update_store = "(i32, (i64, bytes) umap) umap"

definition add_buffer_update ::
  "i32 \<Rightarrow> i32 \<Rightarrow> value_fn \<Rightarrow> i64 \<times> int \<Rightarrow> UpdateBuffer \<Rightarrow> update_store \<Rightarrow> update_store res" where
  "add_buffer_update tid update_size vadd = (\<lambda>(key, ptr) b store.
     bindR (if sint update_size < 0 then Inl Out_of_bounds else ub_read ptr (nat (sint update_size)) b) (\<lambda>delta.
     bindR (AddUpdate key delta update_size vadd (um_at [] tid store)) (\<lambda>us.
     Inr (um_put tid us store))))"

definition merge_buffer_updates ::
  "i32 \<Rightarrow> i32 \<Rightarrow> value_fn \<Rightarrow> UpdateBuffer \<Rightarrow> update_store \<Rightarrow> (UpdateBuffer \<times> update_store) res" where
  "merge_buffer_updates tid update_size vadd b store =
     drain NextUpdate (ub_fuel b) (add_buffer_update tid update_size vadd) (snd (StartIteration b)) store"

definition merge_range ::
  "i32 \<times> i64 \<times> i64 \<Rightarrow> (i32, UpdateRange) umap \<Rightarrow> (i32, UpdateRange) umap res" where
  "merge_range = (\<lambda>(node_id, st, en) peers.
     case um_find node_id peers of
       None \<Rightarrow> Inr (um_put node_id \<lparr>ur_st = st, ur_end = en\<rparr> peers)
     | Some r \<Rightarrow>
         bindR (checkR ''updates are not contiguous'' (ur_end r + 1 = st)) (\<lambda>_.
         Inr (um_put node_id (r\<lparr>ur_end := en\<rparr>) peers)))"

definition merge_buffer_ranges ::
  "UpdateBuffer \<Rightarrow> (i32, UpdateRange) umap \<Rightarrow> (UpdateBuffer \<times> (i32, UpdateRange) umap) res" where
  "merge_buffer_ranges b peers =
     drain NextNodeRange (ub_fuel b) (\<lambda>r b peers. merge_range r peers) (StartNodeRangeIteration b) peers"

definition handle_update_buffer ::
  "PUpdateBufferMsg \<Rightarrow> Propagator \<Rightarrow> prop_thr \<Rightarrow> (Propagator \<times> prop_thr \<times> prop_act list) res" where
  "handle_update_buffer msg p t =
     (let t = t\<lparr>t_update_buffer_cnt := t_update_buffer_cnt t + 1\<rparr>;
          b = pub_update_buffer_ptr msg; tid = pub_table_id msg
      in case um_find tid (p_table_dir p) of
           None \<Rightarrow> Inl (Check_failed ''Table does not exist'')
         | Some ti \<Rightarrow>
             if p_state p = P_RUN then
               bindR (merge_buffer_updates tid (ti_update_size ti) (ti_vadd_func ti) b
                        (t_update_store t)) (\<lambda>(b, store).
               let t = t\<lparr>t_update_store := store\<rparr>
               in case um_find tid (t_peers_range t) of
                    None \<Rightarrow> Inl Null_pointer
                  | Some peers \<Rightarrow>
                      bindR (merge_buffer_ranges b peers) (\<lambda>(b, peers).
                      Inr (p, t\<lparr>t_peers_range := um_put tid peers (t_peers_range t)\<rparr>, [])))
             else Inr (p, t, []))"

text \<open>The acknowledgement to the downstream receiver.\<close>

definition send_term_ack :: "zmq_lib \<Rightarrow> Propagator \<Rightarrow> prop_act list res" where
  "send_term_ack zs p =
     (if p_ds_id p <s 0 then Inl Null_pointer
      else
        bindR (send_checked zs ''CHECK_EQ(ret, sizeof(PRTerminateAckMsg))'' sizeof_PRTerminateAckMsg) (\<lambda>_.
        Inr [ToDownstream (WTerminateAck (p_my_id p))]))"

definition handle_internal_terminate ::
  "zmq_lib \<Rightarrow> Propagator \<Rightarrow> prop_thr \<Rightarrow> (Propagator \<times> prop_thr \<times> prop_act list) res" where
  "handle_internal_terminate zs p t =
     (let p = p\<lparr>p_state := P_TERM_PREP\<rparr>
      in bindR (if t_have_received_ds_term t then
                  bindR (send_term_ack zs p) (\<lambda>sent. Inr (t\<lparr>t_have_replied_ds_term := True\<rparr>, sent))
                else Inr (t, [])) (\<lambda>(t, sent).
         bindR (ensure_pair_sock zs p t) (\<lambda>t.
         bindR (send_checked zs ''Send term msg failed'' sizeof_enum) (\<lambda>_.
         Inr (p, t\<lparr>t_update_store := map (\<lambda>(tid, us). (tid, [])) (t_update_store t)\<rparr>,
              sent @ [ToReceiver (RPlain EPRInternalTerminate)])))))"

definition handle_recv_term_ack :: "Propagator \<Rightarrow> prop_thr \<Rightarrow> Propagator \<times> prop_thr \<times> prop_act list" where
  "handle_recv_term_ack p t =
     (let t = t\<lparr>t_have_stopped_recv_thr := True\<rparr> in (exit_if_done p t, t, []))"

fun handle_update_msg ::
  "zmq_lib \<Rightarrow> propagator_msg \<Rightarrow> Propagator \<Rightarrow> prop_thr \<Rightarrow> (Propagator \<times> prop_thr \<times> prop_act list) res" where
  "handle_update_msg zs (MUpdateLog m delta) p t = handle_update_log m delta p t"
| "handle_update_msg zs (MUpdateBuffer m) p t = handle_update_buffer m p t"
| "handle_update_msg zs (MPlain EPInternalTerminate) p t = handle_internal_terminate zs p t"
| "handle_update_msg zs (MPlain EPRecvInternalTerminateACK) p t = Inr (handle_recv_term_ack p t)"
| "handle_update_msg zs (MPlain EPUpdateLog) p t = Inl (Check_failed ''Malformed UpdateLog message'')"
| "handle_update_msg zs (MPlain EPUpdateBuffer) p t = Inl Out_of_bounds"
| "handle_update_msg zs (MPlain EPRInit) p t = Inl (Log_fatal ''Received unrecognized message!'')"
| "handle_update_msg zs (MPlain EMyUpdatesACK) p t = Inl (Log_fatal ''Received unrecognized message!'')"

subsection \<open>A message from the downstream receiver\<close>

fun handle_term_sub ::
  "zmq_lib \<Rightarrow> PropRecvMsgType \<Rightarrow> Propagator \<Rightarrow> prop_thr \<Rightarrow> (Propagator \<times> prop_thr \<times> prop_act list) res" where
  "handle_term_sub zs EPRTerminate p t =
     (if p_state p = P_TERM_PREP then
        bindR (send_term_ack zs p) (\<lambda>sent.
        let t = t\<lparr>t_have_received_ds_term := True, t_have_replied_ds_term := True\<rparr>
        in Inr (exit_if_done p t, t, sent))
      else Inr (p, t\<lparr>t_have_received_ds_term := True\<rparr>, []))"
| "handle_term_sub zs _ p t = Inl (Log_fatal ''Received message unrecognized!'')"

subsection \<open>The loop\<close>

text \<open>
  One round: of the sockets with something to read, the timer comes first, then the
  update socket, then the downstream receiver, and only one is read.
\<close>

datatype prop_event =
    PTimer TimerMsgType "PropagatorMsgType list"
  | PUpdate propagator_msg
  | PTerm PropRecvMsgType

definition prop_poll ::
  "Propagator \<Rightarrow> (TimerMsgType \<times> PropagatorMsgType list) option \<Rightarrow> propagator_msg option
    \<Rightarrow> PropRecvMsgType option \<Rightarrow> prop_event option" where
  "prop_poll p timer upd trm =
     (if 0 <s p_nanosec p \<and> timer \<noteq> None then Some (PTimer (fst (the timer)) (snd (the timer)))
      else if upd \<noteq> None then Some (PUpdate (the upd))
      else if \<not> p_ds_id p <s 0 \<and> trm \<noteq> None then Some (PTerm (the trm))
      else None)"

fun prop_handle ::
  "zmq_lib \<Rightarrow> (nat \<Rightarrow> byte) \<Rightarrow> prop_event \<Rightarrow> Propagator \<Rightarrow> prop_thr
    \<Rightarrow> (Propagator \<times> prop_thr \<times> prop_act list) res" where
  "prop_handle zs junk (PTimer m acks) p t = handle_timer zs junk acks m p t"
| "prop_handle zs junk (PUpdate m) p t = handle_update_msg zs m p t"
| "prop_handle zs junk (PTerm m) p t = handle_term_sub zs m p t"

text \<open>A run of the thread over the events it reads, until it has set \<open>TERM\<close>.\<close>

fun prop_run ::
  "zmq_lib \<Rightarrow> (nat \<Rightarrow> byte) \<Rightarrow> prop_event list \<Rightarrow> Propagator \<Rightarrow> prop_thr
    \<Rightarrow> (Propagator \<times> prop_thr \<times> prop_act list) res" where
  "prop_run zs junk [] p t = Inr (p, t, [])"
| "prop_run zs junk (e # es) p t =
     (if p_state p = P_TERM then Inr (p, t, [])
      else
        bindR (prop_handle zs junk e p t) (\<lambda>(p, t, acts).
        bindR (prop_run zs junk es p t) (\<lambda>(p, t, acts').
        Inr (p, t, acts @ acts'))))"

end
