(* ===== verification/Event_Loop.thy ===== *)
theory Event_Loop
  imports QDB_Prelude
begin

text \<open>
  What the threads of the database have in common: a loop that handles one event after the other
  until the thread has ended, and step relations with invariants. The interfaces are locales; the
  propagator thread, the receiver thread, the connection between them and the tables are
  instances.
\<close>

section \<open>A loop over events\<close>

text \<open>\<open>handle\<close> gives the new state and the actions of the handler; \<open>run\<close> handles a list of events.\<close>

locale event_loop =
  fixes handle :: "'e \<Rightarrow> 's \<Rightarrow> ('s \<times> 'a list) res"
    and ended :: "'s \<Rightarrow> bool"
    and run :: "'e list \<Rightarrow> 's \<Rightarrow> ('s \<times> 'a list) res"
  assumes run_Nil: "run [] s = Inr (s, [])"
    and run_Cons: "run (e # es) s =
      (if ended s then Inr (s, [])
       else bindR (handle e s) (\<lambda>(s1, acts). bindR (run es s1) (\<lambda>(s2, acts'). Inr (s2, acts @ acts'))))"
begin

lemma run_Cons_iff:
  "run (e # es) s = Inr (s', acts) \<longleftrightarrow>
     (if ended s then s' = s \<and> acts = []
      else \<exists>s1 acts1 acts2. handle e s = Inr (s1, acts1) \<and> run es s1 = Inr (s', acts2) \<and> acts = acts1 @ acts2)"
  by (auto simp: run_Cons bindR_Inr_iff)

lemma run_ended: "ended s \<Longrightarrow> run es s = Inr (s, [])"
  by (cases es) (simp_all add: run_Nil run_Cons)

text \<open>Events handled in two parts.\<close>

lemma run_append:
  "run (es @ es') s = bindR (run es s) (\<lambda>(s1, acts). bindR (run es' s1) (\<lambda>(s2, acts'). Inr (s2, acts @ acts')))"
proof (induction es arbitrary: s)
  case Nil
  show ?case by (cases "run es' s") (auto simp: run_Nil)
next
  case (Cons e es)
  show ?case
  proof (cases "ended s")
    case False
    show ?thesis
    proof (cases "handle e s")
      case (Inr x)
      with False Cons.IH [of "fst x"] show ?thesis
        by (cases "run es (fst x)") (auto simp: run_Cons bindR_def case_prod_unfold split: sum.split)
    qed (use False in \<open>simp add: run_Cons\<close>)
  qed (simp add: run_Cons run_ended)
qed

text \<open>What every step keeps and what every action satisfies, a run does.\<close>

lemma run_keeps:
  assumes "run es s = Inr (s', acts)" and "I s"
    and "\<And>e s s1 acts1. e \<in> set es \<Longrightarrow> handle e s = Inr (s1, acts1) \<Longrightarrow> \<not> ended s \<Longrightarrow> I s \<Longrightarrow> I s1 \<and> (\<forall>a \<in> set acts1. Q a)"
  shows "I s' \<and> (\<forall>a \<in> set acts. Q a)"
  using assms
proof (induction es arbitrary: s acts)
  case Nil
  then show ?case by (simp add: run_Nil)
next
  case (Cons e es)
  show ?case
  proof (cases "ended s")
    case True
    with Cons.prems(1,2) show ?thesis by (simp add: run_Cons_iff)
  next
    case False
    with Cons.prems(1) obtain s1 acts1 acts2 where
      h: "handle e s = Inr (s1, acts1)" "run es s1 = Inr (s', acts2)" "acts = acts1 @ acts2"
      by (auto simp: run_Cons_iff)
    have first: "I s1 \<and> (\<forall>a \<in> set acts1. Q a)" by (rule Cons.prems(3) [OF _ h(1) False Cons.prems(2)]) simp
    have "I s' \<and> (\<forall>a \<in> set acts2. Q a)"
    proof (rule Cons.IH [OF h(2)])
      show "I s1" using first by blast
    qed (rule Cons.prems(3), simp_all)
    with first h(3) show ?thesis by auto
  qed
qed

end

section \<open>A loop that moves through its states in one direction\<close>

text \<open>
  Every handler keeps the invariant and does not lower the rank of the state; from rank \<open>quiet\<close> on
  it does none of the \<open>loud\<close> actions.
\<close>

locale ranked_loop = event_loop handle ended run
  for handle :: "'e \<Rightarrow> 's \<Rightarrow> ('s \<times> 'a list) res" and ended :: "'s \<Rightarrow> bool" and run +
  fixes inv :: "'s \<Rightarrow> bool" and rank :: "'s \<Rightarrow> nat" and quiet :: nat and loud :: "'a \<Rightarrow> bool"
  assumes handle_inv: "handle e s = Inr (s', acts) \<Longrightarrow> \<not> ended s \<Longrightarrow> inv s \<Longrightarrow> inv s'"
    and handle_rank: "handle e s = Inr (s', acts) \<Longrightarrow> \<not> ended s \<Longrightarrow> inv s \<Longrightarrow> rank s \<le> rank s'"
    and handle_quiet: "handle e s = Inr (s', acts) \<Longrightarrow> \<not> ended s \<Longrightarrow> inv s \<Longrightarrow> quiet \<le> rank s \<Longrightarrow> a \<in> set acts \<Longrightarrow> \<not> loud a"
begin

lemma run_inv:
  assumes "run es s = Inr (s', acts)" and "inv s"
  shows "inv s'" and "rank s \<le> rank s'"
proof -
  have "(inv s' \<and> rank s \<le> rank s') \<and> (\<forall>a \<in> set acts. True)"
    by (rule run_keeps [OF assms(1)]) (use assms(2) handle_inv handle_rank in \<open>fastforce intro: order_trans\<close>)+
  then show "inv s'" "rank s \<le> rank s'" by auto
qed

lemma run_quiet:
  assumes "run es s = Inr (s', acts)" and "inv s" and "quiet \<le> rank s" and "a \<in> set acts"
  shows "\<not> loud a"
proof -
  have "(inv s' \<and> quiet \<le> rank s') \<and> (\<forall>a \<in> set acts. \<not> loud a)"
    by (rule run_keeps [OF assms(1)])
       (use assms(2,3) handle_inv handle_rank handle_quiet in \<open>fastforce intro: order_trans\<close>)+
  with assms(4) show ?thesis by blast
qed

end

section \<open>Step relations with an invariant\<close>

locale step_invariant =
  fixes step :: "'s \<Rightarrow> 's \<Rightarrow> bool" and inv :: "'s \<Rightarrow> bool"
  assumes step_inv: "step s s' \<Longrightarrow> inv s \<Longrightarrow> inv s'"
begin

lemma reach_inv: "step\<^sup>*\<^sup>* s s' \<Longrightarrow> inv s \<Longrightarrow> inv s'"
  by (induction rule: rtranclp_induct) (auto intro: step_inv)

end

end
