(* ===== verification/Propagator_Term.thy ===== *)
theory Propagator_Term
  imports Propagator Event_Loop
begin

text \<open>
  The propagator thread as a state machine: which states follow each other, what the
  thread has promised once it has acknowledged the downstream receiver, when it ends and
  that it does end.
\<close>

section \<open>What the handlers send\<close>

fun sends_buffer :: "prop_act \<Rightarrow> bool" where
  "sends_buffer (ToDownstream (WUpdateBuffer tid data)) = True"
| "sends_buffer _ = False"

fun sends_term_ack :: "prop_act \<Rightarrow> bool" where
  "sends_term_ack (ToDownstream (WTerminateAck nid)) = True"
| "sends_term_ack _ = False"

definition store_empty :: "prop_thr \<Rightarrow> bool" where
  "store_empty t \<longleftrightarrow> (\<forall>e \<in> set (t_update_store t). snd e = [])"

text \<open>
  Outside \<open>RUN\<close> nothing waits to be sent; in \<open>RUN\<close> the timer thread has not been stopped; an ended
  thread has met its three conditions.
\<close>

definition prop_inv :: "Propagator \<Rightarrow> prop_thr \<Rightarrow> bool" where
  "prop_inv p t \<longleftrightarrow>
     (p_state p \<noteq> P_RUN \<longrightarrow> store_empty t) \<and>
     (p_state p = P_RUN \<longrightarrow> \<not> t_have_stopped_timer_thr t) \<and>
     (p_state p = P_TERM_PREP \<longrightarrow> \<not> may_exit t \<and> (t_have_received_ds_term t \<longrightarrow> t_have_replied_ds_term t)) \<and>
     (p_state p = P_TERM \<longrightarrow> may_exit t)"

fun state_rank :: "PropagatorState \<Rightarrow> nat" where
  "state_rank P_INIT = 0"
| "state_rank P_RUN = 1"
| "state_rank P_TERM_PREP = 2"
| "state_rank P_TERM = 3"

lemma flush_empty: "\<forall>e \<in> set es. snd e = [] \<Longrightarrow> foldR (flush_table zs junk p) es (t, acks, acts) = Inr (t, acks, acts)"
  by (induction es) (auto simp: flush_table_def)

lemma send_my_updates_sent:
  "send_my_updates zs tid b acks = Inr (acks', sent) \<Longrightarrow>
     acks = EMyUpdatesACK # acks' \<and>
     sent = [ToReceiver (MMyUpdates \<lparr>mu_table_id = tid, mu_update_buffer_ptr = b\<rparr>)]"
  by (cases acks) (auto simp: send_my_updates_def bindR_Inr_iff)

lemma ensure_pair_sock_Inr: "ensure_pair_sock zs p t = Inr t' \<Longrightarrow> t' = t\<lparr>t_have_pair_push_sock := True\<rparr>"
  by (auto simp: ensure_pair_sock_def split: if_splits)

lemma ensure_pair_sock_ok [simp]: "ensure_pair_sock zmq_ok p t = Inr (t\<lparr>t_have_pair_push_sock := True\<rparr>)"
  by (auto simp: ensure_pair_sock_def)

lemma flush_table_acts:
  assumes "flush_table zs junk p e (t, acks, acts) = Inr (t', acks', acts')"
    and "\<forall>a \<in> set acts. \<not> sends_term_ack a"
  shows "\<forall>a \<in> set acts'. \<not> sends_term_ack a"
  using assms
  by (auto simp: flush_table_def flush_my_updates_def send_update_buffer_def Let_def
      bindR_Inr_iff dest!: send_my_updates_sent split: if_splits prod.splits)

lemma flush_table_flags:
  assumes "flush_table zs junk p e (t, acks, acts) = Inr (t', acks', acts')"
  shows "t_have_received_ds_term t' = t_have_received_ds_term t \<and>
    t_have_replied_ds_term t' = t_have_replied_ds_term t \<and>
    t_have_stopped_timer_thr t' = t_have_stopped_timer_thr t \<and>
    t_have_stopped_recv_thr t' = t_have_stopped_recv_thr t"
  using assms
  by (auto simp: flush_table_def flush_my_updates_def Let_def bindR_Inr_iff
      dest!: ensure_pair_sock_Inr split: if_splits prod.splits)

lemma flush_all_acts:
  "foldR (flush_table zs junk p) es (t, acks, acts) = Inr (t', acks', acts') \<Longrightarrow>
   \<forall>a \<in> set acts. \<not> sends_term_ack a \<Longrightarrow> \<forall>a \<in> set acts'. \<not> sends_term_ack a"
proof (induction es arbitrary: t acks acts)
  case (Cons e es)
  then obtain t1 acks1 acts1 where
    1: "flush_table zs junk p e (t, acks, acts) = Inr (t1, acks1, acts1)"
    and 2: "foldR (flush_table zs junk p) es (t1, acks1, acts1) = Inr (t', acks', acts')"
    by (auto simp: bindR_Inr_iff)
  from Cons.IH [OF 2 flush_table_acts [OF 1 Cons.prems(2)]] show ?case .
qed simp

lemma flush_all_flags:
  "foldR (flush_table zs junk p) es (t, acks, acts) = Inr (t', acks', acts') \<Longrightarrow>
   t_have_received_ds_term t' = t_have_received_ds_term t \<and>
   t_have_replied_ds_term t' = t_have_replied_ds_term t \<and>
   t_have_stopped_timer_thr t' = t_have_stopped_timer_thr t \<and>
   t_have_stopped_recv_thr t' = t_have_stopped_recv_thr t"
proof (induction es arbitrary: t acks acts)
  case (Cons e es)
  then obtain t1 acks1 acts1 where
    1: "flush_table zs junk p e (t, acks, acts) = Inr (t1, acks1, acts1)"
    and 2: "foldR (flush_table zs junk p) es (t1, acks1, acts1) = Inr (t', acks', acts')"
    by (auto simp: bindR_Inr_iff)
  from Cons.IH [OF 2] flush_table_flags [OF 1] show ?case by simp
qed simp

section \<open>One event\<close>

text \<open>The effect of a timer event, by the state of the propagator.\<close>

lemma handle_timer_quiet:
  assumes "handle_timer zs junk acks m p t = Inr (p', t', acts)" and "store_empty t"
  shows "acts = [ToTimer (timer_cmd p)]"
    and "t' = (if p_state p = P_TERM_PREP then t\<lparr>t_have_stopped_timer_thr := True\<rparr> else t)"
    and "p' = (if p_state p = P_TERM_PREP then exit_if_done p t' else p)"
  using assms
  by (auto simp: handle_timer_def bindR_Inr_iff flush_empty store_empty_def Let_def split: if_splits)

lemma handle_timer_run:
  assumes "handle_timer zs junk acks m p t = Inr (p', t', acts)" and "p_state p = P_RUN"
  shows "p' = p" and "\<forall>a \<in> set acts. \<not> sends_term_ack a"
    and "t_have_replied_ds_term t' = t_have_replied_ds_term t"
    and "t_have_stopped_timer_thr t' = t_have_stopped_timer_thr t"
    and "t_have_stopped_recv_thr t' = t_have_stopped_recv_thr t"
    and "t_have_received_ds_term t' = t_have_received_ds_term t"
  using assms flush_all_acts flush_all_flags
  by (fastforce simp: handle_timer_def bindR_Inr_iff)+

text \<open>What any event other than a timer event does to the state.\<close>

lemma handle_update_msg_cases:
  assumes "handle_update_msg zs m p t = Inr (p', t', acts)"
  obtains (quiet) "p' = p" "acts = []" "p_state p \<noteq> P_RUN \<longrightarrow> t_update_store t' = t_update_store t"
      "t_have_replied_ds_term t' = t_have_replied_ds_term t"
      "t_have_stopped_timer_thr t' = t_have_stopped_timer_thr t"
      "t_have_stopped_recv_thr t' = t_have_stopped_recv_thr t"
      "t_have_received_ds_term t' = t_have_received_ds_term t"
      "m \<noteq> MPlain EPInternalTerminate" "m \<noteq> MPlain EPRecvInternalTerminateACK"
  | (terminate) "m = MPlain EPInternalTerminate" "p' = p\<lparr>p_state := P_TERM_PREP\<rparr>" "store_empty t'"
      "\<forall>a \<in> set acts. \<not> sends_buffer a"
      "t_have_replied_ds_term t' \<longleftrightarrow> t_have_replied_ds_term t \<or> t_have_received_ds_term t"
      "t_have_stopped_timer_thr t' = t_have_stopped_timer_thr t"
      "t_have_stopped_recv_thr t' = t_have_stopped_recv_thr t"
      "t_have_received_ds_term t' = t_have_received_ds_term t"
  | (acked) "m = MPlain EPRecvInternalTerminateACK" "t' = t\<lparr>t_have_stopped_recv_thr := True\<rparr>"
      "p' = exit_if_done p t'" "acts = []"
proof (cases m)
  case (MUpdateLog l d)
  with assms show thesis
    by (intro quiet) (auto simp: handle_update_log_def Let_def bindR_Inr_iff split: if_splits option.splits)
next
  case (MUpdateBuffer l)
  with assms show thesis
    by (intro quiet) (auto simp: handle_update_buffer_def Let_def bindR_Inr_iff split: if_splits option.splits)
next
  case (MPlain ty)
  show thesis
  proof (cases ty)
    case EPInternalTerminate
    with MPlain assms show thesis
      by (intro terminate)
         (auto simp: handle_internal_terminate_def Let_def bindR_Inr_iff store_empty_def send_term_ack_def
            dest!: ensure_pair_sock_Inr split: if_splits prod.splits)
  next
    case EPRecvInternalTerminateACK
    with MPlain assms show thesis
      by (intro acked) (auto simp: handle_recv_term_ack_def Let_def)
  qed (use MPlain assms in simp_all)
qed

lemma handle_term_sub_cases:
  assumes "handle_term_sub zs m p t = Inr (p', t', acts)"
  obtains (early) "p_state p \<noteq> P_TERM_PREP" "p' = p" "t' = t\<lparr>t_have_received_ds_term := True\<rparr>" "acts = []"
  | (reply) "p_state p = P_TERM_PREP" "t' = t\<lparr>t_have_received_ds_term := True, t_have_replied_ds_term := True\<rparr>"
      "p' = exit_if_done p t'" "acts = [ToDownstream (WTerminateAck (p_my_id p))]"
  using assms
  by (cases m) (auto simp: send_term_ack_def bindR_Inr_iff Let_def split: if_splits)

lemma exit_if_done_state: "p_state (exit_if_done p t) = (if may_exit t then P_TERM else p_state p)"
  by (simp add: exit_if_done_def)

lemma exit_if_done_frame [simp]:
  "p_thrinfo (exit_if_done p t) = p_thrinfo p" "p_table_dir (exit_if_done p t) = p_table_dir p"
  by (simp_all add: exit_if_done_def)

lemma store_empty_flags [simp]:
  "store_empty (t\<lparr>t_have_stopped_timer_thr := b\<rparr>) = store_empty t"
  "store_empty (t\<lparr>t_have_stopped_recv_thr := b\<rparr>) = store_empty t"
  "store_empty (t\<lparr>t_have_received_ds_term := b\<rparr>) = store_empty t"
  "store_empty (t\<lparr>t_have_replied_ds_term := b\<rparr>) = store_empty t"
  by (simp_all add: store_empty_def)

definition running :: "Propagator \<Rightarrow> bool" where
  "running p \<longleftrightarrow> p_state p = P_RUN \<or> p_state p = P_TERM_PREP"

text \<open>
  The facts about one event that the properties of runs rest on: the invariant is kept,
  the state only moves on, and a buffer is sent in \<open>RUN\<close> only.
\<close>

lemma prop_handle_step:
  assumes "prop_handle zs junk e p t = Inr (p', t', acts)" and "running p" and "prop_inv p t"
  shows "prop_inv p' t'" and "state_rank (p_state p) \<le> state_rank (p_state p')"
    and "p_state p \<noteq> P_RUN \<Longrightarrow> \<forall>a \<in> set acts. \<not> sends_buffer a"
    and "(\<exists>a \<in> set acts. sends_term_ack a) \<Longrightarrow> p_state p' \<noteq> P_RUN \<and> (\<forall>a \<in> set acts. \<not> sends_buffer a)"
    and "p_thrinfo p' = p_thrinfo p" and "p_table_dir p' = p_table_dir p"
proof -
  have *: "prop_inv p' t' \<and> state_rank (p_state p) \<le> state_rank (p_state p') \<and>
    (p_state p \<noteq> P_RUN \<longrightarrow> (\<forall>a \<in> set acts. \<not> sends_buffer a)) \<and>
    ((\<exists>a \<in> set acts. sends_term_ack a) \<longrightarrow> p_state p' \<noteq> P_RUN \<and> (\<forall>a \<in> set acts. \<not> sends_buffer a)) \<and>
    p_thrinfo p' = p_thrinfo p \<and> p_table_dir p' = p_table_dir p"
  proof (cases e)
    case (PTimer m acks)
    show ?thesis
    proof (cases "p_state p = P_RUN")
      case True
      with PTimer assms(1,3) handle_timer_run [of zs junk acks m p t p' t' acts] show ?thesis
        by (auto simp: prop_inv_def)
    next
      case False
      with PTimer assms show ?thesis
        using handle_timer_quiet [of zs junk acks m p t p' t' acts]
        by (auto simp: prop_inv_def running_def exit_if_done_state split: if_splits)
    qed
  next
    case (PUpdate m)
    with assms(1) have "handle_update_msg zs m p t = Inr (p', t', acts)" by simp
    then show ?thesis
    proof (cases rule: handle_update_msg_cases)
      case quiet
      with assms(2,3) show ?thesis by (auto simp: prop_inv_def running_def store_empty_def may_exit_def)
    next
      case terminate
      with assms(2,3) show ?thesis by (auto simp: prop_inv_def running_def may_exit_def)
    next
      case acked
      with assms(2,3) show ?thesis
        by (auto simp: prop_inv_def running_def exit_if_done_state may_exit_def)
    qed
  next
    case (PTerm m)
    with assms(1) have "handle_term_sub zs m p t = Inr (p', t', acts)" by simp
    then show ?thesis
    proof (cases rule: handle_term_sub_cases)
      case early
      with assms(2,3) show ?thesis by (auto simp: prop_inv_def running_def)
    next
      case reply
      with assms(2,3) show ?thesis
        by (auto simp: prop_inv_def running_def exit_if_done_state)
    qed
  qed
  from * show "prop_inv p' t'" "state_rank (p_state p) \<le> state_rank (p_state p')"
    "p_thrinfo p' = p_thrinfo p" "p_table_dir p' = p_table_dir p" by blast+
  from * show "p_state p \<noteq> P_RUN \<Longrightarrow> \<forall>a \<in> set acts. \<not> sends_buffer a" by blast
  from * show "(\<exists>a \<in> set acts. sends_term_ack a) \<Longrightarrow>
    p_state p' \<noteq> P_RUN \<and> (\<forall>a \<in> set acts. \<not> sends_buffer a)" by blast
qed

section \<open>Runs\<close>

lemma running_ended: "p_state p \<noteq> P_INIT \<Longrightarrow> \<not> running p \<longleftrightarrow> p_state p = P_TERM"
  by (cases "p_state p") (auto simp: running_def)

lemma rank_started: "state_rank (p_state p) \<le> state_rank (p_state p') \<Longrightarrow> running p \<Longrightarrow> p_state p' \<noteq> P_INIT"
  by (cases "p_state p'") (auto simp: running_def)

text \<open>The thread as a loop over events.\<close>

definition prop_step :: "zmq_lib \<Rightarrow> (nat \<Rightarrow> byte) \<Rightarrow> prop_event \<Rightarrow> Propagator \<times> prop_thr \<Rightarrow> ((Propagator \<times> prop_thr) \<times> prop_act list) res" where
  "prop_step zs junk e s = bindR (prop_handle zs junk e (fst s) (snd s)) (\<lambda>(p, t, acts). Inr ((p, t), acts))"

definition prop_loop :: "zmq_lib \<Rightarrow> (nat \<Rightarrow> byte) \<Rightarrow> prop_event list \<Rightarrow> Propagator \<times> prop_thr \<Rightarrow> ((Propagator \<times> prop_thr) \<times> prop_act list) res" where
  "prop_loop zs junk es s = bindR (prop_run zs junk es (fst s) (snd s)) (\<lambda>(p, t, acts). Inr ((p, t), acts))"

lemma prop_step_iff: "prop_step zs junk e s = Inr (s', acts) \<longleftrightarrow> prop_handle zs junk e (fst s) (snd s) = Inr (fst s', snd s', acts)"
  by (auto simp: prop_step_def bindR_Inr_iff)

lemma prop_loop_iff: "prop_loop zs junk es s = Inr (s', acts) \<longleftrightarrow> prop_run zs junk es (fst s) (snd s) = Inr (fst s', snd s', acts)"
  by (auto simp: prop_loop_def bindR_Inr_iff)

interpretation pl: ranked_loop "prop_step zs junk" "\<lambda>s. p_state (fst s) = P_TERM" "prop_loop zs junk"
    "\<lambda>s. p_state (fst s) \<noteq> P_INIT \<and> prop_inv (fst s) (snd s)" "\<lambda>s. state_rank (p_state (fst s))" 2 sends_buffer for zs junk
proof (unfold_locales, goal_cases)
  case (2 e es s)
  show ?case
    by (cases "prop_handle zs junk e (fst s) (snd s)")
       (auto simp: prop_loop_def prop_step_def bindR_assoc case_prod_unfold)
next
  case (3 e s s' acts)
  then have run: "running (fst s)" using running_ended by blast
  note st = prop_handle_step [OF 3(1) [unfolded prop_step_iff] run]
  from 3(3) show ?case using st(1) rank_started [OF st(2) run] by blast
next
  case (4 e s s' acts)
  then have run: "running (fst s)" using running_ended by blast
  from prop_handle_step(2) [OF 4(1) [unfolded prop_step_iff] run] 4(3) show ?case by blast
next
  case (5 e s s' acts a)
  then have run: "running (fst s)" using running_ended by blast
  from 5(4) have "p_state (fst s) \<noteq> P_RUN" by (cases "p_state (fst s)") auto
  with prop_handle_step(3) [OF 5(1) [unfolded prop_step_iff] run] 5(3,5) show ?case by blast
qed (simp add: prop_loop_def)

lemma prop_run_Cons_iff:
  "prop_run zs junk (e # es) p t = Inr (p', t', acts) \<longleftrightarrow>
     (if p_state p = P_TERM then p' = p \<and> t' = t \<and> acts = []
      else \<exists>p1 t1 acts1 acts2. prop_handle zs junk e p t = Inr (p1, t1, acts1) \<and>
        prop_run zs junk es p1 t1 = Inr (p', t', acts2) \<and> acts = acts1 @ acts2)"
  using pl.run_Cons_iff [of zs junk e es "(p, t)" "(p', t')" acts] by (simp add: prop_loop_iff prop_step_iff)

lemma prop_run_inv:
  assumes "prop_run zs junk es p t = Inr (p', t', acts)" and "p_state p \<noteq> P_INIT" and "prop_inv p t"
  shows "prop_inv p' t' \<and> state_rank (p_state p) \<le> state_rank (p_state p') \<and>
   (p_state p \<noteq> P_RUN \<longrightarrow> (\<forall>a \<in> set acts. \<not> sends_buffer a))"
proof -
  have l: "prop_loop zs junk es (p, t) = Inr ((p', t'), acts)" using assms(1) by (simp add: prop_loop_iff)
  have "p_state p \<noteq> P_RUN \<Longrightarrow> 2 \<le> state_rank (p_state p)" using assms(2) by (cases "p_state p") auto
  with pl.run_inv [OF l] pl.run_quiet [OF l] assms(2,3) show ?thesis by auto
qed

lemma no_buffer_after_ack:
  assumes "prop_run zs junk es p t = Inr (p', t', acts)" and "p_state p \<noteq> P_INIT" and "prop_inv p t"
    and "acts = xs @ a # ys" and "sends_term_ack a" and "b \<in> set ys"
  shows "\<not> sends_buffer b"
  using assms
proof (induction es arbitrary: p t acts xs)
  case Nil
  then show ?case by simp
next
  case (Cons e es)
  show ?case
  proof (cases "p_state p = P_TERM")
    case True
    with Cons.prems show ?thesis by (simp add: prop_run_Cons_iff)
  next
    case False
    with Cons.prems(1) obtain p1 t1 acts1 acts2 where
      h: "prop_handle zs junk e p t = Inr (p1, t1, acts1)"
      and r: "prop_run zs junk es p1 t1 = Inr (p', t', acts2)" and a: "acts = acts1 @ acts2"
      unfolding prop_run_Cons_iff by auto
    have run: "running p" using False Cons.prems(2) running_ended by blast
    note st = prop_handle_step [OF h run Cons.prems(3)]
    have st1: "p_state p1 \<noteq> P_INIT" using rank_started st(2) run by blast
    from a Cons.prems(4) consider
      (first) zs where "acts1 = xs @ a # zs" "ys = zs @ acts2"
    | (later) zs where "xs = acts1 @ zs" "acts2 = zs @ a # ys"
      by (auto simp: append_eq_append_conv2 Cons_eq_append_conv)
    then show ?thesis
    proof cases
      case first
      then have "\<exists>a \<in> set acts1. sends_term_ack a" using Cons.prems(5) by auto
      with st(4) have "p_state p1 \<noteq> P_RUN" and "\<forall>a \<in> set acts1. \<not> sends_buffer a" by auto
      with prop_run_inv [OF r st1 st(1)] first Cons.prems(6) show ?thesis by auto
    next
      case later
      from Cons.IH [OF r st1 st(1) later(2) Cons.prems(5,6)] show ?thesis .
    qed
  qed
qed

section \<open>Shutting down\<close>

text \<open>
  The events of a thread in \<open>TERM_PREP\<close>: the timer, the answers of the two receivers, and
  updates that were on their way. A late update log carries a delta, a late buffer belongs to
  a registered table.
\<close>

fun shutdown_event :: "Propagator \<Rightarrow> prop_event \<Rightarrow> bool" where
  "shutdown_event p (PTimer m acks) = (m = ETimerTrigger)"
| "shutdown_event p (PTerm m) = (m = EPRTerminate)"
| "shutdown_event p (PUpdate (MUpdateLog m d)) = (0 < length d \<and> length d < 2147483648)"
| "shutdown_event p (PUpdate (MUpdateBuffer m)) = (um_find (pub_table_id m) (p_table_dir p) \<noteq> None)"
| "shutdown_event p (PUpdate (MPlain m)) = (m = EPRecvInternalTerminateACK)"

fun is_timer :: "prop_event \<Rightarrow> bool" where
  "is_timer (PTimer m acks) = True"
| "is_timer _ = False"

lemma shutdown_handle:
  assumes "shutdown_event p e" and "p_state p = P_TERM_PREP" and "prop_inv p t" and "\<not> p_ds_id p <s 0"
  shows "\<exists>t' acts. prop_handle zmq_ok junk e p t = Inr (exit_if_done p t', t', acts) \<and>
    t_have_stopped_timer_thr t' = (t_have_stopped_timer_thr t \<or> is_timer e) \<and>
    t_have_stopped_recv_thr t' = (t_have_stopped_recv_thr t \<or> e = PUpdate (MPlain EPRecvInternalTerminateACK)) \<and>
    t_have_replied_ds_term t' = (t_have_replied_ds_term t \<or> e = PTerm EPRTerminate)"
  using assms
proof (cases rule: shutdown_event.cases [of "(p, e)"])
  case (3 q m d)
  then have "\<not> may_exit t" using assms(2,3) by (simp add: prop_inv_def)
  with 3 assms show ?thesis by (auto simp: handle_update_log_def Let_def word_sless_alt exit_if_done_def)
next
  case (4 q m)
  then have "\<not> may_exit (t\<lparr>t_update_buffer_cnt := t_update_buffer_cnt t + 1\<rparr>)"
    using assms(2,3) by (simp add: prop_inv_def may_exit_def)
  with 4 assms show ?thesis by (auto simp: handle_update_buffer_def Let_def exit_if_done_def)
qed (auto simp: handle_timer_def flush_empty prop_inv_def store_empty_def Let_def send_term_ack_def
      handle_recv_term_ack_def)

lemma shutdown_event_exit [simp]: "shutdown_event (exit_if_done p t) e = shutdown_event p e"
  by (cases "(p, e)" rule: shutdown_event.cases) auto

lemma shutdown_run:
  "p_state p = P_TERM_PREP \<Longrightarrow> prop_inv p t \<Longrightarrow> \<not> p_ds_id p <s 0 \<Longrightarrow> \<forall>e \<in> set es. shutdown_event p e \<Longrightarrow>
   t_have_stopped_timer_thr t \<or> (\<exists>e \<in> set es. is_timer e) \<Longrightarrow>
   t_have_stopped_recv_thr t \<or> PUpdate (MPlain EPRecvInternalTerminateACK) \<in> set es \<Longrightarrow>
   t_have_replied_ds_term t \<or> PTerm EPRTerminate \<in> set es \<Longrightarrow>
   \<exists>p' t' acts. prop_run zmq_ok junk es p t = Inr (p', t', acts) \<and> p_state p' = P_TERM"
proof (induction es arbitrary: p t)
  case Nil
  then show ?case by (simp add: prop_inv_def may_exit_def)
next
  case (Cons e es)
  have ev: "shutdown_event p e" using Cons.prems(4) by simp
  obtain t1 acts1 where h: "prop_handle zmq_ok junk e p t = Inr (exit_if_done p t1, t1, acts1)"
    and fl: "t_have_stopped_timer_thr t1 = (t_have_stopped_timer_thr t \<or> is_timer e)"
      "t_have_stopped_recv_thr t1 = (t_have_stopped_recv_thr t \<or> e = PUpdate (MPlain EPRecvInternalTerminateACK))"
      "t_have_replied_ds_term t1 = (t_have_replied_ds_term t \<or> e = PTerm EPRTerminate)"
    using shutdown_handle [OF ev Cons.prems(1-3), of junk] by blast
  have run: "running p" using Cons.prems(1) by (simp add: running_def)
  have inv: "prop_inv (exit_if_done p t1) t1" using prop_handle_step(1) [OF h run Cons.prems(2)] .
  show ?case
  proof (cases "may_exit t1")
    case True
    have "prop_run zmq_ok junk es (exit_if_done p t1) t1 = Inr (exit_if_done p t1, t1, [])"
      using True by (cases es) (simp_all add: exit_if_done_state)
    with h Cons.prems(1) True show ?thesis by (simp add: exit_if_done_state)
  next
    case False
    then have e: "exit_if_done p t1 = p" by (simp add: exit_if_done_def)
    have "\<exists>p' t' acts. prop_run zmq_ok junk es p t1 = Inr (p', t', acts) \<and> p_state p' = P_TERM"
      using Cons.prems fl inv e by (intro Cons.IH) auto
    with h e Cons.prems(1) show ?thesis by auto
  qed
qed

section \<open>The properties of the thread\<close>

lemma prop_thr_start_inv:
  "prop_thr_start zs tid pair_in sub_in p0 = Inr (p, t, sent, rest) \<Longrightarrow>
     p_state p = P_RUN \<and> prop_inv p t \<and> p_thrinfo p = p_thrinfo p0 \<and> p_table_dir p = p_table_dir p0 \<and>
     t = prop_thr_init p0"
  by (auto simp: prop_thr_start_def Let_def bindR_Inr_iff prop_inv_def prop_thr_init_def set_timer_endps_def)

text \<open>A propagator of node 1 with the receiver of node 2 downstream and one registered table.\<close>

definition sample_node :: NodeInfo where
  "sample_node = \<lparr>ni_node_id = 2, ni_recv_pull_ip = ''h'', ni_recv_pull_port = ''1'',
     ni_recv_push_ip = ''h'', ni_recv_push_port = ''2''\<rparr>"

definition sample_prop :: "i32 \<Rightarrow> bool \<Rightarrow> Propagator" where
  "sample_prop nanosec loop =
     Propagator_RegisterTable 5 IntAdd 4 loop True
       (Propagator_ctor \<lparr>pt_my_id = 1, pt_nanosec = nanosec, pt_downstream_recv = sample_node,
          pt_internal_pair_p2r_endp = ''p2r'', pt_internal_pair_r2p_endp = ''r2p''\<rparr>)"

lemma sample_thr_start:
  "\<exists>p. prop_thr_start zmq_ok ''7'' [EPRInit] [PropInitACK, PropInitACK, PropStart] (sample_prop nanosec loop) =
     Inr (p, prop_thr_init (sample_prop nanosec loop), [WInit 1, WInitAckAck 1], []) \<and>
     p = set_timer_endps ''7'' (sample_prop nanosec loop)\<lparr>p_state := P_RUN\<rparr>"
  by (simp add: prop_thr_start_def prop_handshake_def sample_prop_def Propagator_RegisterTable_def
      Propagator_ctor_def sample_node_def set_timer_endps_def word_sless_alt)

lemma prop_run_append:
  "prop_run zs junk (es @ es') p t = Inr (p', t', acts) \<longleftrightarrow>
     (\<exists>p1 t1 acts1 acts2. prop_run zs junk es p t = Inr (p1, t1, acts1) \<and>
        prop_run zs junk es' p1 t1 = Inr (p', t', acts2) \<and> acts = acts1 @ acts2)"
proof -
  have "prop_run zs junk (es @ es') p t = Inr (p', t', acts) \<longleftrightarrow> prop_loop zs junk (es @ es') (p, t) = Inr ((p', t'), acts)"
    by (simp add: prop_loop_iff)
  then show ?thesis by (auto simp: pl.run_append bindR_Inr_iff prop_loop_iff)
qed

lemmas sample_simps = prop_thr_init_def sample_prop_def Propagator_RegisterTable_def Propagator_ctor_def
  sample_node_def set_timer_endps_def word_sless_alt handle_internal_terminate_def send_term_ack_def
  handle_recv_term_ack_def exit_if_done_def may_exit_def handle_timer_def timer_cmd_def Let_def

text \<open>
  C12: once the thread has acknowledged the termination message of the downstream
  receiver, it sends that receiver no update buffer any more, whatever events come; this is
  the promise of the termination protocol in \<open>propagator.hpp\<close>.
\<close>

theorem no_buffer_after_term_ack:
  assumes "prop_thr_start zs tid pair_in sub_in p0 = Inr (p, t, sent, rest)"
    and "prop_run zs junk es p t = Inr (p', t', xs @ a # ys)"
    and "sends_term_ack a" and "b \<in> set ys"
  shows "\<not> sends_buffer b"
proof -
  have "p_state p \<noteq> P_INIT" "prop_inv p t" using prop_thr_start_inv [OF assms(1)] by auto
  then show ?thesis using no_buffer_after_ack [OF assms(2) _ _ refl assms(3,4)] by simp
qed

theorem no_buffer_after_term_ack_witness:
  "\<exists>p t sent rest p' t'.
     prop_thr_start zmq_ok ''7'' [EPRInit] [PropInitACK, PropInitACK, PropStart] (sample_prop 100 True) =
       Inr (p, t, sent, rest) \<and>
     prop_run zmq_ok (\<lambda>_. 0) [PTerm EPRTerminate, PUpdate (MPlain EPInternalTerminate)] p t =
       Inr (p', t', [] @ ToDownstream (WTerminateAck 1) # [ToReceiver (RPlain EPRInternalTerminate)]) \<and>
     \<not> sends_buffer (ToReceiver (RPlain EPRInternalTerminate))"
proof -
  obtain p where s: "prop_thr_start zmq_ok ''7'' [EPRInit] [PropInitACK, PropInitACK, PropStart] (sample_prop 100 True) =
     Inr (p, prop_thr_init (sample_prop 100 True), [WInit 1, WInitAckAck 1], [])"
    and p: "p = set_timer_endps ''7'' (sample_prop 100 True)\<lparr>p_state := P_RUN\<rparr>"
    using sample_thr_start by blast
  obtain p' t' where r: "prop_run zmq_ok (\<lambda>_. 0) [PTerm EPRTerminate, PUpdate (MPlain EPInternalTerminate)] p
      (prop_thr_init (sample_prop 100 True)) =
    Inr (p', t', [] @ ToDownstream (WTerminateAck 1) # [ToReceiver (RPlain EPRInternalTerminate)])"
    by (simp add: p sample_simps)
  have "\<not> sends_buffer (ToReceiver (RPlain EPRInternalTerminate))"
    by (rule no_buffer_after_term_ack [OF s r]) simp_all
  with s r show ?thesis by blast
qed

text \<open>
  C15: the state of a started thread only moves along RUN, TERM_PREP, TERM; when it has
  ended, the timer thread has been stopped, the paired receiver has acknowledged, the
  downstream receiver has its answer, and no update is left unsent in the store.
\<close>

theorem thread_ends_when_done:
  assumes "prop_thr_start zs tid pair_in sub_in p0 = Inr (p, t, sent, rest)"
    and "prop_run zs junk es p t = Inr (p', t', acts)"
  shows "p_state p' \<noteq> P_INIT \<and>
    (p_state p' = P_TERM \<longrightarrow> t_have_stopped_timer_thr t' \<and> t_have_stopped_recv_thr t' \<and>
      t_have_replied_ds_term t' \<and> store_empty t') \<and>
    (\<forall>es' p'' t'' acts'. prop_run zs junk (es @ es') p t = Inr (p'', t'', acts') \<longrightarrow>
      state_rank (p_state p') \<le> state_rank (p_state p''))"
proof -
  have st: "p_state p = P_RUN" "p_state p \<noteq> P_INIT" "prop_inv p t"
    using prop_thr_start_inv [OF assms(1)] by auto
  have inv: "prop_inv p' t'" and rank: "1 \<le> state_rank (p_state p')"
    using prop_run_inv [OF assms(2) st(2,3)] st(1) by simp_all
  have started: "p_state p' \<noteq> P_INIT" using rank by auto
  have "state_rank (p_state p') \<le> state_rank (p_state p'')"
    if "prop_run zs junk (es @ es') p t = Inr (p'', t'', acts')" for es' p'' t'' acts'
    using that assms(2) prop_run_inv [OF _ started inv] by (auto simp: prop_run_append bindR_Inr_iff)
  with started inv show ?thesis by (auto simp: prop_inv_def may_exit_def)
qed

theorem thread_ends_when_done_witness:
  "\<exists>p t sent rest p' t' acts.
     prop_thr_start zmq_ok ''7'' [EPRInit] [PropInitACK, PropInitACK, PropStart] (sample_prop 100 True) =
       Inr (p, t, sent, rest) \<and>
     prop_run zmq_ok (\<lambda>_. 0) [PTerm EPRTerminate, PUpdate (MPlain EPInternalTerminate),
         PUpdate (MPlain EPRecvInternalTerminateACK), PTimer ETimerTrigger []] p t = Inr (p', t', acts) \<and>
     p_state p' = P_TERM \<and> t_have_replied_ds_term t'"
proof -
  obtain p where s: "prop_thr_start zmq_ok ''7'' [EPRInit] [PropInitACK, PropInitACK, PropStart] (sample_prop 100 True) =
     Inr (p, prop_thr_init (sample_prop 100 True), [WInit 1, WInitAckAck 1], [])"
    and p: "p = set_timer_endps ''7'' (sample_prop 100 True)\<lparr>p_state := P_RUN\<rparr>"
    using sample_thr_start by blast
  obtain p' t' acts where r: "prop_run zmq_ok (\<lambda>_. 0) [PTerm EPRTerminate, PUpdate (MPlain EPInternalTerminate),
         PUpdate (MPlain EPRecvInternalTerminateACK), PTimer ETimerTrigger []] p
       (prop_thr_init (sample_prop 100 True)) = Inr (p', t', acts)" and e: "p_state p' = P_TERM"
    by (simp add: p sample_simps)
  from thread_ends_when_done [OF s r] e have "t_have_replied_ds_term t'" by blast
  with s r e show ?thesis by blast
qed

lemma handle_internal_terminate_ok:
  assumes "\<not> p_ds_id p <s 0"
  shows "\<exists>t' acts. handle_internal_terminate zmq_ok p t = Inr (p\<lparr>p_state := P_TERM_PREP\<rparr>, t', acts) \<and>
    t_have_replied_ds_term t' = (t_have_replied_ds_term t \<or> t_have_received_ds_term t) \<and>
    t_have_stopped_timer_thr t' = t_have_stopped_timer_thr t \<and>
    t_have_stopped_recv_thr t' = t_have_stopped_recv_thr t"
  using assms by (auto simp: handle_internal_terminate_def Let_def send_term_ack_def)

text \<open>
  C11: the thread ends. After the application's termination message, and with the timer, the
  paired receiver and the downstream receiver doing their part in any order and between any
  late updates, a run reaches TERM and no check fails.
\<close>

theorem thread_terminates:
  assumes "prop_inv p t" and "p_state p = P_RUN" and "\<not> p_ds_id p <s 0"
    and "\<forall>e \<in> set es. shutdown_event p e"
    and "\<exists>e \<in> set es. is_timer e"
    and "PUpdate (MPlain EPRecvInternalTerminateACK) \<in> set es"
    and "t_have_received_ds_term t \<or> PTerm EPRTerminate \<in> set es"
  shows "\<exists>p' t' acts. prop_run zmq_ok junk (PUpdate (MPlain EPInternalTerminate) # es) p t =
    Inr (p', t', acts) \<and> p_state p' = P_TERM"
proof -
  obtain t1 acts1 where h: "prop_handle zmq_ok junk (PUpdate (MPlain EPInternalTerminate)) p t =
      Inr (p\<lparr>p_state := P_TERM_PREP\<rparr>, t1, acts1)"
    and r: "t_have_replied_ds_term t1 = (t_have_replied_ds_term t \<or> t_have_received_ds_term t)"
    using handle_internal_terminate_ok [OF assms(3), of t] by auto
  have inv: "prop_inv (p\<lparr>p_state := P_TERM_PREP\<rparr>) t1"
    using prop_handle_step(1) [OF h _ assms(1)] assms(2) by (simp add: running_def)
  have ev: "shutdown_event (p\<lparr>p_state := P_TERM_PREP\<rparr>) e = shutdown_event p e" for e
    by (cases "(p, e)" rule: shutdown_event.cases) auto
  have "\<exists>p' t' acts. prop_run zmq_ok junk es (p\<lparr>p_state := P_TERM_PREP\<rparr>) t1 = Inr (p', t', acts) \<and> p_state p' = P_TERM"
    by (rule shutdown_run) (use assms inv r ev in auto)
  with h assms(2) show ?thesis by auto
qed

theorem thread_terminates_witness:
  "\<exists>p t p' t' acts. prop_inv p t \<and> p_state p = P_RUN \<and>
     prop_run zmq_ok (\<lambda>_. 0) [PUpdate (MPlain EPInternalTerminate), PTimer ETimerTrigger [],
       PTerm EPRTerminate, PUpdate (MUpdateLog \<lparr>ul_table_id = 5, ul_key = 1, ul_update_type = EInc\<rparr> [1, 0, 0, 0]),
       PUpdate (MPlain EPRecvInternalTerminateACK)] p t = Inr (p', t', acts) \<and> p_state p' = P_TERM"
proof -
  let ?t = "prop_thr_init (sample_prop 100 True)"
  obtain p where s: "prop_thr_start zmq_ok ''7'' [EPRInit] [PropInitACK, PropInitACK, PropStart] (sample_prop 100 True) =
     Inr (p, ?t, [WInit 1, WInitAckAck 1], [])"
    and p: "p = set_timer_endps ''7'' (sample_prop 100 True)\<lparr>p_state := P_RUN\<rparr>"
    using sample_thr_start by blast
  have inv: "p_state p = P_RUN" "prop_inv p ?t" using prop_thr_start_inv [OF s] by auto
  have "\<not> p_ds_id p <s 0" by (simp add: p sample_simps)
  then have "\<exists>p' t' acts. prop_run zmq_ok (\<lambda>_. 0) [PUpdate (MPlain EPInternalTerminate), PTimer ETimerTrigger [],
       PTerm EPRTerminate, PUpdate (MUpdateLog \<lparr>ul_table_id = 5, ul_key = 1, ul_update_type = EInc\<rparr> [1, 0, 0, 0]),
       PUpdate (MPlain EPRecvInternalTerminateACK)] p ?t = Inr (p', t', acts) \<and> p_state p' = P_TERM"
    by (intro thread_terminates inv) simp_all
  with inv show ?thesis by blast
qed

lemma no_timer_step:
  assumes "prop_handle zs junk e p t = Inr (p', t', acts)" and "\<not> is_timer e"
    and "\<not> t_have_stopped_timer_thr t" and "p_state p \<noteq> P_TERM"
  shows "\<not> t_have_stopped_timer_thr t' \<and> p_state p' \<noteq> P_TERM \<and> p_thrinfo p' = p_thrinfo p \<and>
    (\<forall>a \<in> set acts. \<not> sends_buffer a)"
proof (cases e)
  case (PTimer m acks)
  with assms(2) show ?thesis by simp
next
  case (PUpdate m)
  with assms(1) have "handle_update_msg zs m p t = Inr (p', t', acts)" by simp
  then show ?thesis
    by (cases rule: handle_update_msg_cases) (use assms(3,4) in \<open>auto simp: exit_if_done_state may_exit_def\<close>)
next
  case (PTerm m)
  with assms(1) have "handle_term_sub zs m p t = Inr (p', t', acts)" by simp
  then show ?thesis
    by (cases rule: handle_term_sub_cases) (use assms(3,4) in \<open>auto simp: exit_if_done_state may_exit_def\<close>)
qed

lemma no_timer_run:
  assumes "prop_run zs junk es p t = Inr (p', t', acts)" and "\<forall>e \<in> set es. \<not> is_timer e"
    and "\<not> t_have_stopped_timer_thr t" and "p_state p \<noteq> P_TERM"
  shows "p_state p' \<noteq> P_TERM \<and> (\<forall>a \<in> set acts. \<not> sends_buffer a)"
proof -
  have l: "prop_loop zs junk es (p, t) = Inr ((p', t'), acts)" using assms(1) by (simp add: prop_loop_iff)
  have "(\<not> t_have_stopped_timer_thr (snd (p', t')) \<and> p_state (fst (p', t')) \<noteq> P_TERM) \<and> (\<forall>a \<in> set acts. \<not> sends_buffer a)"
    by (rule pl.run_keeps [OF l])
       (use assms(2-4) no_timer_step in \<open>fastforce simp: prop_step_iff\<close>)+
  then show ?thesis by simp
qed

lemma prop_poll_no_timer: "p_nanosec p <=s 0 \<Longrightarrow> prop_poll p timer upd trm = Some e \<Longrightarrow> \<not> is_timer e"
  by (auto simp: prop_poll_def split: if_splits)

text \<open>
  With a batch interval of at most 0, which \<open>DBConfig\<close> describes as no waiting, the
  thread never sends an update buffer and never ends: \<open>poll\<close> gives no timer event, and only
  the timer sends updates and marks the timer thread as stopped.
\<close>

theorem no_interval_never_sends_nor_ends:
  assumes "prop_thr_start zs tid pair_in sub_in p0 = Inr (p, t, sent, rest)"
    and "p_nanosec p <=s 0"
    and "\<forall>e \<in> set es. \<exists>timer upd trm. prop_poll p timer upd trm = Some e"
    and "prop_run zs junk es p t = Inr (p', t', acts)"
  shows "p_state p' \<noteq> P_TERM \<and> (\<forall>a \<in> set acts. \<not> sends_buffer a)"
proof (rule no_timer_run [OF assms(4)])
  show "\<forall>e \<in> set es. \<not> is_timer e" using assms(2,3) prop_poll_no_timer by blast
qed (use prop_thr_start_inv [OF assms(1)] in \<open>auto simp: prop_thr_init_def\<close>)

theorem no_interval_never_sends_nor_ends_witness:
  "\<exists>p t sent rest p' t' acts.
     prop_thr_start zmq_ok ''7'' [EPRInit] [PropInitACK, PropInitACK, PropStart] (sample_prop 0 True) =
       Inr (p, t, sent, rest) \<and>
     prop_run zmq_ok (\<lambda>_. 0) [PTerm EPRTerminate, PUpdate (MPlain EPInternalTerminate),
       PUpdate (MPlain EPRecvInternalTerminateACK)] p t = Inr (p', t', acts) \<and> p_state p' \<noteq> P_TERM"
proof -
  let ?t = "prop_thr_init (sample_prop 0 True)"
  let ?es = "[PTerm EPRTerminate, PUpdate (MPlain EPInternalTerminate), PUpdate (MPlain EPRecvInternalTerminateACK)]"
  obtain p where s: "prop_thr_start zmq_ok ''7'' [EPRInit] [PropInitACK, PropInitACK, PropStart] (sample_prop 0 True) =
     Inr (p, ?t, [WInit 1, WInitAckAck 1], [])"
    and p: "p = set_timer_endps ''7'' (sample_prop 0 True)\<lparr>p_state := P_RUN\<rparr>"
    using sample_thr_start by blast
  obtain p' t' acts where r: "prop_run zmq_ok (\<lambda>_. 0) ?es p ?t = Inr (p', t', acts)"
    by (simp add: p sample_simps)
  have n: "p_nanosec p <=s 0" by (simp add: p sample_simps)
  have "prop_poll p None None (Some EPRTerminate) = Some (PTerm EPRTerminate)"
    "\<And>m. prop_poll p None (Some m) None = Some (PUpdate m)"
    by (simp_all add: prop_poll_def p sample_simps)
  then have "\<forall>e \<in> set ?es. \<exists>timer upd trm. prop_poll p timer upd trm = Some e" by fastforce
  from no_interval_never_sends_nor_ends [OF s n this r] s r show ?thesis by blast
qed

end
