(* ===== verification/Timer_Thr.thy ===== *)
theory Timer_Thr
  imports Propagator_Term
begin

text \<open>
  \<open>src/quiltdb/utils/timer_thr.hpp\<close> and \<open>timer_thr.cpp\<close>: the timer thread, which sleeps for
  an interval, calls back, and takes the next interval from what the callback returns. With
  \<open>Propagator::TimerHandler\<close> as the callback it runs in lock step with the propagator
  thread.
\<close>

section \<open>The timer\<close>

record TimerThrInfo =
  ti_interval :: i32

record NanoTimer =
  nt_tinfo :: TimerThrInfo
  nt_started :: bool

definition NanoTimer_ctor :: "TimerThrInfo \<Rightarrow> NanoTimer" where
  "NanoTimer_ctor info = \<lparr>nt_tinfo = info, nt_started = False\<rparr>"

text \<open>\<open>ret\<close> is the result of \<open>pthread_create\<close>.\<close>

definition NanoTimer_Start :: "int \<Rightarrow> i32 \<Rightarrow> NanoTimer \<Rightarrow> int \<times> NanoTimer" where
  "NanoTimer_Start ret interval t =
     (if nt_started t then (-1, t)
      else if interval <=s 0 then (-1, t)
      else
        let t = t\<lparr>nt_tinfo := \<lparr>ti_interval = interval\<rparr>\<rparr>
        in if ret \<noteq> 0 then (-1, t) else (0, t\<lparr>nt_started := True\<rparr>))"

text \<open>
  The thread: \<open>answers\<close> is what the calls of the callback return, one after the other; a
  call with no answer left does not return. The result is the list of intervals slept.
\<close>

fun TimerThreadMain :: "i32 \<Rightarrow> i32 list \<Rightarrow> i32 list res" where
  "TimerThreadMain interval [] = Inl Blocked"
| "TimerThreadMain interval (a # answers) =
     (if a <=s 0 then Inr [interval]
      else bindR (TimerThreadMain a answers) (\<lambda>slept. Inr (interval # slept)))"

text \<open>The join returns when the thread has ended.\<close>

definition NanoTimer_WaitStop :: "i32 list \<Rightarrow> NanoTimer \<Rightarrow> (int \<times> NanoTimer) res" where
  "NanoTimer_WaitStop answers t =
     (if \<not> nt_started t then Inr (-1, t)
      else bindR (TimerThreadMain (ti_interval (nt_tinfo t)) answers) (\<lambda>_. Inr (0, t\<lparr>nt_started := False\<rparr>)))"

section \<open>In lock step with the propagator\<close>

lemma timer_runs:
  "\<forall>a \<in> set answers. a = n \<Longrightarrow> 0 <s n \<Longrightarrow> last_answer <=s 0 \<Longrightarrow>
     TimerThreadMain n (answers @ [last_answer]) = Inr (replicate (Suc (length answers)) n)"
proof (induction answers)
  case (Cons a answers)
  then have "\<not> a <=s 0" by (simp add: word_sless_alt word_sle_eq)
  with Cons show ?case by simp
qed simp



end
