(* ===== verification/Internal_Table.thy ===== *)
theory Internal_Table
  imports Propagator
begin

text \<open>
  \<open>src/quiltdb/internal_table/internal_table.hpp\<close>, \<open>internal_table.cpp\<close> and
  \<open>src/quiltdb/include/table.hpp\<close>: the table of an application, a concurrent hash map from
  keys to the bytes of a value. Every operation holds the accessor of its one key, so it is
  one atomic step.
\<close>

section \<open>State\<close>

text \<open>A table points to one of the two propagators of the database; a callback is its address.\<close>

datatype prop_ptr = HPropagator | VPropagator

type_synonym cbk_ptr = nat

record TableConfig =
  tcf_vsize :: i32
  tcf_vadd_func :: value_fn
  tcf_vsub_func :: value_fn
  tcf_loop :: bool
  tcf_apply_updates :: bool
  tcf_forward_updates :: bool
  tcf_do_user_cbk :: bool
  tcf_update_buff_cbk :: cbk_ptr

record InternalTable =
  it_table_id :: i32
  it_vsize :: i32
  it_vadd_func :: value_fn
  it_vsub_func :: value_fn
  it_storage :: "i64 \<rightharpoonup> bytes"
  it_propagator :: "prop_ptr option"
  it_loop :: bool
  it_apply_updates :: bool
  it_forward_updates :: bool
  it_do_user_cbk :: bool
  it_update_buff_cbk :: cbk_ptr

section \<open>Operations\<close>

text \<open>The initialiser list does not name \<open>update_buff_cbk_\<close>, which keeps the value \<open>old\<close> of its memory.\<close>

definition InternalTable_ctor :: "cbk_ptr \<Rightarrow> i32 \<Rightarrow> TableConfig \<Rightarrow> InternalTable" where
  "InternalTable_ctor old table_id config =
     \<lparr>it_table_id = table_id,
      it_vsize = tcf_vsize config,
      it_vadd_func = tcf_vadd_func config,
      it_vsub_func = tcf_vsub_func config,
      it_storage = Map.empty,
      it_propagator = None,
      it_loop = tcf_loop config,
      it_apply_updates = tcf_apply_updates config,
      it_forward_updates = tcf_forward_updates config,
      it_do_user_cbk = tcf_do_user_cbk config,
      it_update_buff_cbk = old\<rparr>"

definition InternalTable_GetID :: "InternalTable \<Rightarrow> i32" where
  "InternalTable_GetID t = it_table_id t"

definition ApplyUpdates :: "UpdateBuffer \<Rightarrow> i32 \<Rightarrow> InternalTable \<Rightarrow> int \<times> InternalTable" where
  "ApplyUpdates updates num_bytes t = (0, t)"

definition set_propagator :: "prop_ptr \<Rightarrow> InternalTable \<Rightarrow> InternalTable" where
  "set_propagator prop t = t\<lparr>it_propagator := Some prop\<rparr>"

definition IncRaw :: "i64 \<Rightarrow> bytes \<Rightarrow> InternalTable \<Rightarrow> InternalTable res" where
  "IncRaw key delta t =
     bindR (case it_storage t key of
              None \<Rightarrow> zero_value (it_vsize t)
            | Some v \<Rightarrow> Inr v) (\<lambda>value.
     bindR (call_vfn (it_vadd_func t) value delta (it_vsize t)) (\<lambda>value.
     Inr (t\<lparr>it_storage := (it_storage t)(key \<mapsto> value)\<rparr>)))"

text \<open>\<open>Get<ValueType>\<close> for a type of \<open>n\<close> bytes: the bytes read, and the table.\<close>

definition InternalTable_Get :: "nat \<Rightarrow> i64 \<Rightarrow> InternalTable \<Rightarrow> (bytes \<times> InternalTable) res" where
  "InternalTable_Get n key t =
     (case it_storage t key of
        Some v \<Rightarrow> bindR (mem_read 0 n v) (\<lambda>bs. Inr (bs, t))
      | None \<Rightarrow>
          let v = replicate n 0; t = t\<lparr>it_storage := (it_storage t)(key \<mapsto> v)\<rparr>
          in bindR (mem_read 0 n v) (\<lambda>bs. Inr (bs, t)))"

text \<open>
  \<open>Inc<ValueType>\<close>: the value in the table, then the log message to the propagator, whose
  \<open>int32_t\<close> key parameter takes the low half of the key. The code that \<open>Propagator::Inc\<close>
  returns is dropped.
\<close>

definition InternalTable_Inc ::
  "zmq_lib \<Rightarrow> nat \<Rightarrow> i64 \<Rightarrow> bytes \<Rightarrow> InternalTable \<Rightarrow> Propagator \<Rightarrow> (InternalTable \<times> Propagator) res" where
  "InternalTable_Inc zs thr key delta t p =
     bindR (IncRaw key delta t) (\<lambda>t.
     bindR (Propagator_Inc zs thr (it_table_id t) (ucast key) delta p) (\<lambda>(ret, p).
     Inr (t, p)))"

text \<open>The destructor frees the values.\<close>

definition InternalTable_dtor :: "InternalTable \<Rightarrow> InternalTable" where
  "InternalTable_dtor t = t\<lparr>it_storage := Map.empty\<rparr>"

section \<open>The handle of the application\<close>

text \<open>
  A \<open>Table\<close> is a pointer to an internal table; \<open>tables\<close> is the heap of internal tables, by
  the id under which the database made them.
\<close>

record Table =
  tb_internal_table :: i32

type_synonym tables = "i32 \<rightharpoonup> InternalTable"

definition Table_Get :: "nat \<Rightarrow> i64 \<Rightarrow> Table \<Rightarrow> tables \<Rightarrow> (bytes \<times> tables) res" where
  "Table_Get n key tb heap =
     (case heap (tb_internal_table tb) of
        None \<Rightarrow> Inl Null_pointer
      | Some it \<Rightarrow>
          bindR (InternalTable_Get n key it) (\<lambda>(v, it). Inr (v, heap(tb_internal_table tb \<mapsto> it))))"

definition Table_Inc ::
  "zmq_lib \<Rightarrow> nat \<Rightarrow> i64 \<Rightarrow> bytes \<Rightarrow> Table \<Rightarrow> tables \<Rightarrow> Propagator \<Rightarrow> (tables \<times> Propagator) res" where
  "Table_Inc zs thr key delta tb heap p =
     (case heap (tb_internal_table tb) of
        None \<Rightarrow> Inl Null_pointer
      | Some it \<Rightarrow>
          bindR (InternalTable_Inc zs thr key delta it p) (\<lambda>(it, p).
          Inr (heap(tb_internal_table tb \<mapsto> it), p)))"

definition Table_GetID :: "Table \<Rightarrow> tables \<Rightarrow> i32 res" where
  "Table_GetID tb heap =
     (case heap (tb_internal_table tb) of
        None \<Rightarrow> Inl Null_pointer
      | Some it \<Rightarrow> Inr (InternalTable_GetID it))"

end
