(* ===== verification/Receiver.thy ===== *)
theory Receiver
  imports Internal_Table
begin

text \<open>
  \<open>src/quiltdb/comm/receiver.hpp\<close> and \<open>receiver.cpp\<close>: the object the application calls, and
  the receiver thread, which takes the update buffers of the upstream propagators, removes
  the node's own updates from those that come back round the ring, forwards them to the
  paired propagator, applies them to the tables, and takes part in the handshake and the
  termination protocol.
\<close>

section \<open>State\<close>

datatype ReceiverState = R_INIT | R_RUN | R_TERM_SELF | R_TERM

record ReceiverConfig =
  rc_my_id :: i32
  rc_my_info :: NodeInfo
  rc_num_expected_propagators :: i32
  rc_update_push_endp :: string
  rc_internal_recv_pull_endp :: string
  rc_internal_pair_recv_push_endp :: string

record ReceiverThrInfo =
  rt_my_id :: i32
  rt_my_info :: NodeInfo
  rt_num_expected_propagators :: i32
  rt_update_push_endp :: string
  rt_internal_recv_pull_endp :: string
  rt_internal_pair_recv_push_endp :: string

record PeerPropagatorInfo =
  ppi_has_started :: bool
  ppi_has_replied_termination :: bool

definition PeerPropagatorInfo_ctor :: PeerPropagatorInfo where
  "PeerPropagatorInfo_ctor = \<lparr>ppi_has_started = False, ppi_has_replied_termination = False\<rparr>"

text \<open>
  \<open>r_table_dir\<close> maps a table id to a pointer into the heap of tables; \<open>r_internal_queue\<close> holds
  the messages pushed to the endpoint of \<open>internal_recv_pull_sock\<close>.
\<close>

record Receiver =
  r_state :: ReceiverState
  r_thrinfo :: ReceiverThrInfo
  r_internal_recv_pull_endp :: string
  r_have_signaled_term :: bool
  r_table_dir :: "(i32, i32) umap"
  r_internal_queue :: "receiver_msg list"

abbreviation r_my_id :: "Receiver \<Rightarrow> i32" where
  "r_my_id r \<equiv> rt_my_id (r_thrinfo r)"

abbreviation r_num_expected :: "Receiver \<Rightarrow> i32" where
  "r_num_expected r \<equiv> rt_num_expected_propagators (r_thrinfo r)"

section \<open>Interface to the application threads\<close>

text \<open>The constructor sets the state only; \<open>have_signaled_term_\<close> keeps the value of its memory.\<close>

definition Receiver_ctor :: "ReceiverThrInfo \<Rightarrow> bool \<Rightarrow> Receiver" where
  "Receiver_ctor info signaled =
     \<lparr>r_state = R_INIT, r_thrinfo = info, r_internal_recv_pull_endp = [],
      r_have_signaled_term = signaled, r_table_dir = [], r_internal_queue = []\<rparr>"

definition Receiver_Start :: "int \<Rightarrow> ReceiverConfig \<Rightarrow> Receiver \<Rightarrow> (int \<times> Receiver) res" where
  "Receiver_Start ret config r =
     (if r_state r \<noteq> R_INIT then Inr (-1, r)
      else
        let r = r\<lparr>r_internal_recv_pull_endp := rc_internal_recv_pull_endp config,
                  r_thrinfo := \<lparr>rt_my_id = rc_my_id config,
                                rt_my_info = rc_my_info config,
                                rt_num_expected_propagators = rc_num_expected_propagators config,
                                rt_update_push_endp = rc_update_push_endp config,
                                rt_internal_recv_pull_endp = rc_internal_recv_pull_endp config,
                                rt_internal_pair_recv_push_endp = rc_internal_pair_recv_push_endp config\<rparr>\<rparr>
        in bindR (checkR ''Create receiver thread failed'' (ret = 0)) (\<lambda>_. Inr (0, r)))"

text \<open>\<open>itable\<close> is a pointer into the heap of tables.\<close>

definition Receiver_RegisterTable :: "tables \<Rightarrow> i32 \<Rightarrow> Receiver \<Rightarrow> (int \<times> Receiver) res" where
  "Receiver_RegisterTable heap itable r =
     (if r_state r \<noteq> R_INIT then Inr (-1, r)
      else
        case heap itable of
          None \<Rightarrow> Inl Null_pointer
        | Some it \<Rightarrow>
            let table_id = InternalTable_GetID it
            in Inr (0, r\<lparr>r_table_dir := um_put table_id itable (r_table_dir r)\<rparr>))"

text \<open>The thread-specific socket is reset at the end, so no thread has one at the start.\<close>

definition Receiver_SignalTerm :: "zmq_lib \<Rightarrow> Receiver \<Rightarrow> (int \<times> Receiver) res" where
  "Receiver_SignalTerm zs r =
     (if r_state r \<noteq> R_RUN then Inr (-1, r)
      else
        let (ret, have_sock) = InitThrSockIfHaveNot zs ZMQ_PUSH (r_internal_recv_pull_endp r) False
        in bindR (checkR ''Failed setting term sock'' (ret = 0)) (\<lambda>_.
           bindR (send_checked zs ''Failed sending termination message'' sizeof_enum) (\<lambda>_.
           Inr (0, r\<lparr>r_internal_queue := r_internal_queue r @ [RPlain ERInternalTerminate],
                     r_have_signaled_term := True\<rparr>))))"

definition Receiver_WaitTerm :: "Receiver \<Rightarrow> int res" where
  "Receiver_WaitTerm r =
     (if r_state r = R_INIT then Inr (-1)
      else if \<not> r_have_signaled_term r then Inr (-1)
      else if r_state r \<noteq> R_TERM then Inl Blocked
      else Inr 0)"

section \<open>The receiver thread\<close>

record recv_thr =
  u_my_updates :: "(i32, UpdateBuffer list) umap"
  u_peer_prop_info :: "(i32, PeerPropagatorInfo) umap"
  u_have_received_prop_pair_term :: bool
  u_have_replied_prop_pair_term :: bool

definition recv_thr_init :: recv_thr where
  "recv_thr_init =
     \<lparr>u_my_updates = [], u_peer_prop_info = [],
      u_have_received_prop_pair_term = False, u_have_replied_prop_pair_term = False\<rparr>"

text \<open>
  What the thread sends: to the paired propagator on the pair socket and on its update
  socket, to the subscribed upstream propagators; and the call of the user's callback.
\<close>

datatype recv_act =
    ToPair PropagatorMsgType
  | ToPropagator propagator_msg
  | Publish PropRecvMsgType
  | UserCbk cbk_ptr i32 UpdateBuffer

fun HasAllPeersAckedTerm :: "(i32, PeerPropagatorInfo) umap \<Rightarrow> bool" where
  "HasAllPeersAckedTerm [] = True"
| "HasAllPeersAckedTerm ((nid, info) # peers) =
     (if \<not> ppi_has_replied_termination info then False else HasAllPeersAckedTerm peers)"

subsection \<open>Handshake\<close>

text \<open>Step 1: one \<open>PropInit\<close> per expected propagator; only the size of the message is checked.\<close>

fun init_node_id :: "receiver_wire_msg \<Rightarrow> i32 res" where
  "init_node_id (WInit nid) = Inr nid"
| "init_node_id (WInitAckAck nid) = Inr nid"
| "init_node_id (WTerminateAck nid) = Inr nid"
| "init_node_id (WUpdateBuffer tid data) = Inr tid"
| "init_node_id (WPlain m) = Inl (Check_failed ''RecvMsg failed'')"

fun recv_prop_inits ::
  "nat \<Rightarrow> receiver_wire_msg list \<Rightarrow> (i32, PeerPropagatorInfo) umap
    \<Rightarrow> ((i32, PeerPropagatorInfo) umap \<times> receiver_wire_msg list) res" where
  "recv_prop_inits 0 msgs peers = Inr (peers, msgs)"
| "recv_prop_inits (Suc n) [] peers = Inl Blocked"
| "recv_prop_inits (Suc n) (m # msgs) peers =
     bindR (init_node_id m) (\<lambda>nid.
     recv_prop_inits n msgs
       (um_put nid \<lparr>ppi_has_started = True, ppi_has_replied_termination = False\<rparr> peers))"

text \<open>
  Steps 2 and 3: publish \<open>PropInitACK\<close>, then read what has arrived meanwhile, until the
  expected number of \<open>PropInitACKACK\<close> has come. \<open>arrivals\<close> gives, for each round, the
  messages there are to read; the inner loop stops early when the count is reached and
  leaves the others on the socket.
\<close>

fun recv_ackacks ::
  "i32 \<Rightarrow> i32 \<Rightarrow> receiver_wire_msg list \<Rightarrow> (i32 \<times> receiver_wire_msg list) res" where
  "recv_ackacks expected num [] = Inr (num, [])"
| "recv_ackacks expected num (m # msgs) =
     (case m of
        WInitAckAck nid \<Rightarrow>
          if num + 1 = expected then Inr (num + 1, msgs) else recv_ackacks expected (num + 1) msgs
      | _ \<Rightarrow> Inl (Check_failed ''Received malformed message''))"

fun publish_init_acks ::
  "zmq_lib \<Rightarrow> i32 \<Rightarrow> i32 \<Rightarrow> receiver_wire_msg list list \<Rightarrow> receiver_wire_msg list
    \<Rightarrow> (recv_act list \<times> receiver_wire_msg list) res" where
  "publish_init_acks zs expected num [] left =
     (if num <s expected then Inl Diverges else Inr ([], left))"
| "publish_init_acks zs expected num (arrived # arrivals) left =
     (if num <s expected then
        bindR (send_checked zs ''Send InitAck failed'' sizeof_enum) (\<lambda>_.
        bindR (recv_ackacks expected num (left @ arrived)) (\<lambda>(num, left).
        bindR (publish_init_acks zs expected num arrivals left) (\<lambda>(acts, left).
        Inr (Publish PropInitACK # acts, left))))
      else Inr ([], left @ concat (arrived # arrivals)))"

definition recv_handshake ::
  "zmq_lib \<Rightarrow> receiver_wire_msg list \<Rightarrow> receiver_wire_msg list list \<Rightarrow> Receiver
    \<Rightarrow> (Receiver \<times> recv_thr \<times> recv_act list \<times> receiver_wire_msg list) res" where
  "recv_handshake zs inits arrivals r =
     (let expected = r_num_expected r
      in bindR (send_checked zs ''Send on internal_prop_recv_pair_sock failed'' sizeof_enum) (\<lambda>_.
         if 0 <s expected then
           bindR (recv_prop_inits (nat (sint expected)) inits []) (\<lambda>(peers, left).
           bindR (publish_init_acks zs expected 0 arrivals left) (\<lambda>(acts, left).
           bindR (send_checked zs ''Send PropStart failed'' sizeof_enum) (\<lambda>_.
           Inr (r\<lparr>r_state := R_RUN\<rparr>, recv_thr_init\<lparr>u_peer_prop_info := peers\<rparr>,
                ToPair EPRInit # acts @ [Publish PropStart], left))))
         else Inr (r\<lparr>r_state := R_RUN\<rparr>, recv_thr_init, [ToPair EPRInit], inits)))"

text \<open>The sockets made at the start of the thread, and the start as a whole.\<close>

definition recv_socks :: "Receiver \<Rightarrow> sock_op list" where
  "recv_socks r =
     (let info = r_thrinfo r
      in (if 0 <s r_num_expected r
          then [Bind ZMQ_PULL (tcp_endp (ni_recv_pull_ip (rt_my_info info)) (ni_recv_pull_port (rt_my_info info))),
                Bind ZMQ_PUB (tcp_endp (ni_recv_push_ip (rt_my_info info)) (ni_recv_push_port (rt_my_info info)))]
          else []) @
         [Bind ZMQ_PULL (rt_internal_recv_pull_endp info),
          Connect ZMQ_PUSH (rt_internal_pair_recv_push_endp info),
          Connect ZMQ_PUSH (rt_update_push_endp info)])"

definition recv_thr_start ::
  "zmq_lib \<Rightarrow> receiver_wire_msg list \<Rightarrow> receiver_wire_msg list list \<Rightarrow> Receiver
    \<Rightarrow> (Receiver \<times> recv_thr \<times> recv_act list \<times> receiver_wire_msg list) res" where
  "recv_thr_start zs inits arrivals r =
     bindR (setup_socks zs (recv_socks r)) (\<lambda>_. recv_handshake zs inits arrivals r)"

subsection \<open>A message from inside the process\<close>

text \<open>A message of the internal socket: the propagator's own updates, or a request to end.\<close>

definition handle_my_updates ::
  "zmq_lib \<Rightarrow> MyUpdatesMsg \<Rightarrow> Receiver \<Rightarrow> recv_thr \<Rightarrow> (Receiver \<times> recv_thr \<times> recv_act list) res" where
  "handle_my_updates zs msg r u =
     (let tid = mu_table_id msg;
          u = (if r_state r = R_RUN
               then u\<lparr>u_my_updates :=
                        um_put tid (um_at [] tid (u_my_updates u) @ [mu_update_buffer_ptr msg]) (u_my_updates u)\<rparr>
               else u)
      in bindR (send_checked zs ''send MyUpdateACK failed'' sizeof_enum) (\<lambda>_.
         Inr (r, u, [ToPair EMyUpdatesACK])))"

definition handle_self_terminate ::
  "zmq_lib \<Rightarrow> Receiver \<Rightarrow> recv_thr \<Rightarrow> (Receiver \<times> recv_thr \<times> recv_act list) res" where
  "handle_self_terminate zs r u =
     (let r = r\<lparr>r_state := R_TERM_SELF\<rparr>;
          u = u\<lparr>u_my_updates := map (\<lambda>(tid, bs). (tid, [])) (u_my_updates u)\<rparr>
      in bindR (if u_have_received_prop_pair_term u then
                  bindR (send_checked zs ''CHECK_EQ(ret, sizeof(PropagatorMsgType))'' sizeof_enum) (\<lambda>_.
                  Inr (u\<lparr>u_have_replied_prop_pair_term := True\<rparr>,
                       [ToPropagator (MPlain EPRecvInternalTerminateACK)]))
                else Inr (u, [])) (\<lambda>(u, acts).
         if 0 <s r_num_expected r then
           bindR (send_checked zs ''CHECK_EQ(ret, sizeof(PropRecvMsgType))'' sizeof_enum) (\<lambda>_.
           Inr (r, u, acts @ [Publish EPRTerminate]))
         else Inr (r, u, acts)))"

definition recv_may_exit :: "recv_thr \<Rightarrow> bool" where
  "recv_may_exit u \<longleftrightarrow> HasAllPeersAckedTerm (u_peer_prop_info u) \<and> u_have_replied_prop_pair_term u"

definition recv_exit_if_done :: "Receiver \<Rightarrow> recv_thr \<Rightarrow> Receiver" where
  "recv_exit_if_done r u = (if recv_may_exit u then r\<lparr>r_state := R_TERM\<rparr> else r)"

definition handle_pair_terminate ::
  "zmq_lib \<Rightarrow> Receiver \<Rightarrow> recv_thr \<Rightarrow> (Receiver \<times> recv_thr \<times> recv_act list) res" where
  "handle_pair_terminate zs r u =
     (if r_state r = R_RUN then Inr (r, u\<lparr>u_have_received_prop_pair_term := True\<rparr>, [])
      else if r_state r = R_TERM_SELF then
        bindR (send_checked zs ''Send EPRecvInternalTerminateACK failed'' sizeof_enum) (\<lambda>_.
        let u = u\<lparr>u_have_replied_prop_pair_term := True\<rparr>
        in Inr (recv_exit_if_done r u, u, [ToPropagator (MPlain EPRecvInternalTerminateACK)]))
      else Inl (Log_fatal ''I should not be in this state ''))"

fun handle_internal_msg ::
  "zmq_lib \<Rightarrow> receiver_msg \<Rightarrow> Receiver \<Rightarrow> recv_thr \<Rightarrow> (Receiver \<times> recv_thr \<times> recv_act list) res" where
  "handle_internal_msg zs (MMyUpdates m) r u = handle_my_updates zs m r u"
| "handle_internal_msg zs (RPlain ERInternalTerminate) r u = handle_self_terminate zs r u"
| "handle_internal_msg zs (RPlain EPRInternalTerminate) r u = handle_pair_terminate zs r u"
| "handle_internal_msg zs (RPlain EMyUpdates) r u = Inl (Check_failed ''malformed MyUpdateMsg'')"

subsection \<open>Removing the node's own updates\<close>

text \<open>One update of an own buffer is subtracted from the update of its key in the received buffer.\<close>

definition cancel_update ::
  "value_fn \<Rightarrow> i32 \<Rightarrow> i64 \<times> int \<Rightarrow> UpdateBuffer \<Rightarrow> UpdateBuffer \<Rightarrow> UpdateBuffer res" where
  "cancel_update vsub vsize = (\<lambda>(key, my_ptr) my_b recv_b.
     bindR (GetUpdate key recv_b) (\<lambda>found.
       case found of
         None \<Rightarrow> Inl (Check_failed ''Cannot find update in received buffer key = '')
       | Some recv_ptr \<Rightarrow>
           if sint vsize < 0 then Inl Out_of_bounds
           else
             bindR (ub_read recv_ptr (nat (sint vsize)) recv_b) (\<lambda>recv_delta.
             bindR (ub_read my_ptr (nat (sint vsize)) my_b) (\<lambda>my_delta.
             bindR (call_vfn vsub recv_delta my_delta vsize) (\<lambda>new_delta.
             ub_write recv_ptr new_delta recv_b)))))"

definition cancel_buffer ::
  "value_fn \<Rightarrow> i32 \<Rightarrow> UpdateBuffer \<Rightarrow> UpdateBuffer \<Rightarrow> UpdateBuffer res" where
  "cancel_buffer vsub vsize my_b recv_b =
     (let (ret, my_b') = StartIteration my_b
      in bindR (checkR ''start iteration failed'' (ret = 0)) (\<lambda>_.
         bindR (drain NextUpdate (ub_fuel my_b) (cancel_update vsub vsize) my_b' recv_b) (\<lambda>(my_b, recv_b).
         Inr recv_b)))"

text \<open>
  The \<open>do ... while\<close> over the queue of own buffers: each must lie in the received range and
  start at \<open>seq_num\<close>, which then becomes the end of its range.
\<close>

fun cancel_loop ::
  "value_fn \<Rightarrow> i32 \<Rightarrow> i32 \<Rightarrow> UpdateRange \<Rightarrow> i64 \<Rightarrow> UpdateBuffer list \<Rightarrow> UpdateBuffer
    \<Rightarrow> (UpdateBuffer list \<times> UpdateBuffer) res" where
  "cancel_loop vsub vsize my_id recv_range seq_num [] recv_b = Inl Null_pointer"
| "cancel_loop vsub vsize my_id recv_range seq_num (my_b # queue) recv_b =
     bindR (GetNodeRange my_id my_b) (\<lambda>found.
       case found of
         None \<Rightarrow> Inl (Check_failed ''Cannot find my update range from my update buffer'')
       | Some (st, en) \<Rightarrow>
           bindR (checkR ''My update range is not contained'' (Contains recv_range \<lparr>ur_st = st, ur_end = en\<rparr>)) (\<lambda>_.
           bindR (checkR ''CHECK_EQ(my_update_range.st_, seq_num)'' (st = seq_num)) (\<lambda>_.
           let seq_num = en
           in bindR (cancel_buffer vsub vsize my_b recv_b) (\<lambda>recv_b.
              if seq_num <s ur_end recv_range
              then cancel_loop vsub vsize my_id recv_range seq_num queue recv_b
              else Inr (queue, recv_b)))))"

text \<open>The whole branch \<open>if(recv_found)\<close>.\<close>

definition remove_own_updates ::
  "InternalTable \<Rightarrow> i32 \<Rightarrow> i32 \<Rightarrow> UpdateBuffer \<Rightarrow> recv_thr \<Rightarrow> (UpdateBuffer \<times> recv_thr) res" where
  "remove_own_updates it my_id table_id recv_b u =
     bindR (GetNodeRange my_id recv_b) (\<lambda>found.
       case found of
         None \<Rightarrow> Inr (recv_b, u)
       | Some (st, en) \<Rightarrow>
           (case um_find table_id (u_my_updates u) of
              None \<Rightarrow> Inl (Check_failed ''Cannot find my updates to cancel duplicated updates'')
            | Some queue \<Rightarrow>
                bindR (cancel_loop (it_vsub_func it) (it_vsize it) my_id \<lparr>ur_st = st, ur_end = en\<rparr> st queue recv_b)
                  (\<lambda>(queue, recv_b).
                bindR (DeleteNodeRange my_id recv_b) (\<lambda>(ret, recv_b).
                Inr (recv_b, u\<lparr>u_my_updates := um_put table_id queue (u_my_updates u)\<rparr>)))))"

subsection \<open>An update buffer from upstream\<close>

text \<open>A buffer with no range, or with the node's own range first and nothing after it, is dropped.\<close>

definition range_node_id :: "(i32 \<times> i64 \<times> i64) option \<Rightarrow> i32" where
  "range_node_id item = (case item of None \<Rightarrow> -1 | Some (nid, _) \<Rightarrow> nid)"

definition only_own_ranges :: "i32 \<Rightarrow> UpdateBuffer \<Rightarrow> (bool \<times> UpdateBuffer) res" where
  "only_own_ranges my_id b =
     bindR (NextNodeRange (StartNodeRangeIteration b)) (\<lambda>(item, b).
     bindR (if range_node_id item = my_id then NextNodeRange b else Inr (item, b)) (\<lambda>(item, b).
     Inr (range_node_id item <s 0, b)))"

text \<open>Applying: \<open>IncRaw\<close> of every update; it reads the \<open>vsize\<close> bytes of a value behind the pointer.\<close>

definition apply_update :: "i32 \<Rightarrow> i64 \<times> int \<Rightarrow> UpdateBuffer \<Rightarrow> InternalTable \<Rightarrow> InternalTable res" where
  "apply_update vsize = (\<lambda>(key, ptr) b it.
     bindR (if sint vsize < 0 then Inl Out_of_bounds else ub_read ptr (nat (sint vsize)) b) (\<lambda>delta.
     IncRaw key delta it))"

definition apply_buffer :: "UpdateBuffer \<Rightarrow> InternalTable \<Rightarrow> (UpdateBuffer \<times> InternalTable) res" where
  "apply_buffer b it =
     drain NextUpdate (ub_fuel b) (apply_update (it_vsize it)) (snd (StartIteration b)) it"

definition handle_recv_buffer ::
  "zmq_lib \<Rightarrow> i32 \<Rightarrow> bytes \<Rightarrow> Receiver \<Rightarrow> recv_thr \<Rightarrow> tables
    \<Rightarrow> (Receiver \<times> recv_thr \<times> tables \<times> recv_act list) res" where
  "handle_recv_buffer zs table_id data r u heap =
     bindR (checkR ''Received UpdateBuffer size not positive'' (0 <s (of_nat (length data) :: i32))) (\<lambda>_.
     if r_state r \<noteq> R_RUN then Inr (r, u, heap, [])
     else
       bindR (cast_UpdateBuffer data) (\<lambda>recv_b.
       bindR (only_own_ranges (r_my_id r) recv_b) (\<lambda>(only_own, recv_b).
       if only_own then Inr (r, u, heap, [])
       else
         case um_find table_id (r_table_dir r) of
           None \<Rightarrow> Inl (Check_failed ''table_iter != receiver_ptr->table_dir_.end()'')
         | Some itable \<Rightarrow>
           (case heap itable of
             None \<Rightarrow> Inl Null_pointer
           | Some it \<Rightarrow>
             bindR (remove_own_updates it (r_my_id r) table_id recv_b u) (\<lambda>(recv_b, u).
             bindR (if it_forward_updates it then
                      bindR (send_checked zs ''Send UpdateBuffer to internal propagator failed'' sizeof_PUpdateBufferMsg) (\<lambda>_.
                      Inr [ToPropagator (MUpdateBuffer \<lparr>pub_table_id = table_id, pub_update_buffer_ptr = recv_b\<rparr>)])
                    else Inr []) (\<lambda>forwarded.
             bindR (if it_apply_updates it then apply_buffer recv_b it else Inr (recv_b, it)) (\<lambda>(recv_b, it').
             Inr (r, u, heap(itable \<mapsto> it'),
                  forwarded @ (if it_do_user_cbk it then [UserCbk (it_update_buff_cbk it) table_id recv_b] else [])))))))))"

definition handle_term_ack ::
  "i32 \<Rightarrow> Receiver \<Rightarrow> recv_thr \<Rightarrow> Receiver \<times> recv_thr" where
  "handle_term_ack node_id r u =
     (let info = um_at PeerPropagatorInfo_ctor node_id (u_peer_prop_info u);
          u = u\<lparr>u_peer_prop_info :=
                  um_put node_id (info\<lparr>ppi_has_replied_termination := True\<rparr>) (u_peer_prop_info u)\<rparr>
      in (recv_exit_if_done r u, u))"

fun handle_wire_msg ::
  "zmq_lib \<Rightarrow> receiver_wire_msg \<Rightarrow> Receiver \<Rightarrow> recv_thr \<Rightarrow> tables
    \<Rightarrow> (Receiver \<times> recv_thr \<times> tables \<times> recv_act list) res" where
  "handle_wire_msg zs (WUpdateBuffer tid data) r u heap = handle_recv_buffer zs tid data r u heap"
| "handle_wire_msg zs (WTerminateAck nid) r u heap =
     (let (r, u) = handle_term_ack nid r u in Inr (r, u, heap, []))"
| "handle_wire_msg zs (WInit nid) r u heap = Inl (Log_fatal ''Unrecognized message type '')"
| "handle_wire_msg zs (WInitAckAck nid) r u heap = Inl (Log_fatal ''Unrecognized message type '')"
| "handle_wire_msg zs (WPlain m) r u heap =
     (if m = EPRUpdateBuffer \<or> m = EPRTerminateACK then Inl Out_of_bounds
      else Inl (Log_fatal ''Unrecognized message type ''))"

subsection \<open>The loop\<close>

text \<open>The internal socket comes before the socket of the upstream propagators.\<close>

datatype recv_event =
    RInternal receiver_msg
  | RWire receiver_wire_msg

definition recv_poll :: "Receiver \<Rightarrow> receiver_msg option \<Rightarrow> receiver_wire_msg option \<Rightarrow> recv_event option" where
  "recv_poll r internal wire =
     (if internal \<noteq> None then Some (RInternal (the internal))
      else if 0 <s r_num_expected r \<and> wire \<noteq> None then Some (RWire (the wire))
      else None)"

fun recv_handle ::
  "zmq_lib \<Rightarrow> recv_event \<Rightarrow> Receiver \<Rightarrow> recv_thr \<Rightarrow> tables
    \<Rightarrow> (Receiver \<times> recv_thr \<times> tables \<times> recv_act list) res" where
  "recv_handle zs (RInternal m) r u heap =
     bindR (handle_internal_msg zs m r u) (\<lambda>(r, u, acts). Inr (r, u, heap, acts))"
| "recv_handle zs (RWire m) r u heap = handle_wire_msg zs m r u heap"

fun recv_run ::
  "zmq_lib \<Rightarrow> recv_event list \<Rightarrow> Receiver \<Rightarrow> recv_thr \<Rightarrow> tables
    \<Rightarrow> (Receiver \<times> recv_thr \<times> tables \<times> recv_act list) res" where
  "recv_run zs [] r u heap = Inr (r, u, heap, [])"
| "recv_run zs (e # es) r u heap =
     (if r_state r = R_TERM then Inr (r, u, heap, [])
      else
        bindR (recv_handle zs e r u heap) (\<lambda>(r, u, heap, acts).
        bindR (recv_run zs es r u heap) (\<lambda>(r, u, heap, acts').
        Inr (r, u, heap, acts @ acts'))))"

end
