(* ===== verification/Propagator_Data.thy ===== *)
theory Propagator_Data
  imports Propagator_Term Buffer_Props
begin

text \<open>
  What the propagator thread does to the data: the update store holds, for each key, the
  sum of the deltas that came in, and when the timer fires each table goes downstream in
  one buffer with exactly its updates and the ranges they belong to.
\<close>

section \<open>Collecting updates\<close>

definition deltas_for :: "i64 \<Rightarrow> (i64 \<times> bytes) list \<Rightarrow> bytes list" where
  "deltas_for k log = map snd (filter (\<lambda>(k', d). k' = k) log)"

lemma deltas_for_simps [simp]:
  "deltas_for k [] = []"
  "deltas_for k ((k', d) # log) = (if k' = k then d # deltas_for k log else deltas_for k log)"
  by (simp_all add: deltas_for_def)

lemma deltas_for_append [simp]: "deltas_for k (xs @ ys) = deltas_for k xs @ deltas_for k ys"
  by (simp add: deltas_for_def)

lemma deltas_for_length: "\<forall>u \<in> set log. length (snd u) = n \<Longrightarrow> \<forall>d \<in> set (deltas_for k log). length d = n"
  by (auto simp: deltas_for_def)

text \<open>A store of one table whose values have \<open>n\<close> bytes.\<close>

definition values_ok :: "nat \<Rightarrow> (i64, bytes) umap \<Rightarrow> bool" where
  "values_ok n us \<longleftrightarrow> distinct (um_keys us) \<and> (\<forall>u \<in> set us. length (snd u) = n)"

lemma values_okD: "values_ok n us \<Longrightarrow> um_find k us = Some v \<Longrightarrow> length v = n"
  by (fastforce simp: values_ok_def dest: map_of_SomeD)

lemma set_um_put_subset: "set (um_put k v m) \<subseteq> insert (k, v) (set m)"
  by (induction m) auto

lemma values_ok_put: "values_ok n us \<Longrightarrow> length v = n \<Longrightarrow> values_ok n (um_put k v us)"
  using set_um_put_subset [of k v us] by (auto simp: values_ok_def)

lemma values_ok_at: "values_ok n us \<Longrightarrow> length (um_at (vzero n) k us) = n"
  by (auto simp: um_at_def dest: values_okD split: option.split)

lemma values_ok_Nil [simp]: "values_ok n []"
  by (simp add: values_ok_def)

context value_algebra
begin

lemma AddUpdate_ok:
  assumes "values_ok n us" and "length d = n"
  shows "AddUpdate k d (of_nat n) vadd us = Inr (um_put k (vapp vadd n (um_at (vzero n) k us) d) us)"
  using assms size_bound call_vadd [of _ d]
  by (auto simp: AddUpdate_def um_at_def dest: values_okD split: option.split)

text \<open>Adding a sequence of deltas adds to every key the sum of its deltas.\<close>

lemma add_all_sums:
  assumes "values_ok n us" and "\<forall>u \<in> set log. length (snd u) = n"
  shows "\<exists>us'. foldR (\<lambda>(k, d). AddUpdate k d (of_nat n) vadd) log us = Inr us' \<and> values_ok n us' \<and>
    (\<forall>k. um_find k us' = (if deltas_for k log = [] then um_find k us
       else Some (vapp vadd n (um_at (vzero n) k us) (vsum vadd n (deltas_for k log)))))"
  using assms
proof (induction log arbitrary: us)
  case Nil
  then show ?case by simp
next
  case (Cons u log)
  obtain k d where u: "u = (k, d)" by (cases u)
  have len: "length d = n" "\<forall>u \<in> set log. length (snd u) = n" using Cons.prems(2) u by auto
  let ?v = "vapp vadd n (um_at (vzero n) k us) d"
  have lv: "length ?v = n" using values_ok_at [OF Cons.prems(1)] len by (simp add: vadd_length)
  obtain us' where us': "foldR (\<lambda>(k, d). AddUpdate k d (of_nat n) vadd) log (um_put k ?v us) = Inr us'"
    "values_ok n us'"
    "\<forall>k'. um_find k' us' = (if deltas_for k' log = [] then um_find k' (um_put k ?v us)
       else Some (vapp vadd n (um_at (vzero n) k' (um_put k ?v us)) (vsum vadd n (deltas_for k' log))))"
    using Cons.IH [OF values_ok_put [OF Cons.prems(1) lv] len(2)] by blast
  have sum: "vapp vadd n ?v (vsum vadd n (deltas_for k log)) =
      vapp vadd n (um_at (vzero n) k us) (vsum vadd n (d # deltas_for k log))"
    using values_ok_at [OF Cons.prems(1)] len deltas_for_length [OF len(2)]
    by (simp add: vsum_Cons vadd_assoc)
  have "um_find k' us' = (if deltas_for k' (u # log) = [] then um_find k' us
       else Some (vapp vadd n (um_at (vzero n) k' us) (vsum vadd n (deltas_for k' (u # log)))))" for k'
    using us'(3) sum len(1) by (auto simp: u vsum_single)
  with us'(1,2) show ?case
    by (auto simp: u AddUpdate_ok [OF Cons.prems(1) len(1)])
qed

end

section \<open>Update logs\<close>

definition log_event :: "i32 \<Rightarrow> i64 \<times> bytes \<Rightarrow> prop_event" where
  "log_event tid = (\<lambda>(k, d). PUpdate (MUpdateLog \<lparr>ul_table_id = tid, ul_key = k, ul_update_type = EInc\<rparr> d))"

definition store_at :: "i32 \<Rightarrow> prop_thr \<Rightarrow> (i64, bytes) umap" where
  "store_at tid t = um_at [] tid (t_update_store t)"

definition own_at :: "i32 \<Rightarrow> prop_thr \<Rightarrow> (i64, bytes) umap" where
  "own_at tid t = um_at [] tid (t_my_store t)"

definition range_at :: "i32 \<Rightarrow> prop_thr \<Rightarrow> UpdateRange" where
  "range_at tid t = um_at default_range tid (t_my_range t)"

definition peers_at :: "i32 \<Rightarrow> prop_thr \<Rightarrow> (i32, UpdateRange) umap" where
  "peers_at tid t = um_at [] tid (t_peers_range t)"

lemmas at_defs = store_at_def own_at_def range_at_def peers_at_def

text \<open>The table \<open>tid\<close> is registered with the value function and the size \<open>n\<close>.\<close>

definition registered :: "Propagator \<Rightarrow> i32 \<Rightarrow> value_fn \<Rightarrow> nat \<Rightarrow> bool" where
  "registered p tid vadd n \<longleftrightarrow>
     (\<exists>ti. um_find tid (p_table_dir p) = Some ti \<and> ti_vadd_func ti = vadd \<and> ti_update_size ti = of_nat n)"

text \<open>No other table than \<open>tid\<close> has updates waiting.\<close>

definition only_table :: "i32 \<Rightarrow> prop_thr \<Rightarrow> bool" where
  "only_table tid t \<longleftrightarrow> distinct (um_keys (t_update_store t)) \<and>
     (\<forall>(k, us) \<in> set (t_update_store t). k \<noteq> tid \<longrightarrow> us = [])"

lemma only_table_same:
  "only_table tid t \<Longrightarrow> t_update_store t' = t_update_store t \<Longrightarrow> only_table tid t'"
  by (simp add: only_table_def)

lemma only_table_put:
  "only_table tid t \<Longrightarrow> t_update_store t' = um_put tid us (t_update_store t) \<Longrightarrow> only_table tid t'"
  using set_um_put_subset [of tid us "t_update_store t"] by (auto simp: only_table_def)

context value_algebra
begin

lemma handle_update_log_ok:
  assumes "p_state p = P_RUN" and "0 <s p_nanosec p" and "registered p tid vadd n" and "0 < n"
    and "values_ok n (store_at tid t)" and "values_ok n (own_at tid t)" and "length d = n"
  shows "\<exists>t'. prop_handle zs junk (log_event tid (k, d)) p t = Inr (p, t', []) \<and>
    AddUpdate k d (of_nat n) vadd (store_at tid t) = Inr (store_at tid t') \<and>
    (if table_loop tid p then AddUpdate k d (of_nat n) vadd (own_at tid t) = Inr (own_at tid t')
     else own_at tid t' = own_at tid t) \<and>
    range_at tid t' = (range_at tid t)\<lparr>ur_end := ur_end (range_at tid t) + 1\<rparr> \<and>
    t_peers_range t' = t_peers_range t \<and> t_update_store t' = um_put tid (store_at tid t') (t_update_store t)"
proof -
  from assms(3) obtain ti where ti: "um_find tid (p_table_dir p) = Some ti" "ti_vadd_func ti = vadd"
    by (auto simp: registered_def)
  have len: "(of_nat (length d) :: i32) = of_nat n" "0 <s (of_nat n :: i32)"
    using assms(4,7) size_bound by (simp_all add: word_sless_alt)
  have run: "\<not> p_nanosec p <=s 0" using assms(2) by (simp add: word_sless_alt word_sle_eq)
  note add = AddUpdate_ok [OF assms(5,7) [unfolded at_defs], of k] AddUpdate_ok [OF assms(6,7) [unfolded at_defs], of k]
  show ?thesis
    by (cases "ti_loop ti")
       (simp_all add: log_event_def handle_update_log_def at_defs table_loop_def Let_def assms(1) ti len run add)
qed

lemma log_run:
  assumes "p_state p = P_RUN" and "0 <s p_nanosec p" and "registered p tid vadd n" and "0 < n"
    and "\<forall>u \<in> set log. length (snd u) = n"
  shows "values_ok n (store_at tid t) \<Longrightarrow> values_ok n (own_at tid t) \<Longrightarrow>
    \<exists>t'. prop_run zs junk (map (log_event tid) log) p t = Inr (p, t', []) \<and>
      foldR (\<lambda>(k, d). AddUpdate k d (of_nat n) vadd) log (store_at tid t) = Inr (store_at tid t') \<and>
      (if table_loop tid p then foldR (\<lambda>(k, d). AddUpdate k d (of_nat n) vadd) log (own_at tid t) = Inr (own_at tid t')
       else own_at tid t' = own_at tid t) \<and>
      range_at tid t' = (range_at tid t)\<lparr>ur_end := ur_end (range_at tid t) + of_nat (length log)\<rparr> \<and>
      t_peers_range t' = t_peers_range t \<and> (only_table tid t \<longrightarrow> only_table tid t')"
  using assms(5)
proof (induction log arbitrary: t)
  case Nil
  then show ?case by simp
next
  case (Cons u log)
  obtain k d where u: "u = (k, d)" by (cases u)
  have len: "length d = n" "\<forall>u \<in> set log. length (snd u) = n" using Cons.prems(3) u by auto
  from handle_update_log_ok [OF assms(1-4) Cons.prems(1,2) len(1), of zs junk k] obtain t1 where
    h: "prop_handle zs junk (log_event tid (k, d)) p t = Inr (p, t1, [])"
    and a: "AddUpdate k d (of_nat n) vadd (store_at tid t) = Inr (store_at tid t1)"
    and o: "if table_loop tid p then AddUpdate k d (of_nat n) vadd (own_at tid t) = Inr (own_at tid t1)
       else own_at tid t1 = own_at tid t"
    and r: "range_at tid t1 = (range_at tid t)\<lparr>ur_end := ur_end (range_at tid t) + 1\<rparr>"
    and q: "t_peers_range t1 = t_peers_range t" "t_update_store t1 = um_put tid (store_at tid t1) (t_update_store t)"
    by blast
  have ot: "only_table tid t \<longrightarrow> only_table tid t1" using only_table_put [OF _ q(2)] by blast
  have put: "values_ok n (um_put k (vapp vadd n (um_at (vzero n) k us) d) us)" if "values_ok n us" for us
    using that len(1) by (intro values_ok_put vadd_length values_ok_at)
  have v1: "values_ok n (store_at tid t1)"
    using a put [OF Cons.prems(1)] by (simp add: AddUpdate_ok [OF Cons.prems(1) len(1)])
  have v2: "values_ok n (own_at tid t1)"
    using o put [OF Cons.prems(2)] Cons.prems(2)
    by (auto simp: AddUpdate_ok [OF Cons.prems(2) len(1)] split: if_splits)
  from Cons.IH [OF v1 v2 len(2)] obtain t' where
    "prop_run zs junk (map (log_event tid) log) p t1 = Inr (p, t', [])"
    "foldR (\<lambda>(k, d). AddUpdate k d (of_nat n) vadd) log (store_at tid t1) = Inr (store_at tid t')"
    "if table_loop tid p then foldR (\<lambda>(k, d). AddUpdate k d (of_nat n) vadd) log (own_at tid t1) = Inr (own_at tid t')
       else own_at tid t' = own_at tid t1"
    "range_at tid t' = (range_at tid t1)\<lparr>ur_end := ur_end (range_at tid t1) + of_nat (length log)\<rparr>"
    "t_peers_range t' = t_peers_range t1" "only_table tid t1 \<longrightarrow> only_table tid t'"
    by blast
  with h a o r q(1) ot assms(1) show ?case
    by (intro exI [of _ t']) (auto simp: u add.assoc split: if_splits)
qed

end

text \<open>
  C9: in a running thread, after a sequence of update logs of one table the store holds for
  every key that was updated the old value plus the sum of the key's deltas, and the old
  value for every other key; the node's own range has grown by the number of logs. With
  the loop option the node's own store holds the same sums.
\<close>

theorem update_logs_summed:
  assumes "value_algebra vadd vsub n" and "0 < n"
    and "p_state p = P_RUN" and "0 <s p_nanosec p" and "registered p tid vadd n"
    and "\<forall>u \<in> set log. length (snd u) = n"
    and "values_ok n (store_at tid t)" and "values_ok n (own_at tid t)"
  shows "\<exists>t'. prop_run zs junk (map (log_event tid) log) p t = Inr (p, t', []) \<and>
    (\<forall>k. um_find k (store_at tid t') =
       (if deltas_for k log = [] then um_find k (store_at tid t)
        else Some (vapp vadd n (um_at (vzero n) k (store_at tid t)) (vsum vadd n (deltas_for k log))))) \<and>
    (table_loop tid p \<longrightarrow> (\<forall>k. um_find k (own_at tid t') =
       (if deltas_for k log = [] then um_find k (own_at tid t)
        else Some (vapp vadd n (um_at (vzero n) k (own_at tid t)) (vsum vadd n (deltas_for k log)))))) \<and>
    range_at tid t' = (range_at tid t)\<lparr>ur_end := ur_end (range_at tid t) + of_nat (length log)\<rparr>"
proof -
  note sums = value_algebra.add_all_sums [OF assms(1) _ assms(6)]
  from value_algebra.log_run [OF assms(1) assms(3-5) assms(2,6-8)] obtain t' where
    r: "prop_run zs junk (map (log_event tid) log) p t = Inr (p, t', [])"
    and s: "foldR (\<lambda>(k, d). AddUpdate k d (of_nat n) vadd) log (store_at tid t) = Inr (store_at tid t')"
    and o: "if table_loop tid p
       then foldR (\<lambda>(k, d). AddUpdate k d (of_nat n) vadd) log (own_at tid t) = Inr (own_at tid t')
       else own_at tid t' = own_at tid t"
    and e: "range_at tid t' = (range_at tid t)\<lparr>ur_end := ur_end (range_at tid t) + of_nat (length log)\<rparr>"
    by blast
  show ?thesis
    using r s o e sums [OF assms(7)] sums [OF assms(8)] by (intro exI [of _ t']) auto
qed

theorem update_logs_summed_witness:
  "\<exists>p t t'. prop_run zmq_ok (\<lambda>_. 0) (map (log_event 5) [(1, [2, 0, 0, 0]), (9, [1, 0, 0, 0]), (1, [3, 0, 0, 0])]) p t =
       Inr (p, t', []) \<and>
     um_find 1 (store_at 5 t') = Some [5, 0, 0, 0] \<and> um_find 9 (store_at 5 t') = Some [1, 0, 0, 0] \<and>
     um_find 2 (store_at 5 t') = None \<and> range_at 5 t' = \<lparr>ur_st = 0, ur_end = 2\<rparr>"
proof -
  let ?p = "(sample_prop 100 True)\<lparr>p_state := P_RUN\<rparr>"
  let ?t = "prop_thr_init (sample_prop 100 True)"
  let ?log = "[(1, [2, 0, 0, 0]), (9, [1, 0, 0, 0]), (1, [3, 0, 0, 0])]"
  have empty: "store_at 5 ?t = []" "own_at 5 ?t = []" "range_at 5 ?t = \<lparr>ur_st = 0, ur_end = -1\<rparr>"
    by (simp_all add: at_defs sample_simps um_at_def empty_range_def)
  obtain t' where t': "prop_run zmq_ok (\<lambda>_. 0) (map (log_event 5) ?log) ?p ?t = Inr (?p, t', [])"
    "\<forall>k. um_find k (store_at 5 t') =
       (if deltas_for k ?log = [] then um_find k (store_at 5 ?t)
        else Some (vapp IntAdd 4 (um_at (vzero 4) k (store_at 5 ?t)) (vsum IntAdd 4 (deltas_for k ?log))))"
    "range_at 5 t' = (range_at 5 ?t)\<lparr>ur_end := ur_end (range_at 5 ?t) + of_nat (length ?log)\<rparr>"
    using update_logs_summed [of IntAdd IntSub 4 ?p 5 ?log ?t zmq_ok "\<lambda>_. 0"] int_value.value_algebra_axioms empty
    by (auto simp: sample_simps registered_def)
  have sums: "vapp IntAdd 4 (vzero 4) (vsum IntAdd 4 [[2, 0, 0, 0], [3, 0, 0, 0]]) = [5, 0, 0, 0]"
    "vapp IntAdd 4 (vzero 4) (vsum IntAdd 4 [[1, 0, 0, 0]]) = [1, 0, 0, 0]"
    by code_simp+
  show ?thesis
    by (rule exI [of _ ?p], rule exI [of _ ?t], rule exI [of _ t'])
       (simp add: t' empty sums um_at_def del: prop_run.simps list.map)
qed

section \<open>Building a buffer\<close>

definition active_range :: "UpdateRange \<Rightarrow> bool" where
  "active_range r \<longleftrightarrow> ur_st r <=s ur_end r"

definition active_ranges :: "(i32, UpdateRange) umap \<Rightarrow> (i32 \<times> i64 \<times> i64) list" where
  "active_ranges peers =
     map (\<lambda>(nid, r). (nid, ur_st r, ur_end r)) (filter (\<lambda>(nid, r). active_range r) peers)"

definition own_range :: "i32 \<Rightarrow> UpdateRange \<Rightarrow> (i32 \<times> i64 \<times> i64) list" where
  "own_range my_id r = (if active_range r then [(my_id, ur_st r, ur_end r)] else [])"

definition flush_range :: "UpdateRange \<Rightarrow> UpdateRange" where
  "flush_range r = (if active_range r then r\<lparr>ur_st := ur_end r + 1\<rparr> else r)"

abbreviation free_slots :: "nat \<Rightarrow> (i32 \<times> i64 \<times> i64) list" where
  "free_slots k \<equiv> replicate k (-1, -1, -1)"

lemma replace_first_free:
  "\<forall>r \<in> set used. fst r \<noteq> -1 \<Longrightarrow>
     replace_first (-1) x (used @ free_slots (Suc k)) = used @ x # free_slots k"
  by (induction used) auto

lemma nonneg_not_free: "\<not> n <s 0 \<Longrightarrow> n \<noteq> (-1 :: i32)"
  by auto

text \<open>A new node takes the first free slot.\<close>

lemma UpdateNodeRange_new:
  assumes "ub_rep a b" and "a_ranges a = used @ free_slots (Suc k)"
    and "n \<notin> fst ` set used" and "\<not> n <s 0" and "\<forall>r \<in> set used. \<not> fst r <s 0"
  shows "\<exists>b'. UpdateNodeRange n s e b = Inr (0, b') \<and>
    ub_rep (a\<lparr>a_ranges := used @ (n, s, e) # free_slots k\<rparr>) b'"
proof -
  have "n \<notin> fst ` set (a_ranges a)" "-1 \<in> fst ` set (a_ranges a)"
    using assms(2,3) nonneg_not_free [OF assms(4)] by auto
  moreover have "replace_first (-1) (n, s, e) (a_ranges a) = used @ (n, s, e) # free_slots k"
    using replace_first_free [of used "(n, s, e)" k] assms(2,5) nonneg_not_free by metis
  ultimately have "a_update_range n s e a = (0, a\<lparr>a_ranges := used @ (n, s, e) # free_slots k\<rparr>)"
    by (simp add: a_update_range_def)
  with UpdateNodeRange_rep [OF assms(1), of n s e] show ?thesis by simp
qed

lemma add_peer_ranges_rep:
  assumes "distinct (map fst used @ um_keys peers)" and "\<forall>r \<in> set used. \<not> fst r <s 0"
    and "\<forall>m \<in> set (um_keys peers). \<not> m <s 0"
  shows "ub_rep a b \<Longrightarrow> a_ranges a = used @ free_slots (length peers + k) \<Longrightarrow>
    \<exists>b' j. add_peer_ranges peers b = Inr (map (\<lambda>(nid, r). (nid, flush_range r)) peers, b') \<and>
      ub_rep (a\<lparr>a_ranges := (used @ active_ranges peers) @ free_slots (j + k)\<rparr>) b'"
  using assms
proof (induction peers arbitrary: used a b k)
  case Nil
  have "a\<lparr>a_ranges := used @ free_slots k\<rparr> = a" using Nil.prems(2) by (cases a) simp
  with Nil.prems(1) show ?case by (intro exI [of _ b] exI [of _ 0]) (simp add: active_ranges_def)
next
  case (Cons x peers)
  obtain nid r where x: "x = (nid, r)" by (cases x)
  show ?case
  proof (cases "active_range r")
    case True
    have "a_ranges a = used @ free_slots (Suc (length peers + k))" using Cons.prems(2) by simp
    from UpdateNodeRange_new [OF Cons.prems(1) this, of nid "ur_st r" "ur_end r"] Cons.prems(3-5) x
    obtain b1 where 1: "UpdateNodeRange nid (ur_st r) (ur_end r) b = Inr (0, b1)"
      and rep: "ub_rep (a\<lparr>a_ranges := used @ (nid, ur_st r, ur_end r) # free_slots (length peers + k)\<rparr>) b1"
      by auto
    from Cons.IH [OF rep, of "used @ [(nid, ur_st r, ur_end r)]"] Cons.prems(3-5) x
    obtain b' j where "add_peer_ranges peers b1 = Inr (map (\<lambda>(nid, r). (nid, flush_range r)) peers, b')"
      "ub_rep (a\<lparr>a_ranges := (used @ [(nid, ur_st r, ur_end r)] @ active_ranges peers) @ free_slots (j + k)\<rparr>) b'"
      by auto
    with 1 True show ?thesis
      by (intro exI [of _ b'] exI [of _ j]) (auto simp: x active_range_def active_ranges_def flush_range_def)
  next
    case False
    from Cons.IH [OF Cons.prems(1), of used "Suc k"] Cons.prems(2-5) x
    obtain b' j where "add_peer_ranges peers b = Inr (map (\<lambda>(nid, r). (nid, flush_range r)) peers, b')"
      "ub_rep (a\<lparr>a_ranges := (used @ active_ranges peers) @ free_slots (j + Suc k)\<rparr>) b'"
      by auto
    with False show ?thesis
      by (intro exI [of _ b'] exI [of _ "Suc j"]) (simp add: x active_range_def active_ranges_def flush_range_def)
  qed
qed


lemma active_ranges_ids: "r \<in> set (active_ranges peers) \<Longrightarrow> fst r \<in> set (um_keys peers)"
  by (force simp: active_ranges_def)

text \<open>The node ids of a buffer: this node and its peers, all different and not negative.\<close>

definition ids_ok :: "i32 \<Rightarrow> (i32, UpdateRange) umap \<Rightarrow> bool" where
  "ids_ok my_id peers \<longleftrightarrow> distinct (my_id # um_keys peers) \<and> (\<forall>m \<in> set (my_id # um_keys peers). \<not> m <s 0)"

lemma takeWhile_used_free:
  "\<forall>r \<in> set used. \<not> fst r <s 0 \<Longrightarrow>
     takeWhile (\<lambda>r. \<not> fst r <s (0 :: i32)) (used @ free_slots k) = used"
  by (cases k) (auto simp: takeWhile_append2)

text \<open>What a buffer of the given size can hold; the size is the one \<open>GetBuffSize\<close> computes.\<close>

definition fits :: "nat \<Rightarrow> nat \<Rightarrow> nat \<Rightarrow> bool" where
  "fits n num_updates num_ranges \<longleftrightarrow> 44 + 20 * num_ranges + (8 + n) * num_updates < 2147483648"

lemma create_append_all:
  assumes "fits n (length us) nr" and "\<forall>u \<in> set us. length (snd u) = n"
  shows "\<exists>b a. bindR (CreateUpdateBuffer junk (of_nat n) (of_nat (length us)) (of_nat nr)) (append_all AppendUpdate us) = Inr b \<and>
    ub_rep a b \<and> a_upds a = us \<and> a_ranges a = free_slots nr \<and> a_usize a = n"
proof -
  obtain b r where c: "CreateUpdateBuffer junk (of_nat n) (of_nat (length us)) (of_nat nr) = Inr b"
    and rep: "ub_rep (empty_abuf n (length us) nr r) b"
    using CreateUpdateBuffer_rep assms(1) unfolding fits_def by blast
  obtain b' where "append_all AppendUpdate us b = Inr b'"
    and "ub_rep (empty_abuf n (length us) nr r\<lparr>a_upds := us\<rparr>) b'"
    using ub.append_all_rep [OF rep, of us] assms(2) by (auto simp: empty_abuf_def)
  with c show ?thesis by (intro exI [of _ b'] exI [of _ "empty_abuf n (length us) nr r\<lparr>a_upds := us\<rparr>"])
    (simp add: empty_abuf_def)
qed

text \<open>
  The buffer for one table holds the updates of the store, the active ranges of the peers
  and the node's own range.
\<close>

lemma build_update_buffer_rep:
  assumes "fits n (length us) (Suc (length peers))" and "\<forall>u \<in> set us. length (snd u) = n"
    and "ids_ok my_id peers"
  shows "\<exists>a b. build_update_buffer junk my_id (of_nat n) us peers r =
      Inr (map (\<lambda>(nid, r). (nid, flush_range r)) peers, b) \<and>
    ub_rep a b \<and> a_upds a = us \<and> a_usize a = n \<and> buffer_ranges b = Inr (active_ranges peers @ own_range my_id r) \<and>
    (\<exists>j. a_ranges a = (active_ranges peers @ own_range my_id r) @ free_slots j)"
proof -
  have nr: "(of_nat (length peers) + 1 :: i32) = of_nat (Suc (length peers))" by simp
  obtain a b where ab: "bindR (CreateUpdateBuffer junk (of_nat n) (of_nat (length us)) (of_nat (length peers) + 1))
      (append_all AppendUpdate us) = Inr b"
    "ub_rep a b" "a_upds a = us" "a_ranges a = [] @ free_slots (length peers + 1)" "a_usize a = n"
    using create_append_all [OF assms(1,2), of junk] unfolding nr by auto
  obtain b1 j where b1: "add_peer_ranges peers b = Inr (map (\<lambda>(nid, r). (nid, flush_range r)) peers, b1)"
    and rep1: "ub_rep (a\<lparr>a_ranges := ([] @ active_ranges peers) @ free_slots (j + 1)\<rparr>) b1"
    using add_peer_ranges_rep [of "[]" peers, OF _ _ _ ab(2,4)] assms(3) by (auto simp: ids_ok_def)
  have used: "\<forall>r \<in> set (active_ranges peers). \<not> fst r <s 0" "my_id \<notin> fst ` set (active_ranges peers)"
    "\<not> my_id <s 0"
    using active_ranges_ids [of _ peers] assms(3) by (auto simp: ids_ok_def dest!: active_ranges_ids)
  have pre: "build_update_buffer junk my_id (of_nat n) us peers r =
      (if active_range r then
         bindR (UpdateNodeRange my_id (ur_st r) (ur_end r) b1) (\<lambda>(ret, b).
         bindR (checkR ''CHECK_EQ(ret, 0)'' (ret = 0)) (\<lambda>_.
         Inr (map (\<lambda>(nid, r). (nid, flush_range r)) peers, b)))
       else Inr (map (\<lambda>(nid, r). (nid, flush_range r)) peers, b1))"
    using ab(1) b1 by (auto simp: build_update_buffer_def bindR_Inr_iff active_range_def)
  show ?thesis
  proof (cases "active_range r")
    case True
    have "a_ranges (a\<lparr>a_ranges := ([] @ active_ranges peers) @ free_slots (j + 1)\<rparr>) = active_ranges peers @ free_slots (Suc j)"
      by simp
    from UpdateNodeRange_new [OF rep1 this used(2,3,1), of "ur_st r" "ur_end r"] obtain b2 where
      "UpdateNodeRange my_id (ur_st r) (ur_end r) b1 = Inr (0, b2)"
      "ub_rep (a\<lparr>a_ranges := active_ranges peers @ (my_id, ur_st r, ur_end r) # free_slots j\<rparr>) b2"
      by auto
    then show ?thesis
      using True used ab(3,5) takeWhile_used_free [of "active_ranges peers @ [(my_id, ur_st r, ur_end r)]" j]
      by (auto simp: pre own_range_def buffer_ranges_rep
          intro!: exI [of _ "a\<lparr>a_ranges := active_ranges peers @ (my_id, ur_st r, ur_end r) # free_slots j\<rparr>"])
  next
    case False
    moreover have "\<exists>i. active_ranges peers @ free_slots (j + 1) = active_ranges peers @ free_slots i" by blast
    ultimately show ?thesis
      using rep1 used(1) ab(3,5) takeWhile_used_free [of "active_ranges peers" "Suc j"]
      by (auto simp: pre own_range_def buffer_ranges_rep
          intro!: exI [of _ "a\<lparr>a_ranges := active_ranges peers @ free_slots (Suc j)\<rparr>"])
  qed
qed

section \<open>Sending a table\<close>

lemma build_my_update_buffer_rep:
  assumes "fits n (length ms) 1" and "\<forall>u \<in> set ms. length (snd u) = n"
    and "\<not> my_id <s 0" and "active_range r"
  shows "\<exists>a b. build_my_update_buffer junk my_id (of_nat n) ms r = Inr b \<and> ub_rep a b \<and> a_upds a = ms \<and>
    a_usize a = n \<and> GetNodeRange my_id b = Inr (Some (ur_st r, ur_end r))"
proof -
  obtain a b where ab: "bindR (CreateUpdateBuffer junk (of_nat n) (of_nat (length ms)) 1) (append_all AppendUpdate ms) = Inr b"
    "ub_rep a b" "a_upds a = ms" "a_ranges a = [] @ free_slots (Suc 0)" "a_usize a = n"
    using create_append_all [OF assms(1,2), of junk] by auto
  obtain b' where "UpdateNodeRange my_id (ur_st r) (ur_end r) b = Inr (0, b')"
    and rep: "ub_rep (a\<lparr>a_ranges := [] @ (my_id, ur_st r, ur_end r) # free_slots 0\<rparr>) b'"
    using UpdateNodeRange_new [OF ab(2,4) _ assms(3)] by auto
  moreover have "build_my_update_buffer junk my_id (of_nat n) ms r =
      bindR (UpdateNodeRange my_id (ur_st r) (ur_end r) b) (\<lambda>(ret, b). Inr b)"
    using ab(1) assms(4) by (auto simp: build_my_update_buffer_def bindR_Inr_iff active_range_def)
  ultimately show ?thesis using ab(3,5) GetNodeRange_rep [OF rep, of my_id] by auto
qed

text \<open>Whether the node hands its own updates of a table to the paired receiver.\<close>

definition hands_over :: "Propagator \<Rightarrow> prop_thr \<Rightarrow> i32 \<Rightarrow> bool" where
  "hands_over p t tid \<longleftrightarrow> table_loop tid p \<and> own_at tid t \<noteq> []"

definition sent_ranges :: "Propagator \<Rightarrow> prop_thr \<Rightarrow> i32 \<Rightarrow> (i32 \<times> i64 \<times> i64) list" where
  "sent_ranges p t tid = active_ranges (peers_at tid t) @ own_range (p_my_id p) (range_at tid t)"

text \<open>
  A table that can be sent: its values have the registered size and fit in a buffer, the
  node ids are proper, and own updates have a range.
\<close>

definition table_ready :: "Propagator \<Rightarrow> prop_thr \<Rightarrow> i32 \<Rightarrow> (i64, bytes) umap \<Rightarrow> bool" where
  "table_ready p t tid us \<longleftrightarrow>
     (\<exists>n. table_update_size tid p = of_nat n \<and>
        (\<forall>u \<in> set us. length (snd u) = n) \<and> fits n (length us) (Suc (length (peers_at tid t))) \<and>
        ids_ok (p_my_id p) (peers_at tid t) \<and>
        (hands_over p t tid \<longrightarrow> active_range (range_at tid t) \<and>
           (\<forall>u \<in> set (own_at tid t). length (snd u) = n) \<and> fits n (length (own_at tid t)) 1))"

definition flushed :: "Propagator \<Rightarrow> prop_thr \<Rightarrow> i32 \<Rightarrow> prop_thr \<Rightarrow> bool" where
  "flushed p t tid t' \<longleftrightarrow>
     t_update_store t' = um_put tid [] (t_update_store t) \<and>
     t_peers_range t' = um_put tid (map (\<lambda>(nid, r). (nid, flush_range r)) (peers_at tid t)) (t_peers_range t) \<and>
     (\<forall>k. range_at k t' = (if k = tid then (range_at tid t)\<lparr>ur_st := ur_end (range_at tid t) + 1\<rparr> else range_at k t)) \<and>
     (\<forall>k. own_at k t' = (if k = tid \<and> hands_over p t tid then [] else own_at k t))"

lemma flushed_peers:
  "flushed p t tid t' \<Longrightarrow> peers_at k t' = (if k = tid then map (\<lambda>(nid, r). (nid, flush_range r)) (peers_at tid t) else peers_at k t)"
  by (simp add: flushed_def peers_at_def)

lemma send_update_buffer_ok:
  "ub_rep a b \<Longrightarrow> \<not> p_ds_id p <s 0 \<Longrightarrow>
     \<exists>data. send_update_buffer zmq_ok p tid b = Inr [ToDownstream (WUpdateBuffer tid data)] \<and>
       ub_image b = Inr data \<and> cast_UpdateBuffer data = Inr b"
  using ub_image_rep [of a b] cast_header_tail [of b] by (simp add: send_update_buffer_def)

lemma flush_my_updates_ok:
  assumes "hands_over p t tid \<longrightarrow> active_range r \<and> (\<forall>u \<in> set (own_at tid t). length (snd u) = n) \<and>
      fits n (length (own_at tid t)) 1 \<and> acks = EMyUpdatesACK # acks'"
    and "\<not> hands_over p t tid \<longrightarrow> acks' = acks"
    and "table_update_size tid p = of_nat n" and "\<not> p_my_id p <s 0"
  shows "\<exists>b t'. flush_my_updates zmq_ok junk p tid r (t, acks, acts) =
      Inr (t', acks', acts @ (if hands_over p t tid
        then [ToReceiver (MMyUpdates \<lparr>mu_table_id = tid, mu_update_buffer_ptr = b\<rparr>)] else [])) \<and>
    (hands_over p t tid \<longrightarrow> (\<exists>a. ub_rep a b \<and> a_upds a = own_at tid t) \<and>
      GetNodeRange (p_my_id p) b = Inr (Some (ur_st r, ur_end r))) \<and>
    (\<forall>k. own_at k t' = (if k = tid \<and> hands_over p t tid then [] else own_at k t)) \<and>
    t_update_store t' = t_update_store t \<and> t_peers_range t' = t_peers_range t \<and> t_my_range t' = t_my_range t"
proof (cases "hands_over p t tid")
  case True
  with assms(1) have 1: "fits n (length (own_at tid t)) 1" "\<forall>u \<in> set (own_at tid t). length (snd u) = n"
    "active_range r" and acks: "acks = EMyUpdatesACK # acks'" by auto
  obtain a b where b: "build_my_update_buffer junk (p_my_id p) (of_nat n) (own_at tid t) r = Inr b"
    and "ub_rep a b" "a_upds a = own_at tid t" "GetNodeRange (p_my_id p) b = Inr (Some (ur_st r, ur_end r))"
    using build_my_update_buffer_rep [OF 1(1,2) assms(4) 1(3)] by blast
  with True acks assms(3) show ?thesis
    by (auto simp: flush_my_updates_def Let_def hands_over_def at_defs send_my_updates_def
        intro!: exI [of _ b])
next
  case False
  with assms(2) show ?thesis
    by (auto simp: flush_my_updates_def Let_def hands_over_def own_at_def)
qed

lemma flush_table_ok:
  assumes "table_ready p t tid us" and "us \<noteq> []" and "\<not> p_ds_id p <s 0"
    and "if hands_over p t tid then acks = EMyUpdatesACK # acks' else acks' = acks"
  shows "\<exists>mb b data t'. flush_table zmq_ok junk p (tid, us) (t, acks, acts) =
      Inr (t', acks', acts @ (if hands_over p t tid
        then [ToReceiver (MMyUpdates \<lparr>mu_table_id = tid, mu_update_buffer_ptr = mb\<rparr>)] else []) @
        [ToDownstream (WUpdateBuffer tid data)]) \<and>
    (hands_over p t tid \<longrightarrow> (\<exists>am. ub_rep am mb \<and> a_upds am = own_at tid t) \<and>
      GetNodeRange (p_my_id p) mb = Inr (Some (ur_st (range_at tid t), ur_end (range_at tid t)))) \<and>
    ub_image b = Inr data \<and> cast_UpdateBuffer data = Inr b \<and>
    (\<exists>a j. ub_rep a b \<and> a_upds a = us \<and> a_ranges a = sent_ranges p t tid @ free_slots j) \<and> buffer_ranges b = Inr (sent_ranges p t tid) \<and>
    flushed p t tid t'"
proof -
  from assms(1) obtain n where n: "table_update_size tid p = of_nat n"
    "\<forall>u \<in> set us. length (snd u) = n" "fits n (length us) (Suc (length (peers_at tid t)))"
    "ids_ok (p_my_id p) (peers_at tid t)"
    and own: "hands_over p t tid \<longrightarrow> active_range (range_at tid t) \<and>
           (\<forall>u \<in> set (own_at tid t). length (snd u) = n) \<and> fits n (length (own_at tid t)) 1"
    unfolding table_ready_def by blast
  obtain a b where b: "build_update_buffer junk (p_my_id p) (of_nat n) us (peers_at tid t) (range_at tid t) =
      Inr (map (\<lambda>(nid, r). (nid, flush_range r)) (peers_at tid t), b)"
    and rep: "ub_rep a b" "a_upds a = us" "buffer_ranges b = Inr (sent_ranges p t tid)"
      "\<exists>j. a_ranges a = sent_ranges p t tid @ free_slots j"
    using build_update_buffer_rep [OF n(3,2,4)] unfolding sent_ranges_def by blast
  obtain data where data: "send_update_buffer zmq_ok p tid b = Inr [ToDownstream (WUpdateBuffer tid data)]"
    "ub_image b = Inr data" "cast_UpdateBuffer data = Inr b"
    using send_update_buffer_ok [OF rep(1) assms(3)] by blast
  let ?t = "t\<lparr>t_update_store := um_put tid [] (t_update_store t),
    t_peers_range := um_put tid (map (\<lambda>(nid, r). (nid, flush_range r)) (peers_at tid t)) (t_peers_range t)\<rparr>"
  have same: "hands_over p ?t tid = hands_over p t tid" "own_at k ?t = own_at k t" for k
    by (simp_all add: hands_over_def own_at_def)
  have h1: "hands_over p ?t tid \<longrightarrow> active_range (range_at tid t) \<and>
      (\<forall>u \<in> set (own_at tid ?t). length (snd u) = n) \<and> fits n (length (own_at tid ?t)) 1 \<and> acks = EMyUpdatesACK # acks'"
    using own assms(4) by (simp add: same)
  have h2: "\<not> hands_over p ?t tid \<longrightarrow> acks' = acks" using assms(4) by (simp add: same)
  have nid: "\<not> p_my_id p <s 0" using n(4) by (simp add: ids_ok_def)
  from flush_my_updates_ok [OF h1 h2 n(1) nid, of junk acts, unfolded same]
  obtain mb t1 where m: "flush_my_updates zmq_ok junk p tid (range_at tid t) (?t, acks, acts) =
      Inr (t1, acks', acts @ (if hands_over p t tid
        then [ToReceiver (MMyUpdates \<lparr>mu_table_id = tid, mu_update_buffer_ptr = mb\<rparr>)] else []))"
    and mb: "hands_over p t tid \<longrightarrow> (\<exists>am. ub_rep am mb \<and> a_upds am = own_at tid t) \<and>
      GetNodeRange (p_my_id p) mb = Inr (Some (ur_st (range_at tid t), ur_end (range_at tid t)))"
    and t1: "\<forall>k. own_at k t1 = (if k = tid \<and> hands_over p t tid then [] else own_at k t)"
      "t_update_store t1 = t_update_store ?t" "t_peers_range t1 = t_peers_range ?t" "t_my_range t1 = t_my_range ?t"
    by blast
  define t' where "t' = t1\<lparr>t_my_range :=
    um_put tid ((range_at tid t)\<lparr>ur_st := ur_end (range_at tid t) + 1\<rparr>) (t_my_range t1)\<rparr>"
  have "flushed p t tid t'" using t1 by (simp add: flushed_def t'_def at_defs)
  moreover have "flush_table zmq_ok junk p (tid, us) (t, acks, acts) =
      Inr (t', acks', acts @ (if hands_over p t tid
        then [ToReceiver (MMyUpdates \<lparr>mu_table_id = tid, mu_update_buffer_ptr = mb\<rparr>)] else []) @
        [ToDownstream (WUpdateBuffer tid data)])"
    using assms(2) b m data(1) n(1) by (simp add: flush_table_def Let_def t'_def at_defs)
  ultimately show ?thesis using mb data(2,3) rep by blast
qed

section \<open>The timer event\<close>

fun sent_buffers :: "prop_act list \<Rightarrow> (i32 \<times> bytes) list" where
  "sent_buffers [] = []"
| "sent_buffers (ToDownstream (WUpdateBuffer tid data) # acts) = (tid, data) # sent_buffers acts"
| "sent_buffers (_ # acts) = sent_buffers acts"

fun handed_over :: "prop_act list \<Rightarrow> (i32 \<times> UpdateBuffer) list" where
  "handed_over [] = []"
| "handed_over (ToReceiver (MMyUpdates m) # acts) = (mu_table_id m, mu_update_buffer_ptr m) # handed_over acts"
| "handed_over (_ # acts) = handed_over acts"

lemma sent_buffers_append [simp]: "sent_buffers (xs @ ys) = sent_buffers xs @ sent_buffers ys"
  by (induction xs rule: sent_buffers.induct) auto

lemma handed_over_append [simp]: "handed_over (xs @ ys) = handed_over xs @ handed_over ys"
  by (induction xs rule: handed_over.induct) auto

text \<open>The contents of the messages, as the receiving side reads them.\<close>

definition read_sent :: "i32 \<times> bytes \<Rightarrow> i32 \<times> (i64 \<times> bytes) list res \<times> (i32 \<times> i64 \<times> i64) list res" where
  "read_sent = (\<lambda>(tid, data). (tid, bindR (cast_UpdateBuffer data) buffer_updates, bindR (cast_UpdateBuffer data) buffer_ranges))"

definition read_own :: "i32 \<Rightarrow> i32 \<times> UpdateBuffer \<Rightarrow> i32 \<times> (i64 \<times> bytes) list res \<times> (i64 \<times> i64) option res" where
  "read_own my_id = (\<lambda>(tid, b). (tid, buffer_updates b, GetNodeRange my_id b))"

text \<open>The messages the two receivers should get for the tables \<open>es\<close>.\<close>

definition due_downstream ::
  "Propagator \<Rightarrow> prop_thr \<Rightarrow> (i32 \<times> (i64, bytes) umap) list
    \<Rightarrow> (i32 \<times> (i64 \<times> bytes) list res \<times> (i32 \<times> i64 \<times> i64) list res) list" where
  "due_downstream p t es = map (\<lambda>(tid, us). (tid, Inr us, Inr (sent_ranges p t tid)))
     (filter (\<lambda>(tid, us). us \<noteq> []) es)"

definition due_receiver ::
  "Propagator \<Rightarrow> prop_thr \<Rightarrow> (i32 \<times> (i64, bytes) umap) list
    \<Rightarrow> (i32 \<times> (i64 \<times> bytes) list res \<times> (i64 \<times> i64) option res) list" where
  "due_receiver p t es = map (\<lambda>(tid, us). (tid, Inr (own_at tid t), Inr (Some (ur_st (range_at tid t), ur_end (range_at tid t)))))
     (filter (\<lambda>(tid, us). us \<noteq> [] \<and> hands_over p t tid) es)"

text \<open>Flushing one table does not change what is due for another.\<close>

lemma flushed_other:
  assumes "flushed p t tid t'" and "k \<noteq> tid"
  shows "range_at k t' = range_at k t" "own_at k t' = own_at k t" "peers_at k t' = peers_at k t"
    "hands_over p t' k = hands_over p t k" "sent_ranges p t' k = sent_ranges p t k"
    "table_ready p t' k us = table_ready p t k us"
  using assms flushed_peers [OF assms(1)] by (simp_all add: flushed_def hands_over_def sent_ranges_def table_ready_def)

lemma due_other:
  assumes "flushed p t tid t'" and "tid \<notin> fst ` set es"
  shows "due_downstream p t' es = due_downstream p t es" and "due_receiver p t' es = due_receiver p t es"
proof -
  have eq: "k \<in> fst ` set es \<Longrightarrow> k \<noteq> tid" for k using assms(2) by auto
  show "due_downstream p t' es = due_downstream p t es"
    unfolding due_downstream_def
    by (intro map_cong) (use eq in \<open>force simp: flushed_other(5) [OF assms(1)]\<close>)+
  have "filter (\<lambda>(k, us). us \<noteq> [] \<and> hands_over p t' k) es = filter (\<lambda>(k, us). us \<noteq> [] \<and> hands_over p t k) es"
    by (rule filter_cong) (use eq in \<open>force simp: flushed_other(4) [OF assms(1)]\<close>)+
  then show "due_receiver p t' es = due_receiver p t es"
    unfolding due_receiver_def
    by (intro map_cong) (use eq in \<open>force simp: flushed_other(1,2) [OF assms(1)]\<close>)+
qed

definition sent_tids :: "(i32 \<times> (i64, bytes) umap) list \<Rightarrow> i32 set" where
  "sent_tids es = {tid. \<exists>us. (tid, us) \<in> set es \<and> us \<noteq> []}"

lemma sent_tids_simps [simp]:
  "sent_tids [] = {}"
  "sent_tids ((tid, us) # es) = (if us = [] then sent_tids es else insert tid (sent_tids es))"
  by (auto simp: sent_tids_def)

lemma flush_all_ok:
  assumes "distinct (um_keys es)" and "\<not> p_ds_id p <s 0"
    and "\<forall>(tid, us) \<in> set es. us \<noteq> [] \<longrightarrow> table_ready p t tid us"
  shows "\<exists>t' acts'. foldR (flush_table zmq_ok junk p) es
      (t, replicate (length (due_receiver p t es)) EMyUpdatesACK @ acks, acts) = Inr (t', acks, acts @ acts') \<and>
    map read_sent (sent_buffers acts') = due_downstream p t es \<and>
    map (read_own (p_my_id p)) (handed_over acts') = due_receiver p t es \<and>
    (\<forall>k. um_find k (t_update_store t') =
       (if k \<in> sent_tids es then Some [] else um_find k (t_update_store t))) \<and>
    (distinct (um_keys (t_update_store t)) \<longrightarrow> distinct (um_keys (t_update_store t'))) \<and>
    (\<forall>k. range_at k t' = (if k \<in> sent_tids es
       then (range_at k t)\<lparr>ur_st := ur_end (range_at k t) + 1\<rparr> else range_at k t))"
  using assms(1,3)
proof (induction es arbitrary: t acts)
  case Nil
  then show ?case by (intro exI [of _ t] exI [of _ "[]"]) (simp add: due_downstream_def due_receiver_def)
next
  case (Cons x es)
  obtain tid us where x: "x = (tid, us)" by (cases x)
  have dis: "tid \<notin> fst ` set es" "distinct (um_keys es)" using Cons.prems(1) x by auto
  show ?case
  proof (cases "us = []")
    case True
    from Cons.IH [OF dis(2), of t acts] Cons.prems(2) True x show ?thesis
      by (auto simp: flush_table_def due_downstream_def due_receiver_def)
  next
    case False
    define acks1 where "acks1 = replicate (length (due_receiver p t es)) EMyUpdatesACK @ acks"
    define acks0 where "acks0 = replicate (length (due_receiver p t (x # es))) EMyUpdatesACK @ acks"
    have acks: "if hands_over p t tid then acks0 = EMyUpdatesACK # acks1 else acks1 = acks0"
      using False by (simp add: acks0_def acks1_def x due_receiver_def)
    have ready: "table_ready p t tid us" using Cons.prems(2) x False by auto
    from flush_table_ok [OF ready False assms(2) acks, of junk acts] obtain mb b data t1 where
      step: "flush_table zmq_ok junk p (tid, us) (t, acks0, acts) =
        Inr (t1, acks1, acts @ (if hands_over p t tid
          then [ToReceiver (MMyUpdates \<lparr>mu_table_id = tid, mu_update_buffer_ptr = mb\<rparr>)] else []) @
          [ToDownstream (WUpdateBuffer tid data)])"
      and reps: "hands_over p t tid \<longrightarrow> (\<exists>am. ub_rep am mb \<and> a_upds am = own_at tid t) \<and>
        GetNodeRange (p_my_id p) mb = Inr (Some (ur_st (range_at tid t), ur_end (range_at tid t)))"
        "\<exists>a j. ub_rep a b \<and> a_upds a = us \<and> a_ranges a = sent_ranges p t tid @ free_slots j"
      and sent: "cast_UpdateBuffer data = Inr b" "buffer_ranges b = Inr (sent_ranges p t tid)"
      and fl: "flushed p t tid t1" by blast
    have mb: "hands_over p t tid \<longrightarrow> buffer_updates mb = Inr (own_at tid t) \<and>
        GetNodeRange (p_my_id p) mb = Inr (Some (ur_st (range_at tid t), ur_end (range_at tid t)))"
      and data: "cast_UpdateBuffer data = Inr b" "buffer_updates b = Inr us" "buffer_ranges b = Inr (sent_ranges p t tid)"
      using reps sent buffer_updates_rep by auto
    define out where "out = (if hands_over p t tid
          then [ToReceiver (MMyUpdates \<lparr>mu_table_id = tid, mu_update_buffer_ptr = mb\<rparr>)] else []) @
          [ToDownstream (WUpdateBuffer tid data)]"
    have "table_ready p t1 k us'" if "(k, us') \<in> set es" "us' \<noteq> []" for k us'
    proof -
      have "k \<noteq> tid" using that(1) dis(1) by force
      moreover have "table_ready p t k us'" using Cons.prems(2) that by auto
      ultimately show ?thesis using flushed_other(6) [OF fl] by blast
    qed
    then have ready1: "\<forall>(k, us) \<in> set es. us \<noteq> [] \<longrightarrow> table_ready p t1 k us" by blast
    note due = due_other [OF fl dis(1)]
    from Cons.IH [OF dis(2) ready1, of "acts @ out"] obtain t' acts2 where
      rest: "foldR (flush_table zmq_ok junk p) es (t1, acks1, acts @ out) =
        Inr (t', acks, (acts @ out) @ acts2)"
      "map read_sent (sent_buffers acts2) = due_downstream p t es"
      "map (read_own (p_my_id p)) (handed_over acts2) = due_receiver p t es"
      "\<forall>k. um_find k (t_update_store t') =
         (if k \<in> sent_tids es then Some [] else um_find k (t_update_store t1))"
      "distinct (um_keys (t_update_store t1)) \<longrightarrow> distinct (um_keys (t_update_store t'))"
      "\<forall>k. range_at k t' = (if k \<in> sent_tids es
         then (range_at k t1)\<lparr>ur_st := ur_end (range_at k t1) + 1\<rparr> else range_at k t1)"
      unfolding due acks1_def by blast
    have tid_es: "tid \<notin> sent_tids es" using dis(1) by (force simp: sent_tids_def)
    have st: "t_update_store t1 = um_put tid [] (t_update_store t)"
      and rg: "range_at k t1 = (if k = tid then (range_at tid t)\<lparr>ur_st := ur_end (range_at tid t) + 1\<rparr> else range_at k t)" for k
      using fl by (simp_all add: flushed_def)
    define acts' where "acts' = out @ acts2"
    have "foldR (flush_table zmq_ok junk p) (x # es) (t, acks0, acts) = Inr (t', acks, acts @ acts')"
      using step rest(1) by (simp add: x acts'_def out_def)
    moreover have "map read_sent (sent_buffers acts') = due_downstream p t (x # es)"
      using rest(2) data False by (simp add: acts'_def out_def x due_downstream_def read_sent_def)
    moreover have "map (read_own (p_my_id p)) (handed_over acts') = due_receiver p t (x # es)"
      using rest(3) mb False by (simp add: acts'_def out_def x due_receiver_def read_own_def)
    moreover have "um_find k (t_update_store t') =
       (if k \<in> sent_tids (x # es) then Some [] else um_find k (t_update_store t))" for k
      using rest(4) st False by (simp add: x)
    moreover have "range_at k t' = (if k \<in> sent_tids (x # es)
       then (range_at k t)\<lparr>ur_st := ur_end (range_at k t) + 1\<rparr> else range_at k t)" for k
      using rest(6) rg False tid_es by (simp add: x)
    moreover have "distinct (um_keys (t_update_store t)) \<longrightarrow> distinct (um_keys (t_update_store t'))"
      using rest(5) st by auto
    ultimately show ?thesis unfolding acks0_def by blast
  qed
qed

text \<open>
  C8: when the timer fires, each table with waiting updates is sent to the downstream
  receiver in exactly one buffer, which reads back as the updates of the store and the
  ranges they belong to; own updates of a table with the loop option are handed to the
  paired receiver with the node's range; the store is empty afterwards and the node's
  range starts behind the updates sent.
\<close>

theorem timer_sends_store:
  assumes "distinct (um_keys (t_update_store t))" and "\<not> p_ds_id p <s 0"
    and "\<forall>(tid, us) \<in> set (t_update_store t). us \<noteq> [] \<longrightarrow> table_ready p t tid us"
    and "acks = replicate (length (due_receiver p t (t_update_store t))) EMyUpdatesACK"
  shows "\<exists>p' t' acts. handle_timer zmq_ok junk acks ETimerTrigger p t = Inr (p', t', ToTimer (timer_cmd p) # acts) \<and>
    map read_sent (sent_buffers acts) = due_downstream p t (t_update_store t) \<and>
    map (read_own (p_my_id p)) (handed_over acts) = due_receiver p t (t_update_store t) \<and>
    store_empty t' \<and>
    (\<forall>tid \<in> sent_tids (t_update_store t).
       range_at tid t' = (range_at tid t)\<lparr>ur_st := ur_end (range_at tid t) + 1\<rparr>)"
proof -
  from flush_all_ok [OF assms(1-3), of junk "[]" "[ToTimer (timer_cmd p)]"] obtain t1 acts where
    fold: "foldR (flush_table zmq_ok junk p) (t_update_store t) (t, acks, [ToTimer (timer_cmd p)]) =
      Inr (t1, [], ToTimer (timer_cmd p) # acts)"
    and sent: "map read_sent (sent_buffers acts) = due_downstream p t (t_update_store t)"
      "map (read_own (p_my_id p)) (handed_over acts) = due_receiver p t (t_update_store t)"
    and store: "\<forall>k. um_find k (t_update_store t1) =
       (if k \<in> sent_tids (t_update_store t) then Some [] else um_find k (t_update_store t))"
      "distinct (um_keys (t_update_store t1))"
    and range: "\<forall>k. range_at k t1 = (if k \<in> sent_tids (t_update_store t)
       then (range_at k t)\<lparr>ur_st := ur_end (range_at k t) + 1\<rparr> else range_at k t)"
    using assms(1) unfolding assms(4) by auto
  have "us = []" if "(k, us) \<in> set (t_update_store t1)" for k us
  proof -
    have "um_find k (t_update_store t1) = Some us" using that store(2) by simp
    then show ?thesis
      using store(1) by (auto simp: sent_tids_def dest: map_of_SomeD split: if_splits)
  qed
  then have empty: "store_empty t1" by (auto simp: store_empty_def)
  show ?thesis
  proof (cases "p_state p = P_TERM_PREP")
    case True
    with fold sent empty range show ?thesis
      by (auto simp: handle_timer_def Let_def range_at_def)
  next
    case False
    with fold sent empty range show ?thesis by (auto simp: handle_timer_def)
  qed
qed

definition sample_thr :: prop_thr where
  "sample_thr = (prop_thr_init (sample_prop 100 True))
     \<lparr>t_update_store := [(5, [(1, [5, 0, 0, 0]), (9, [1, 0, 0, 0])])],
      t_my_store := [(5, [(1, [5, 0, 0, 0])])],
      t_my_range := [(5, \<lparr>ur_st = 0, ur_end = 1\<rparr>)],
      t_peers_range := [(5, [(3, \<lparr>ur_st = 4, ur_end = 6\<rparr>)])]\<rparr>"

lemma sample_thr_at:
  "own_at 5 sample_thr = [(1, [5, 0, 0, 0])]" "range_at 5 sample_thr = \<lparr>ur_st = 0, ur_end = 1\<rparr>"
  "peers_at 5 sample_thr = [(3, \<lparr>ur_st = 4, ur_end = 6\<rparr>)]"
  "t_update_store sample_thr = [(5, [(1, [5, 0, 0, 0]), (9, [1, 0, 0, 0])])]"
  by (simp_all add: at_defs sample_thr_def um_at_def)

lemma sample_prop_at:
  "p_my_id (sample_prop m l) = 1" "\<not> p_ds_id (sample_prop m l) <s 0"
  "table_update_size 5 (sample_prop m l) = of_nat 4" "table_loop 5 (sample_prop m l) = l"
  by (simp_all add: sample_simps table_update_size_def table_loop_def)

lemma sample_due:
  "due_receiver (sample_prop 100 True) sample_thr (t_update_store sample_thr) =
     [(5, Inr [(1, [5, 0, 0, 0])], Inr (Some (0, 1)))]"
  "due_downstream (sample_prop 100 True) sample_thr (t_update_store sample_thr) =
     [(5, Inr [(1, [5, 0, 0, 0]), (9, [1, 0, 0, 0])], Inr [(3, 4, 6), (1, 0, 1)])]"
  by (simp_all add: due_receiver_def due_downstream_def sample_thr_at sample_prop_at sent_ranges_def
      active_ranges_def own_range_def active_range_def hands_over_def word_sle_eq)

theorem timer_sends_store_witness:
  "\<exists>p' t' acts. handle_timer zmq_ok (\<lambda>_. 7) [EMyUpdatesACK] ETimerTrigger (sample_prop 100 True) sample_thr =
       Inr (p', t', ToTimer (timer_cmd (sample_prop 100 True)) # acts) \<and>
     map read_sent (sent_buffers acts) = [(5, Inr [(1, [5, 0, 0, 0]), (9, [1, 0, 0, 0])], Inr [(3, 4, 6), (1, 0, 1)])] \<and>
     map (read_own 1) (handed_over acts) = [(5, Inr [(1, [5, 0, 0, 0])], Inr (Some (0, 1)))] \<and>
     store_empty t'"
proof -
  let ?p = "sample_prop 100 True"
  have "distinct (um_keys (t_update_store sample_thr))" by (simp add: sample_thr_at)
  moreover have "table_ready ?p sample_thr 5 [(1, [5, 0, 0, 0]), (9, [1, 0, 0, 0])]"
    unfolding table_ready_def
    by (rule exI [of _ 4]) (simp add: sample_thr_at sample_prop_at fits_def ids_ok_def active_range_def
        word_sle_eq word_sless_alt)
  ultimately show ?thesis
    using timer_sends_store [of sample_thr ?p "[EMyUpdatesACK]" "\<lambda>_. 7"] sample_prop_at
    unfolding sample_due by (auto simp: sample_thr_at)
qed

section \<open>Buffers forwarded by the paired receiver\<close>

lemma foldR_at:
  "foldR (\<lambda>(k, d) store. bindR (g (k, d) (um_at [] tid store)) (\<lambda>us. Inr (um_put tid us store))) log store =
     (if log = [] then Inr store
      else bindR (foldR g log (um_at [] tid store)) (\<lambda>us. Inr (um_put tid us store)))"
proof (induction log arbitrary: store)
  case (Cons u log)
  obtain k d where u: "u = (k, d)" by (cases u)
  show ?case
  proof (cases "g (k, d) (um_at [] tid store)")
    case (Inr us)
    have twice: "um_put tid us' (um_put tid us store) = um_put tid us' store" for us'
      by (induction store) auto
    show ?thesis using Inr Cons.IH [of "um_put tid us store"] by (simp add: u twice)
  qed (simp add: u)
qed simp

text \<open>Merging the updates of a buffer adds them like logs.\<close>

lemma merge_buffer_updates_rep:
  assumes "ub_rep a b" and "a_usize a < 2147483648"
  shows "\<exists>b'. ub_rep (a\<lparr>a_uiter := length (a_upds a)\<rparr>) b' \<and>
    merge_buffer_updates tid (of_nat (a_usize a)) vadd b store =
      bindR (if a_upds a = [] then Inr store
        else bindR (foldR (\<lambda>(k, d). AddUpdate k d (of_nat (a_usize a)) vadd) (a_upds a) (um_at [] tid store))
               (\<lambda>us. Inr (um_put tid us store))) (\<lambda>store. Inr (b', store))"
  unfolding merge_buffer_updates_def
    foldR_at [of "\<lambda>(k, d). AddUpdate k d (of_nat (a_usize a)) vadd" tid, symmetric]
  by (rule drain_read [OF assms(1)]) (use assms(2) in \<open>simp add: add_buffer_update_def\<close>)

lemma merge_buffer_ranges_rep:
  assumes "ub_rep a b"
  shows "\<exists>b'. merge_buffer_ranges b peers =
    bindR (foldR merge_range (takeWhile (\<lambda>r. \<not> fst r <s 0) (a_ranges a)) peers) (\<lambda>peers. Inr (b', peers))"
proof -
  have r: "ub_rep (a\<lparr>a_riter := riter_at 0\<rparr>) (StartNodeRangeIteration b)"
    using assms by (rule ub.rstart_law)
  have "length (a_ranges a) - 0 < ub_fuel b" using ub_fuel_ranges [OF assms] by simp
  with ub.drain_ranges [OF r, of 0 "ub_fuel b" merge_range peers] show ?thesis
    by (auto simp: merge_buffer_ranges_def)
qed

text \<open>A range continues the range known of its node, or the node is new.\<close>

definition contiguous :: "(i32, UpdateRange) umap \<Rightarrow> i32 \<times> i64 \<times> i64 \<Rightarrow> bool" where
  "contiguous peers = (\<lambda>(nid, st, en).
     case um_find nid peers of None \<Rightarrow> True | Some r \<Rightarrow> ur_end r + 1 = st)"

definition merged_range :: "(i32, UpdateRange) umap \<Rightarrow> i32 \<times> i64 \<times> i64 \<Rightarrow> UpdateRange" where
  "merged_range peers = (\<lambda>(nid, st, en).
     case um_find nid peers of None \<Rightarrow> \<lparr>ur_st = st, ur_end = en\<rparr> | Some r \<Rightarrow> r\<lparr>ur_end := en\<rparr>)"

lemma merge_range_eq:
  "merge_range (nid, st, en) peers =
     (if contiguous peers (nid, st, en)
      then Inr (um_put nid (merged_range peers (nid, st, en)) peers)
      else Inl (Check_failed ''updates are not contiguous''))"
  by (auto simp: merge_range_def contiguous_def merged_range_def split: option.split)

lemma merge_ranges_ok:
  assumes "distinct (map fst rs)" and "\<forall>r \<in> set rs. contiguous peers r"
  shows "\<exists>peers'. foldR merge_range rs peers = Inr peers' \<and>
    (\<forall>r \<in> set rs. um_find (fst r) peers' = Some (merged_range peers r)) \<and>
    (\<forall>k. k \<notin> fst ` set rs \<longrightarrow> um_find k peers' = um_find k peers)"
  using assms
proof (induction rs arbitrary: peers)
  case (Cons r rs)
  obtain nid st en where r: "r = (nid, st, en)" by (cases r)
  let ?p = "um_put nid (merged_range peers r) peers"
  have other: "contiguous ?p x = contiguous peers x" "merged_range ?p x = merged_range peers x"
    if "x \<in> set rs" for x
  proof -
    have "fst x \<noteq> nid" using that Cons.prems(1) r by force
    then show "contiguous ?p x = contiguous peers x" "merged_range ?p x = merged_range peers x"
      by (auto simp: contiguous_def merged_range_def split: prod.split)
  qed
  have "distinct (map fst rs)" "\<forall>x \<in> set rs. contiguous ?p x" using Cons.prems other by auto
  from Cons.IH [OF this] obtain peers' where
    "foldR merge_range rs ?p = Inr peers'"
    "\<forall>x \<in> set rs. um_find (fst x) peers' = Some (merged_range ?p x)"
    "\<forall>k. k \<notin> fst ` set rs \<longrightarrow> um_find k peers' = um_find k ?p" by blast
  with Cons.prems other r show ?case by (intro exI [of _ peers']) (auto simp: merge_range_eq)
qed simp

lemma merge_forwarded:
  assumes "value_algebra vadd vsub n"
    and "p_state p = P_RUN" and "registered p tid vadd n" and "um_find tid (t_peers_range t) = Some peers"
    and "ub_rep a b" and "a_usize a = n" and "values_ok n (store_at tid t)"
    and "buffer_ranges b = Inr rs" and "distinct (map fst rs)" and "\<forall>r \<in> set rs. contiguous peers r"
  shows "\<exists>t'. prop_handle zs junk (PUpdate (MUpdateBuffer \<lparr>pub_table_id = tid, pub_update_buffer_ptr = b\<rparr>)) p t =
      Inr (p, t', []) \<and>
    (\<forall>k. um_find k (store_at tid t') =
       (if deltas_for k (a_upds a) = [] then um_find k (store_at tid t)
        else Some (vapp vadd n (um_at (vzero n) k (store_at tid t)) (vsum vadd n (deltas_for k (a_upds a)))))) \<and>
    (\<forall>r \<in> set rs. um_find (fst r) (peers_at tid t') = Some (merged_range peers r)) \<and>
    foldR merge_range rs peers = Inr (peers_at tid t') \<and>
    values_ok n (store_at tid t') \<and> t_my_store t' = t_my_store t \<and> t_my_range t' = t_my_range t \<and>
    (only_table tid t \<longrightarrow> only_table tid t') \<and> (\<exists>peers'. um_find tid (t_peers_range t') = Some peers')"
proof -
  have rs: "rs = takeWhile (\<lambda>r. \<not> fst r <s 0) (a_ranges a)"
    using assms(8) buffer_ranges_rep [OF assms(5)] by simp
  have n: "n < 2147483648" using assms(1) by (simp add: value_algebra_def)
  from assms(3) obtain ti where ti: "um_find tid (p_table_dir p) = Some ti" "ti_vadd_func ti = vadd"
    "ti_update_size ti = of_nat n" by (auto simp: registered_def)
  have len: "\<forall>u \<in> set (a_upds a). length (snd u) = n"
    using assms(5,6) by (simp add: ub_rep_def abuf_ok_def)
  obtain us' where us': "foldR (\<lambda>(k, d). AddUpdate k d (of_nat n) vadd) (a_upds a) (store_at tid t) = Inr us'"
    "values_ok n us'"
    "\<forall>k. um_find k us' = (if deltas_for k (a_upds a) = [] then um_find k (store_at tid t)
       else Some (vapp vadd n (um_at (vzero n) k (store_at tid t)) (vsum vadd n (deltas_for k (a_upds a)))))"
    using value_algebra.add_all_sums [OF assms(1,7) len] by blast
  let ?store = "if a_upds a = [] then t_update_store t else um_put tid us' (t_update_store t)"
  obtain b1 where b1: "ub_rep (a\<lparr>a_uiter := length (a_upds a)\<rparr>) b1"
    and mu: "merge_buffer_updates tid (of_nat n) vadd b (t_update_store t) = Inr (b1, ?store)"
    using merge_buffer_updates_rep [OF assms(5), of tid vadd "t_update_store t"] n us'(1)
    by (auto simp: assms(6) store_at_def)
  obtain b2 where mr: "merge_buffer_ranges b1 peers = bindR (foldR merge_range rs peers) (\<lambda>peers. Inr (b2, peers))"
    using merge_buffer_ranges_rep [OF b1, of peers] by (auto simp: rs)
  obtain peers' where peers': "foldR merge_range rs peers = Inr peers'"
    "\<forall>r \<in> set rs. um_find (fst r) peers' = Some (merged_range peers r)"
    using merge_ranges_ok [OF assms(9,10)] by blast
  show ?thesis
    using us' peers' assms(2,4)
    by (auto simp: handle_update_buffer_def Let_def ti mu mr at_defs elim: only_table_same only_table_put)
qed

text \<open>
  C13: a buffer forwarded by the paired receiver adds each of its deltas to the store of its
  table and extends the known range of every node in it; nothing is sent.
\<close>

theorem forwarded_buffer_merged:
  assumes "value_algebra vadd vsub n"
    and "p_state p = P_RUN" and "registered p tid vadd n" and "um_find tid (t_peers_range t) = Some peers"
    and "ub_rep a b" and "a_usize a = n" and "values_ok n (store_at tid t)"
    and "buffer_ranges b = Inr rs" and "distinct (map fst rs)" and "\<forall>r \<in> set rs. contiguous peers r"
  shows "\<exists>t'. prop_handle zs junk (PUpdate (MUpdateBuffer \<lparr>pub_table_id = tid, pub_update_buffer_ptr = b\<rparr>)) p t =
      Inr (p, t', []) \<and>
    (\<forall>k. um_find k (store_at tid t') =
       (if deltas_for k (a_upds a) = [] then um_find k (store_at tid t)
        else Some (vapp vadd n (um_at (vzero n) k (store_at tid t)) (vsum vadd n (deltas_for k (a_upds a)))))) \<and>
    (\<forall>r \<in> set rs. um_find (fst r) (peers_at tid t') = Some (merged_range peers r))"
  using merge_forwarded [OF assms, of zs junk] by blast

theorem forwarded_buffer_merged_witness:
  "\<exists>p t b t'. buffer_ranges b = Inr [(3, 0, 5), (8, 2, 6)] \<and>
     prop_handle zmq_ok (\<lambda>_. 0) (PUpdate (MUpdateBuffer \<lparr>pub_table_id = 5, pub_update_buffer_ptr = b\<rparr>)) p t =
       Inr (p, t', []) \<and>
     um_find 10 (store_at 5 t') = Some [1, 0, 0, 0] \<and>
     um_find 3 (peers_at 5 t') = Some \<lparr>ur_st = 0, ur_end = 5\<rparr>"
proof -
  obtain a b where ab: "ub_rep a b" "a_usize a = 4" "a_ranges a = [(3, 0, 5), (8, 2, 6)]"
    "a_upds a = [(10, [1, 0, 0, 0])]"
    using sample_ranges by blast
  let ?p = "(sample_prop 100 True)\<lparr>p_state := P_RUN\<rparr>"
  let ?t = "prop_thr_init (sample_prop 100 True)"
  have empty: "store_at 5 ?t = []" "um_find 5 (t_peers_range ?t) = Some []"
    by (simp_all add: at_defs sample_simps um_at_def)
  have rs: "buffer_ranges b = Inr [(3, 0, 5), (8, 2, 6)]"
    using ab by (simp add: buffer_ranges_rep word_sless_alt)
  have reg: "registered ?p 5 IntAdd 4" by (simp add: registered_def sample_simps)
  have sum: "vapp IntAdd 4 (vzero 4) (vsum IntAdd 4 [[1, 0, 0, 0]]) = [1, 0, 0, 0]" by code_simp
  from forwarded_buffer_merged [OF int_value.value_algebra_axioms _ reg empty(2) ab(1,2) _ rs,
      where zs = zmq_ok and junk = "\<lambda>_. 0"] obtain t' where
    "prop_handle zmq_ok (\<lambda>_. 0) (PUpdate (MUpdateBuffer \<lparr>pub_table_id = 5, pub_update_buffer_ptr = b\<rparr>)) ?p ?t =
       Inr (?p, t', [])"
    "um_find 10 (store_at 5 t') = Some [1, 0, 0, 0]" "um_find 3 (peers_at 5 t') = Some \<lparr>ur_st = 0, ur_end = 5\<rparr>"
    by (auto simp: empty ab sum um_at_def contiguous_def merged_range_def)
  with rs show ?thesis by blast
qed

end
