(* ===== verification/Receiver_Data.thy ===== *)
theory Receiver_Data
  imports Receiver Propagator_Data
begin

text \<open>
  What the receiver thread does to the data: a buffer that comes back round the ring loses
  exactly the node's own contribution before it is forwarded and applied, and applying a
  buffer adds its deltas to the table. Two situations in which the code refuses a correct
  buffer are stated as theorems as well.
\<close>

section \<open>Cancelling own updates\<close>

text \<open>Every update minus the deltas \<open>mine\<close> has for its key.\<close>

definition cancelled :: "value_fn \<Rightarrow> nat \<Rightarrow> (i64 \<times> bytes) list \<Rightarrow> (i64 \<times> bytes) list \<Rightarrow> (i64 \<times> bytes) list" where
  "cancelled vsub n mine upds = map (\<lambda>(k, v). (k, foldl (vapp vsub n) v (deltas_for k mine))) upds"

lemma cancelled_Nil [simp]: "cancelled vsub n [] upds = upds"
  by (simp add: cancelled_def)

lemma cancelled_keys [simp]: "map fst (cancelled vsub n mine upds) = map fst upds"
  by (auto simp: cancelled_def)

lemma cancelled_Cons: "cancelled vsub n (u # mine) upds = cancelled vsub n mine (cancelled vsub n [u] upds)"
  by (cases u) (auto simp: cancelled_def)

lemma cancelled_one:
  "distinct (map fst upds) \<Longrightarrow> upds = pre @ (k, v) # suf \<Longrightarrow>
     cancelled vsub n [(k, d)] upds = pre @ (k, vapp vsub n v d) # suf"
  by (force simp: cancelled_def intro: map_idI)

lemma key_index_split:
  "key_index k xs = Some i \<Longrightarrow> \<exists>pre v suf. xs = pre @ (k, v) # suf \<and> length pre = i"
proof -
  assume "key_index k xs = Some i"
  then have "i < length xs" "fst (xs ! i) = k" by (auto dest: key_index_Some)
  then have "xs = take i xs @ (k, snd (xs ! i)) # drop (Suc i) xs" "length (take i xs) = i"
    by (auto simp: id_take_nth_drop)
  then show ?thesis by blast
qed

text \<open>\<open>cancel_update\<close> once the own delta has been read.\<close>

definition cancel_delta :: "value_fn \<Rightarrow> i32 \<Rightarrow> i64 \<times> bytes \<Rightarrow> UpdateBuffer \<Rightarrow> UpdateBuffer res" where
  "cancel_delta vsub vsize = (\<lambda>(key, my_delta) recv_b.
     bindR (GetUpdate key recv_b) (\<lambda>found.
       case found of
         None \<Rightarrow> Inl (Check_failed ''Cannot find update in received buffer key = '')
       | Some recv_ptr \<Rightarrow>
           bindR (ub_read recv_ptr (nat (sint vsize)) recv_b) (\<lambda>recv_delta.
           bindR (call_vfn vsub recv_delta my_delta vsize) (\<lambda>new_delta.
           ub_write recv_ptr new_delta recv_b))))"

lemma key_index_None: "key_index k xs = None \<longleftrightarrow> k \<notin> set (map fst xs)"
  by (induction xs) auto

context value_algebra
begin

lemma cancelled_length:
  "\<forall>u \<in> set upds. length (snd u) = n \<Longrightarrow> \<forall>u \<in> set mine. length (snd u) = n \<Longrightarrow>
     \<forall>u \<in> set (cancelled vsub n mine upds). length (snd u) = n"
proof -
  assume 1: "\<forall>u \<in> set upds. length (snd u) = n" and 2: "\<forall>u \<in> set mine. length (snd u) = n"
  have "length (foldl (vapp vsub n) v ds) = n" if "length v = n" "\<forall>d \<in> set ds. length d = n" for v ds
    using that by (induction ds arbitrary: v) (auto simp: vsub_length)
  with 1 deltas_for_length [OF 2] show ?thesis by (auto simp: cancelled_def)
qed

lemma cancel_delta_rep:
  assumes "ub_rep a b" and "a_usize a = n" and "distinct (map fst (a_upds a))"
    and "k \<in> set (map fst (a_upds a))" and "length d = n"
  shows "\<exists>b'. cancel_delta vsub (of_nat n) (k, d) b = Inr b' \<and>
    ub_rep (a\<lparr>a_upds := cancelled vsub n [(k, d)] (a_upds a)\<rparr>) b'"
proof -
  from assms(4) obtain i where i: "key_index k (a_upds a) = Some i"
    using key_index_None [of k "a_upds a"] by auto
  obtain pre v suf where sp: "a_upds a = pre @ (k, v) # suf" "length pre = i"
    using key_index_split [OF i] by blast
  have len: "length v = n" using assms(1,2) sp(1) by (auto simp: ub_rep_def abuf_ok_def)
  have rd: "ub_read (upd_ptr a i + 8) n b = Inr v" using rep_read_upd(2) [OF assms(1) sp(1)] sp(2) assms(2) by simp
  obtain b' where "ub_write (upd_ptr a i + 8) (vapp vsub n v d) b = Inr b'"
    "ub_rep (a\<lparr>a_upds := pre @ (k, vapp vsub n v d) # suf\<rparr>) b'"
    using rep_write_upd [OF assms(1) sp(1), of "upd_ptr a i" "vapp vsub n v d"] sp(2) assms(2,5) len
    by (auto simp: vsub_length)
  with i rd show ?thesis
    using size_bound call_vsub [OF len assms(5)]
    by (auto simp: cancel_delta_def GetUpdate_rep [OF assms(1)] cancelled_one [OF assms(3) sp(1)])
qed

lemma cancel_deltas_rep:
  assumes "a_usize a = n" and "\<forall>u \<in> set mine. length (snd u) = n \<and> fst u \<in> set (map fst (a_upds a))"
  shows "ub_rep a b \<Longrightarrow> distinct (map fst (a_upds a)) \<Longrightarrow>
    \<exists>b'. foldR (cancel_delta vsub (of_nat n)) mine b = Inr b' \<and>
      ub_rep (a\<lparr>a_upds := cancelled vsub n mine (a_upds a)\<rparr>) b'"
  using assms
proof (induction mine arbitrary: a b)
  case (Cons u mine)
  obtain k d where u: "u = (k, d)" by (cases u)
  have kd: "k \<in> set (map fst (a_upds a))" "length d = n" using Cons.prems(4) u by auto
  let ?a = "a\<lparr>a_upds := cancelled vsub n [(k, d)] (a_upds a)\<rparr>"
  obtain b1 where b1: "cancel_delta vsub (of_nat n) (k, d) b = Inr b1" and rep: "ub_rep ?a b1"
    using cancel_delta_rep [OF Cons.prems(1,3,2) kd] by blast
  have keys: "map fst (a_upds ?a) = map fst (a_upds a)" by simp
  from Cons.IH [OF rep] obtain b' where
    "foldR (cancel_delta vsub (of_nat n)) mine b1 = Inr b'"
    "ub_rep (?a\<lparr>a_upds := cancelled vsub n mine (a_upds ?a)\<rparr>) b'"
    using Cons.prems(2-4) unfolding keys by auto
  with b1 show ?case by (auto simp: u cancelled_Cons [of _ _ "(k, d)" mine])
qed simp

text \<open>A whole own buffer is subtracted from the received one.\<close>

lemma cancel_buffer_rep:
  assumes "ub_rep am mb" and "a_usize am = n" and "a_upds am \<noteq> []"
    and "ub_rep a b" and "a_usize a = n" and "distinct (map fst (a_upds a))"
    and "set (map fst (a_upds am)) \<subseteq> set (map fst (a_upds a))"
  shows "\<exists>b'. cancel_buffer vsub (of_nat n) mb b = Inr b' \<and>
    ub_rep (a\<lparr>a_upds := cancelled vsub n (a_upds am) (a_upds a)\<rparr>) b'"
proof -
  have "\<exists>mb'. ub_rep (am\<lparr>a_uiter := length (a_upds am)\<rparr>) mb' \<and>
    drain NextUpdate (ub_fuel mb) (cancel_update vsub (of_nat n)) (snd (StartIteration mb)) b =
      bindR (foldR (cancel_delta vsub (of_nat n)) (a_upds am) b) (\<lambda>b. Inr (mb', b))"
    by (rule drain_read [OF assms(1)])
       (use size_bound assms(2) in \<open>auto simp: cancel_update_def cancel_delta_def split: option.split intro!: bindR_cong\<close>)
  moreover have "\<forall>u \<in> set (a_upds am). length (snd u) = n \<and> fst u \<in> set (map fst (a_upds a))"
    using assms(1,2,7) by (auto simp: ub_rep_def abuf_ok_def)
  then obtain b' where "foldR (cancel_delta vsub (of_nat n)) (a_upds am) b = Inr b'"
    "ub_rep (a\<lparr>a_upds := cancelled vsub n (a_upds am) (a_upds a)\<rparr>) b'"
    using cancel_deltas_rep [OF assms(5) _ assms(4,6)] by blast
  moreover have "fst (StartIteration mb) = 0"
    using StartIteration_rep [OF assms(1)] assms(3) by (simp add: a_start_def)
  ultimately show ?thesis by (auto simp: cancel_buffer_def split: prod.split)
qed

text \<open>What is left when the received value is the sum of one's own and another part.\<close>

lemma foldl_vsub:
  "length v = n \<Longrightarrow> \<forall>d \<in> set ds. length d = n \<Longrightarrow>
     foldl (vapp vsub n) (vapp vadd n v (vsum vadd n ds)) ds = v"
proof (induction ds)
  case Nil
  then show ?case using vadd_commute [of v "vzero n"] by (simp add: vsum_def vadd_zero)
next
  case (Cons d ds)
  then have "vapp vadd n v (vsum vadd n (d # ds)) = vapp vadd n (vapp vadd n v (vsum vadd n ds)) d"
    by (simp add: vsum_Cons vadd_commute [of d] vadd_assoc)
  with Cons show ?case by (simp add: vsub_vadd vadd_length)
qed

lemma cancelled_sum:
  assumes "\<forall>u \<in> set mine. length (snd u) = n" and "\<forall>u \<in> set others. length (snd u) = n"
  shows "cancelled vsub n mine
      (map (\<lambda>(k, v). (k, vapp vadd n v (vsum vadd n (deltas_for k mine)))) others) = others"
proof -
  have "foldl (vapp vsub n) (vapp vadd n v (vsum vadd n (deltas_for k mine))) (deltas_for k mine) = v"
    if "(k, v) \<in> set others" for k v
    by (rule foldl_vsub) (use that assms(2) deltas_for_length [OF assms(1)] in force)+
  then show ?thesis unfolding cancelled_def map_map by (intro map_idI) auto
qed

end

section \<open>Applying a buffer\<close>

text \<open>A table with the value function and values of \<open>n\<close> bytes.\<close>

definition table_ok :: "value_fn \<Rightarrow> nat \<Rightarrow> InternalTable \<Rightarrow> bool" where
  "table_ok vadd n it \<longleftrightarrow>
     it_vsize it = of_nat n \<and> it_vadd_func it = vadd \<and> (\<forall>k v. it_storage it k = Some v \<longrightarrow> length v = n)"

definition stored :: "nat \<Rightarrow> i64 \<Rightarrow> InternalTable \<Rightarrow> bytes" where
  "stored n k it = (case it_storage it k of None \<Rightarrow> vzero n | Some v \<Rightarrow> v)"

lemma stored_length: "table_ok vadd n it \<Longrightarrow> length (stored n k it) = n"
  by (auto simp: table_ok_def stored_def split: option.split)

context value_algebra
begin

lemma IncRaw_ok:
  assumes "table_ok vadd n it" and "length d = n"
  shows "IncRaw k d it = Inr (it\<lparr>it_storage := (it_storage it)(k \<mapsto> vapp vadd n (stored n k it) d)\<rparr>)"
proof -
  have "call_vfn vadd (stored n k it) d (of_nat n) = Inr (vapp vadd n (stored n k it) d)"
    using stored_length [OF assms(1)] assms(2) by (rule call_vadd)
  moreover have "(case it_storage it k of None \<Rightarrow> zero_value (of_nat n) | Some v \<Rightarrow> Inr v) = Inr (stored n k it)"
    using size_bound by (simp add: stored_def split: option.split)
  moreover have vs: "it_vsize it = of_nat n" "it_vadd_func it = vadd" using assms(1) by (simp_all add: table_ok_def)
  ultimately show ?thesis unfolding IncRaw_def vs by simp
qed

lemma IncRaw_table_ok:
  "table_ok vadd n it \<Longrightarrow> length d = n \<Longrightarrow>
     table_ok vadd n (it\<lparr>it_storage := (it_storage it)(k \<mapsto> vapp vadd n (stored n k it) d)\<rparr>)"
  using stored_length [of vadd n it k] vadd_length by (auto simp: table_ok_def)

lemma apply_all_sums:
  assumes "table_ok vadd n it" and "\<forall>u \<in> set upds. length (snd u) = n"
  shows "\<exists>s. foldR (\<lambda>(k, d). IncRaw k d) upds it = Inr (it\<lparr>it_storage := s\<rparr>) \<and>
    (\<forall>k. s k = (if deltas_for k upds = [] then it_storage it k
       else Some (vapp vadd n (stored n k it) (vsum vadd n (deltas_for k upds)))))"
  using assms
proof (induction upds arbitrary: it)
  case Nil
  then show ?case by (intro exI [of _ "it_storage it"]) simp
next
  case (Cons u upds)
  obtain k d where u: "u = (k, d)" by (cases u)
  have len: "length d = n" "\<forall>u \<in> set upds. length (snd u) = n" using Cons.prems(2) u by auto
  let ?it = "it\<lparr>it_storage := (it_storage it)(k \<mapsto> vapp vadd n (stored n k it) d)\<rparr>"
  obtain s where s: "foldR (\<lambda>(k, d). IncRaw k d) upds ?it = Inr (?it\<lparr>it_storage := s\<rparr>)"
    "\<forall>k. s k = (if deltas_for k upds = [] then it_storage ?it k
       else Some (vapp vadd n (stored n k ?it) (vsum vadd n (deltas_for k upds))))"
    using Cons.IH [OF IncRaw_table_ok [OF Cons.prems(1) len(1)] len(2)] by blast
  have sum: "vapp vadd n (vapp vadd n (stored n k it) d) (vsum vadd n (deltas_for k upds)) =
      vapp vadd n (stored n k it) (vsum vadd n (d # deltas_for k upds))"
    using stored_length [OF Cons.prems(1)] len deltas_for_length [OF len(2)]
    by (simp add: vsum_Cons vadd_assoc)
  have "s k' = (if deltas_for k' (u # upds) = [] then it_storage it k'
       else Some (vapp vadd n (stored n k' it) (vsum vadd n (deltas_for k' (u # upds)))))" for k'
    using s(2) sum len(1) by (auto simp: u vsum_single stored_def)
  moreover have "foldR (\<lambda>(k, d). IncRaw k d) (u # upds) it = Inr (it\<lparr>it_storage := s\<rparr>)"
    using s(1) by (simp add: u IncRaw_ok [OF Cons.prems(1) len(1)])
  ultimately show ?case by blast
qed

lemma apply_buffer_rep:
  assumes "ub_rep a b" and "a_usize a = n" and "table_ok vadd n it"
  shows "\<exists>b' s. apply_buffer b it = Inr (b', it\<lparr>it_storage := s\<rparr>) \<and>
    ub_rep (a\<lparr>a_uiter := length (a_upds a)\<rparr>) b' \<and>
    (\<forall>k. s k = (if deltas_for k (a_upds a) = [] then it_storage it k
       else Some (vapp vadd n (stored n k it) (vsum vadd n (deltas_for k (a_upds a))))))"
proof -
  have len: "\<forall>u \<in> set (a_upds a). length (snd u) = n" using assms(1,2) by (simp add: ub_rep_def abuf_ok_def)
  obtain s where s: "foldR (\<lambda>(k, d). IncRaw k d) (a_upds a) it = Inr (it\<lparr>it_storage := s\<rparr>)"
    "\<forall>k. s k = (if deltas_for k (a_upds a) = [] then it_storage it k
       else Some (vapp vadd n (stored n k it) (vsum vadd n (deltas_for k (a_upds a)))))"
    using apply_all_sums [OF assms(3) len] by blast
  have "it_vsize it = of_nat n" using assms(3) by (simp add: table_ok_def)
  then obtain b' where "ub_rep (a\<lparr>a_uiter := length (a_upds a)\<rparr>) b'"
    "apply_buffer b it = bindR (foldR (\<lambda>(k, d). IncRaw k d) (a_upds a) it) (\<lambda>s. Inr (b', s))"
    using drain_read [OF assms(1), of "apply_update (of_nat n)" "\<lambda>(k, d). IncRaw k d" it] size_bound assms(2)
    unfolding apply_buffer_def by (auto simp: apply_update_def)
  moreover from this s(1) have "apply_buffer b it = Inr (b', it\<lparr>it_storage := s\<rparr>)" by simp
  ultimately show ?thesis using s(2) by blast
qed

end

section \<open>The test for own ranges\<close>

definition used_ranges :: "abuf \<Rightarrow> (i32 \<times> i64 \<times> i64) list" where
  "used_ranges a = takeWhile (\<lambda>r. \<not> fst r <s 0) (a_ranges a)"

lemma used_ranges_0:
  "used_ranges a = [] \<longleftrightarrow> \<not> (0 < length (a_ranges a) \<and> \<not> fst (a_ranges a ! 0) <s 0)"
  by (cases "a_ranges a") (auto simp: used_ranges_def)

lemma only_own_ranges_rep:
  assumes "ub_rep a b" and "\<not> my_id <s 0"
  shows "\<exists>b' j. only_own_ranges my_id b =
      Inr (used_ranges a = [] \<or> (\<exists>x. used_ranges a = [(my_id, x)]), b') \<and> ub_rep (a\<lparr>a_riter := j\<rparr>) b'"
proof -
  have r0: "ub_rep (a\<lparr>a_riter := riter_at 0\<rparr>) (StartNodeRangeIteration b)"
    using assms(1) by (rule ub.rstart_law)
  have own: "-1 \<noteq> my_id" "(-1 :: i32) <s 0" using assms(2) by auto
  show ?thesis
  proof (cases "a_ranges a")
    case Nil
    with ub.rnxt_law [OF r0, of 0] obtain b' where "NextNodeRange (StartNodeRangeIteration b) = Inr (None, b')"
      "ub_rep (a\<lparr>a_riter := riter_at 0\<rparr>) b'" by auto
    with Nil own show ?thesis
      unfolding only_own_ranges_def range_node_id_def used_ranges_def by (intro exI conjI) auto
  next
    case (Cons x rs)
    obtain nid st en where x: "x = (nid, st, en)" by (cases x)
    show ?thesis
    proof (cases "nid <s 0")
      case True
      from ub.rnxt_law [OF r0, of 0] True Cons x obtain b' where
        "NextNodeRange (StartNodeRangeIteration b) = Inr (None, b')" "ub_rep (a\<lparr>a_riter := riter_at 0\<rparr>) b'" by auto
      with True Cons x own show ?thesis
        unfolding only_own_ranges_def range_node_id_def used_ranges_def by (intro exI conjI) auto
    next
      case False
      obtain b1 where b1: "NextNodeRange (StartNodeRangeIteration b) = Inr (Some x, b1)"
        and r1: "ub_rep (a\<lparr>a_riter := riter_at 1\<rparr>) b1"
        using ub.rnxt_law [OF r0, of 0] Cons x False by auto
      show ?thesis
      proof (cases "nid = my_id")
        case other: False
        with b1 r1 False Cons x show ?thesis
          unfolding only_own_ranges_def range_node_id_def used_ranges_def by (intro exI conjI) auto
      next
        case mine: True
        from ub.rnxt_law [OF r1, of 1] Cons obtain b2 j where
          b2: "NextNodeRange b1 = Inr (if rs \<noteq> [] \<and> \<not> fst (rs ! 0) <s 0 then Some (rs ! 0) else None, b2)"
          and r2: "ub_rep (a\<lparr>a_riter := j\<rparr>) b2"
          by auto
        have "used_ranges a = x # takeWhile (\<lambda>r. \<not> fst r <s 0) rs" using False Cons x by (simp add: used_ranges_def)
        moreover have "takeWhile (\<lambda>r. \<not> fst r <s 0) rs = [] \<longleftrightarrow> \<not> (rs \<noteq> [] \<and> \<not> fst (rs ! 0) <s 0)"
          by (cases rs) auto
        ultimately have P: "(used_ranges a = [] \<or> (\<exists>y. used_ranges a = [(my_id, y)])) \<longleftrightarrow> \<not> (rs \<noteq> [] \<and> \<not> fst (rs ! 0) <s 0)"
          using mine x by auto
        have "only_own_ranges my_id b = Inr (\<not> (rs \<noteq> [] \<and> \<not> fst (rs ! 0) <s 0), b2)"
          using b1 b2 mine x own by (auto simp: only_own_ranges_def range_node_id_def split: prod.splits)
        then show ?thesis unfolding P using r2 by (intro exI conjI)
      qed
    qed
  qed
qed

section \<open>A buffer that carries own updates\<close>

lemma map_of_mid: "\<forall>r \<in> set pre. fst r \<noteq> n \<Longrightarrow> map_of (pre @ (n, x) # suf) n = Some x"
  by (induction pre) auto

context value_algebra
begin

lemma remove_own_updates_rep:
  assumes "ub_rep a b" and "a_usize a = n" and "distinct (map fst (a_upds a))"
    and "a_ranges a = pre @ (my_id, st, en) # suf" and "\<forall>r \<in> set pre. \<not> fst r <s 0 \<and> fst r \<noteq> my_id"
    and "\<not> my_id <s 0" and "it_vsub_func it = vsub" and "it_vsize it = of_nat n"
    and "um_find tid (u_my_updates u) = Some (mb # queue)"
    and "ub_rep am mb" and "a_usize am = n" and "a_upds am \<noteq> []"
    and "set (map fst (a_upds am)) \<subseteq> set (map fst (a_upds a))"
    and "GetNodeRange my_id mb = Inr (Some (st, en))"
  shows "\<exists>b'. remove_own_updates it my_id tid b u =
      Inr (b', u\<lparr>u_my_updates := um_put tid queue (u_my_updates u)\<rparr>) \<and>
    ub_rep (a\<lparr>a_upds := cancelled vsub n (a_upds am) (a_upds a), a_ranges := pre @ (-1, st, en) # suf\<rparr>) b'"
proof -
  have g: "GetNodeRange my_id b = Inr (Some (st, en))"
    using map_of_mid [of pre my_id "(st, en)" suf] assms(4,5) by (simp add: GetNodeRange_rep [OF assms(1)])
  obtain b1 where c: "cancel_buffer vsub (of_nat n) mb b = Inr b1"
    and rep: "ub_rep (a\<lparr>a_upds := cancelled vsub n (a_upds am) (a_upds a)\<rparr>) b1"
    using cancel_buffer_rep [OF assms(10-12,1-3,13)] by blast
  have "cancel_loop vsub (of_nat n) my_id \<lparr>ur_st = st, ur_end = en\<rparr> st (mb # queue) b = Inr (queue, b1)"
    using assms(14) c by (simp add: Contains_def word_sle_eq word_sless_alt)
  moreover obtain b2 where d: "DeleteNodeRange my_id b1 = Inr (0, b2)"
    "ub_rep (a\<lparr>a_upds := cancelled vsub n (a_upds am) (a_upds a), a_ranges := pre @ (-1, st, en) # suf\<rparr>) b2"
    using DeleteNodeRange_rep [OF rep, of my_id] delete_slot_mid [OF assms(5,6), of st en suf] assms(4)
    by (auto simp: a_delete_range_def)
  ultimately show ?thesis using assms(7-9) g by (simp add: remove_own_updates_def)
qed

end

text \<open>The acts of a received buffer, given the buffer forwarded and the buffer left at the end.\<close>

definition recv_acts :: "InternalTable \<Rightarrow> i32 \<Rightarrow> UpdateBuffer \<Rightarrow> UpdateBuffer \<Rightarrow> recv_act list" where
  "recv_acts it tid fb cb =
     (if it_forward_updates it then [ToPropagator (MUpdateBuffer \<lparr>pub_table_id = tid, pub_update_buffer_ptr = fb\<rparr>)] else []) @
     (if it_do_user_cbk it then [UserCbk (it_update_buff_cbk it) tid cb] else [])"

lemma image_length:
  assumes "ub_rep a b" and "ub_image b = Inr data"
  shows "0 <s (of_nat (length data) :: i32)" and "cast_UpdateBuffer data = Inr b"
proof -
  have data: "data = ub_header b @ ub_tail b" using assms ub_image_rep by auto
  have "length data < 2147483648" "44 \<le> length data"
    using rep_tail_length [OF assms(1)] abuf_ok_bound [of a "a_cap a"] assms(1) by (auto simp: data ub_rep_def)
  then have "data \<noteq> []" "length data < 2147483648" by auto
  then show "0 <s (of_nat (length data) :: i32)" by (simp add: word_sless_alt)
  show "cast_UpdateBuffer data = Inr b" unfolding data by (rule cast_header_tail)
qed

lemma handle_recv_buffer_step:
  assumes "r_state r = R_RUN" and "um_find tid (r_table_dir r) = Some itable" and "heap itable = Some it"
    and "ub_rep a b" and "ub_image b = Inr data" and "\<not> r_my_id r <s 0"
    and "used_ranges a \<noteq> []" and "\<And>x. used_ranges a \<noteq> [(r_my_id r, x)]"
  shows "\<exists>b1 j. ub_rep (a\<lparr>a_riter := j\<rparr>) b1 \<and>
    handle_recv_buffer zmq_ok tid data r u heap =
      bindR (remove_own_updates it (r_my_id r) tid b1 u) (\<lambda>(fb, u).
      bindR (if it_apply_updates it then apply_buffer fb it else Inr (fb, it)) (\<lambda>(cb, it').
      Inr (r, u, heap(itable \<mapsto> it'), recv_acts it tid fb cb)))"
proof -
  obtain b1 j where o: "only_own_ranges (r_my_id r) b = Inr (False, b1)" and rep: "ub_rep (a\<lparr>a_riter := j\<rparr>) b1"
    using only_own_ranges_rep [OF assms(4,6)] assms(7,8) by auto
  have "handle_recv_buffer zmq_ok tid data r u heap =
      bindR (remove_own_updates it (r_my_id r) tid b1 u) (\<lambda>(fb, u).
      bindR (if it_apply_updates it then apply_buffer fb it else Inr (fb, it)) (\<lambda>(cb, it').
      Inr (r, u, heap(itable \<mapsto> it'), recv_acts it tid fb cb)))"
    using o image_length [OF assms(4,5)] assms(1-3)
    by (auto simp: handle_recv_buffer_def recv_acts_def intro!: bindR_cong)
  with rep show ?thesis by blast
qed

lemma deltas_for_distinct:
  "distinct (map fst us) \<Longrightarrow> deltas_for k us = (case map_of us k of None \<Rightarrow> [] | Some v \<Rightarrow> [v])"
  by (induction us) (auto simp: deltas_for_def filter_empty_conv image_iff split: option.split)

lemma used_ranges_mid:
  assumes "a_ranges a = pre @ (my_id, x) # suf" and "\<forall>r \<in> set pre. \<not> fst r <s 0" and "\<not> my_id <s 0"
  shows "used_ranges a = pre @ (my_id, x) # takeWhile (\<lambda>r. \<not> fst r <s 0) suf"
  using assms by (simp add: used_ranges_def takeWhile_append2)

context value_algebra
begin

lemma own_updates_removed:
  assumes "r_state r = R_RUN" and "um_find tid (r_table_dir r) = Some itable" and "heap itable = Some it"
    and "table_ok vadd n it" and "it_vsub_func it = vsub"
    and "um_find tid (u_my_updates u) = Some (mb # queue)"
    and "ub_rep am mb" and "a_usize am = n" and "a_upds am \<noteq> []" and "GetNodeRange (r_my_id r) mb = Inr (Some (st, en))"
    and "ub_rep a b" and "ub_image b = Inr data" and "a_usize a = n"
    and "a_ranges a = pre @ (r_my_id r, st, en) # suf" and "\<forall>x \<in> set pre. \<not> fst x <s 0 \<and> fst x \<noteq> r_my_id r"
    and "\<not> r_my_id r <s 0" and "pre \<noteq> [] \<or> (\<exists>x suf'. suf = x # suf' \<and> \<not> fst x <s 0)"
    and "a_upds a = map (\<lambda>(k, v). (k, vapp vadd n v (vsum vadd n (deltas_for k (a_upds am))))) others"
    and "\<forall>x \<in> set others. length (snd x) = n" and "distinct (map fst others)"
    and "set (map fst (a_upds am)) \<subseteq> set (map fst others)"
  shows "\<exists>fb cb it'. recv_handle zmq_ok (RWire (WUpdateBuffer tid data)) r u heap =
      Inr (r, u\<lparr>u_my_updates := um_put tid queue (u_my_updates u)\<rparr>, heap(itable \<mapsto> it'), recv_acts it tid fb cb) \<and>
    (\<exists>j. ub_rep (a\<lparr>a_riter := j, a_upds := others, a_ranges := pre @ (-1, st, en) # suf\<rparr>) fb) \<and>
    it' = it\<lparr>it_storage := it_storage it'\<rparr> \<and>
    buffer_updates fb = Inr others \<and> buffer_updates cb = Inr others \<and>
    (if it_apply_updates it
     then (\<forall>k. it_storage it' k = (if k \<in> set (map fst others)
       then Some (vapp vadd n (stored n k it) (the (map_of others k))) else it_storage it k))
     else it' = it)"
proof -
  have used: "used_ranges a = pre @ (r_my_id r, st, en) # takeWhile (\<lambda>r. \<not> fst r <s 0) suf"
    using used_ranges_mid [OF assms(14)] assms(15,16) by auto
  have keys: "map fst (a_upds a) = map fst others" unfolding assms(18) by (induction others) auto
  have ne: "used_ranges a \<noteq> []" "used_ranges a \<noteq> [(r_my_id r, x)]" for x
    using assms(17) by (auto simp: used append_eq_Cons_conv)
  obtain b1 j where rep1: "ub_rep (a\<lparr>a_riter := j\<rparr>) b1"
    and step: "handle_recv_buffer zmq_ok tid data r u heap =
      bindR (remove_own_updates it (r_my_id r) tid b1 u) (\<lambda>(fb, u).
      bindR (if it_apply_updates it then apply_buffer fb it else Inr (fb, it)) (\<lambda>(cb, it').
      Inr (r, u, heap(itable \<mapsto> it'), recv_acts it tid fb cb)))"
    using handle_recv_buffer_step [where heap = heap and itable = itable, OF assms(1-3,11,12,16) ne, of u] by blast
  have vs: "it_vsize it = of_nat n" using assms(4) by (simp add: table_ok_def)
  have mine: "\<forall>u \<in> set (a_upds am). length (snd u) = n" using assms(7,8) by (simp add: ub_rep_def abuf_ok_def)
  have c: "cancelled vsub n (a_upds am) (a_upds a) = others"
    unfolding assms(18) by (rule cancelled_sum [OF mine assms(19)])
  let ?a = "a\<lparr>a_riter := j, a_upds := others, a_ranges := pre @ (-1, st, en) # suf\<rparr>"
  obtain fb where fb: "remove_own_updates it (r_my_id r) tid b1 u =
      Inr (fb, u\<lparr>u_my_updates := um_put tid queue (u_my_updates u)\<rparr>)" and rep2: "ub_rep ?a fb"
    using remove_own_updates_rep [OF rep1 _ _ _ assms(15,16,5) vs assms(6-9) _ assms(10)] assms(13,14,20,21) keys c by auto
  have fbu: "buffer_updates fb = Inr others" using buffer_updates_rep [OF rep2] by simp
  show ?thesis
  proof (cases "it_apply_updates it")
    case True
    obtain cb s where ap: "apply_buffer fb it = Inr (cb, it\<lparr>it_storage := s\<rparr>)"
      and rep3: "ub_rep (?a\<lparr>a_uiter := length (a_upds ?a)\<rparr>) cb"
      and s: "\<forall>k. s k = (if deltas_for k (a_upds ?a) = [] then it_storage it k
        else Some (vapp vadd n (stored n k it) (vsum vadd n (deltas_for k (a_upds ?a)))))"
      using apply_buffer_rep [OF rep2 _ assms(4)] assms(13) by auto
    have "buffer_updates cb = Inr others" using buffer_updates_rep [OF rep3] by simp
    moreover have "s k = (if k \<in> set (map fst others)
       then Some (vapp vadd n (stored n k it) (the (map_of others k))) else it_storage it k)" for k
    proof (cases "map_of others k")
      case None
      then have "k \<notin> set (map fst others)" by (simp add: map_of_eq_None_iff)
      with None show ?thesis using s by (simp add: deltas_for_distinct [OF assms(20)])
    next
      case (Some v)
      then have "(k, v) \<in> set others" by (rule map_of_SomeD)
      then have "length v = n" "k \<in> set (map fst others)" using assms(19) by force+
      with Some show ?thesis using s by (simp add: deltas_for_distinct [OF assms(20)] vsum_single)
    qed
    ultimately show ?thesis
      by (intro exI [of _ fb] exI [of _ cb] exI [of _ "it\<lparr>it_storage := s\<rparr>"]) (use rep2 in \<open>auto simp: step fb ap True fbu\<close>)
  next
    case False
    with step fb fbu rep2 show ?thesis by auto
  qed
qed

text \<open>A buffer without a range of this node is applied and forwarded as it is.\<close>

lemma foreign_buffer_applied:
  assumes "r_state r = R_RUN" and "um_find tid (r_table_dir r) = Some itable" and "heap itable = Some it"
    and "table_ok vadd n it" and "it_apply_updates it"
    and "ub_rep a b" and "ub_image b = Inr data" and "a_usize a = n" and "distinct (map fst (a_upds a))"
    and "used_ranges a \<noteq> []" and "r_my_id r \<notin> fst ` set (a_ranges a)" and "\<not> r_my_id r <s 0"
  shows "\<exists>fb cb it'. recv_handle zmq_ok (RWire (WUpdateBuffer tid data)) r u heap =
      Inr (r, u, heap(itable \<mapsto> it'), recv_acts it tid fb cb) \<and>
    (\<exists>j. ub_rep (a\<lparr>a_riter := j\<rparr>) fb) \<and> table_ok vadd n it' \<and> it' = it\<lparr>it_storage := it_storage it'\<rparr> \<and>
    (\<forall>k. stored n k it' = vapp vadd n (stored n k it) (vsum vadd n (deltas_for k (a_upds a))))"
proof -
  have ne: "used_ranges a \<noteq> [(r_my_id r, x)]" for x
    using assms(11) set_takeWhileD [of "(r_my_id r, x)" "\<lambda>r. \<not> fst r <s 0" "a_ranges a"]
    by (force simp: used_ranges_def)
  obtain b1 j where rep1: "ub_rep (a\<lparr>a_riter := j\<rparr>) b1"
    and step: "handle_recv_buffer zmq_ok tid data r u heap =
      bindR (remove_own_updates it (r_my_id r) tid b1 u) (\<lambda>(fb, u).
      bindR (if it_apply_updates it then apply_buffer fb it else Inr (fb, it)) (\<lambda>(cb, it').
      Inr (r, u, heap(itable \<mapsto> it'), recv_acts it tid fb cb)))"
    using handle_recv_buffer_step [where heap = heap and itable = itable, OF assms(1-3,6,7,12,10) ne, of u] by blast
  have "GetNodeRange (r_my_id r) b1 = Inr None"
    using GetNodeRange_rep [OF rep1] assms(11) by (simp add: map_of_eq_None_iff)
  then have rm: "remove_own_updates it (r_my_id r) tid b1 u = Inr (b1, u)" by (simp add: remove_own_updates_def)
  have us: "a_usize (a\<lparr>a_riter := j\<rparr>) = n" using assms(8) by simp
  obtain cb s where ap: "apply_buffer b1 it = Inr (cb, it\<lparr>it_storage := s\<rparr>)"
    and s: "\<forall>k. s k = (if deltas_for k (a_upds a) = [] then it_storage it k
        else Some (vapp vadd n (stored n k it) (vsum vadd n (deltas_for k (a_upds a)))))"
    using apply_buffer_rep [OF rep1 us assms(4)] by auto
  have len: "\<forall>u \<in> set (a_upds a). length (snd u) = n" using assms(6,8) by (simp add: ub_rep_def abuf_ok_def)
  have st: "stored n k (it\<lparr>it_storage := s\<rparr>) = vapp vadd n (stored n k it) (vsum vadd n (deltas_for k (a_upds a)))" for k
    using s stored_length [OF assms(4), of k] vadd_commute [of "stored n k it" "vzero n"]
    by (simp add: stored_def vsum_def vadd_zero)
  have "table_ok vadd n (it\<lparr>it_storage := s\<rparr>)"
    using assms(4) s deltas_for_length [OF len] stored_length [OF assms(4)]
    by (auto simp: table_ok_def vadd_length split: if_split_asm)
  with step rm ap assms(5) st rep1 show ?thesis
    by (intro exI [of _ b1] exI [of _ cb] exI [of _ "it\<lparr>it_storage := s\<rparr>"]) auto
qed

end

text \<open>
  C5: a buffer that has come round the ring with the range of the oldest own buffer loses
  exactly the own deltas: what is forwarded, applied and shown to the callback are the updates
  of the other nodes, the table gains those, and the own buffer leaves the queue.
\<close>

theorem own_updates_cancelled:
  assumes "value_algebra vadd vsub n"
    and "r_state r = R_RUN" and "um_find tid (r_table_dir r) = Some itable" and "heap itable = Some it"
    and "table_ok vadd n it" and "it_vsub_func it = vsub"
    and "um_find tid (u_my_updates u) = Some (mb # queue)"
    and "ub_rep am mb" and "a_usize am = n" and "a_upds am \<noteq> []" and "GetNodeRange (r_my_id r) mb = Inr (Some (st, en))"
    and "ub_rep a b" and "ub_image b = Inr data" and "a_usize a = n"
    and "a_ranges a = pre @ (r_my_id r, st, en) # suf" and "\<forall>x \<in> set pre. \<not> fst x <s 0 \<and> fst x \<noteq> r_my_id r"
    and "\<not> r_my_id r <s 0" and "pre \<noteq> [] \<or> (\<exists>x suf'. suf = x # suf' \<and> \<not> fst x <s 0)"
    and "a_upds a = map (\<lambda>(k, v). (k, vapp vadd n v (vsum vadd n (deltas_for k (a_upds am))))) others"
    and "\<forall>x \<in> set others. length (snd x) = n" and "distinct (map fst others)"
    and "set (map fst (a_upds am)) \<subseteq> set (map fst others)"
  shows "\<exists>fb cb it'. recv_handle zmq_ok (RWire (WUpdateBuffer tid data)) r u heap =
      Inr (r, u\<lparr>u_my_updates := um_put tid queue (u_my_updates u)\<rparr>, heap(itable \<mapsto> it'), recv_acts it tid fb cb) \<and>
    buffer_updates fb = Inr others \<and> buffer_updates cb = Inr others \<and>
    (if it_apply_updates it
     then (\<forall>k. it_storage it' k = (if k \<in> set (map fst others)
       then Some (vapp vadd n (stored n k it) (the (map_of others k))) else it_storage it k))
     else it' = it)"
  using value_algebra.own_updates_removed [where heap = heap and itable = itable, OF assms] by (elim exE conjE) (intro exI conjI)

definition sample_table :: InternalTable where
  "sample_table = InternalTable_ctor 0 5
     \<lparr>tcf_vsize = 4, tcf_vadd_func = IntAdd, tcf_vsub_func = IntSub, tcf_loop = True, tcf_apply_updates = True,
      tcf_forward_updates = True, tcf_do_user_cbk = False, tcf_update_buff_cbk = 0\<rparr>"

definition sample_recv :: "i32 \<Rightarrow> i32 \<Rightarrow> Receiver" where
  "sample_recv my_id expected = (Receiver_ctor
     \<lparr>rt_my_id = my_id, rt_my_info = sample_node, rt_num_expected_propagators = expected,
      rt_update_push_endp = ''u'', rt_internal_recv_pull_endp = ''i'', rt_internal_pair_recv_push_endp = ''r2p''\<rparr> False)
     \<lparr>r_state := R_RUN, r_table_dir := [(5, 5)]\<rparr>"

definition sample_own :: "UpdateBuffer list \<Rightarrow> recv_thr" where
  "sample_own bs = recv_thr_init\<lparr>u_my_updates := [(5, bs)]\<rparr>"

lemma sample_recv_simps:
  "r_state (sample_recv m e) = R_RUN" "um_find 5 (r_table_dir (sample_recv m e)) = Some 5"
  "r_my_id (sample_recv m e) = m" "r_num_expected (sample_recv m e) = e"
  "um_find 5 (u_my_updates (sample_own bs)) = Some bs"
  "table_ok IntAdd 4 sample_table" "it_vsub_func sample_table = IntSub" "it_vsize sample_table = of_nat 4"
  "it_apply_updates sample_table" "it_forward_updates sample_table"
  "it_storage sample_table = Map.empty" "\<not> it_do_user_cbk sample_table"
  by (simp_all add: sample_recv_def Receiver_ctor_def sample_own_def sample_table_def InternalTable_ctor_def table_ok_def)

theorem own_updates_cancelled_witness:
  "\<exists>b mb data fb cb it'.
     buffer_updates b = Inr [(10, [5, 0, 0, 0])] \<and> buffer_updates mb = Inr [(10, [1, 0, 0, 0])] \<and>
     ub_image b = Inr data \<and>
     recv_handle zmq_ok (RWire (WUpdateBuffer 5 data)) (sample_recv 3 1) (sample_own [mb]) [5 \<mapsto> sample_table] =
       Inr (sample_recv 3 1, sample_own [], [5 \<mapsto> it'], recv_acts sample_table 5 fb cb) \<and>
     buffer_updates fb = Inr [(10, [4, 0, 0, 0])] \<and> it_storage it' 10 = Some [4, 0, 0, 0]"
proof -
  obtain am mb where am: "ub_rep am mb" "a_usize am = 4" "a_upds am = [(10, [1, 0, 0, 0])]"
    "a_ranges am = [(3, 0, 5), (8, 2, 6)]" using sample_ranges by blast
  obtain a b where a: "ub_rep a b" "a_usize a = 4" "a_upds a = [(10, [5, 0, 0, 0])]"
    "a_ranges a = [] @ (3, 0, 5) # [(8, 2, 6)]" using sample_ranges_of [of "[5, 0, 0, 0]" 0 5] by auto
  obtain data where data: "ub_image b = Inr data" using ub_image_rep [OF a(1)] by blast
  have sum: "[5, 0, 0, 0] = vapp IntAdd 4 [4, 0, 0, 0] (vsum IntAdd 4 [[1, 0, 0, 0]])"
    "vapp IntAdd 4 (vzero 4) [4, 0, 0, 0] = [4, 0, 0, 0]" by code_simp+
  have mine: "a_upds am \<noteq> []" "GetNodeRange 3 mb = Inr (Some (0, 5))"
    using am by (simp_all add: GetNodeRange_rep)
  have others: "a_upds a = map (\<lambda>(k, v). (k, vapp IntAdd 4 v (vsum IntAdd 4 (deltas_for k (a_upds am))))) [(10, [4, 0, 0, 0])]"
    "set (map fst (a_upds am)) \<subseteq> set (map fst ([(10, [4, 0, 0, 0])] :: (i64 \<times> bytes) list))"
    using sum(1) by (simp_all add: am a)
  let ?others = "[(10, [4, 0, 0, 0])] :: (i64 \<times> bytes) list"
  have "\<exists>fb cb it'. recv_handle zmq_ok (RWire (WUpdateBuffer 5 data)) (sample_recv 3 1) (sample_own [mb]) [5 \<mapsto> sample_table] =
       Inr (sample_recv 3 1, (sample_own [mb])\<lparr>u_my_updates := um_put 5 [] (u_my_updates (sample_own [mb]))\<rparr>,
         [5 \<mapsto> sample_table](5 \<mapsto> it'), recv_acts sample_table 5 fb cb) \<and>
    buffer_updates fb = Inr ?others \<and> buffer_updates cb = Inr ?others \<and>
    (if it_apply_updates sample_table
     then (\<forall>k. it_storage it' k = (if k \<in> set (map fst ?others)
       then Some (vapp IntAdd 4 (stored 4 k sample_table) (the (map_of ?others k))) else it_storage sample_table k))
     else it' = sample_table)"
    by (rule own_updates_cancelled [where vsub = IntSub and itable = 5 and pre = "[]" and st = 0 and en = 5 and
          suf = "[(8, 2, 6)]" and am = am and a = a and b = b,
          OF int_value.value_algebra_axioms sample_recv_simps(1,2) _ sample_recv_simps(6,7,5) am(1,2) mine(1) _ a(1) data a(2) _ _ _ _ others(1) _ _ others(2)])
       (use mine(2) a(4) in \<open>auto simp: sample_recv_simps word_sless_alt\<close>)
  then obtain fb cb it' where "recv_handle zmq_ok (RWire (WUpdateBuffer 5 data)) (sample_recv 3 1) (sample_own [mb]) [5 \<mapsto> sample_table] =
       Inr (sample_recv 3 1, (sample_own [mb])\<lparr>u_my_updates := um_put 5 [] (u_my_updates (sample_own [mb]))\<rparr>,
         [5 \<mapsto> sample_table](5 \<mapsto> it'), recv_acts sample_table 5 fb cb)"
    and "buffer_updates fb = Inr [(10, [4, 0, 0, 0])]"
    and "it_storage it' 10 = Some (vapp IntAdd 4 (stored 4 10 sample_table) [4, 0, 0, 0])"
    by (auto simp: sample_recv_simps)
  moreover have "(sample_own [mb])\<lparr>u_my_updates := um_put 5 [] (u_my_updates (sample_own [mb]))\<rparr> = sample_own []"
    by (simp add: sample_own_def)
  moreover have "stored 4 10 sample_table = vzero 4" by (simp add: stored_def sample_recv_simps)
  ultimately show ?thesis
    using buffer_updates_rep [OF a(1)] buffer_updates_rep [OF am(1)] a(3) am(3) data sum(2)
    by (intro exI [of _ b] exI [of _ mb] exI [of _ data] exI [of _ fb] exI [of _ cb] exI [of _ it']) simp
qed

section \<open>Buffers the code refuses\<close>

lemma sint_Suc: "x <s y \<Longrightarrow> sint (x + 1) = sint x + 1" for x y :: i64
proof -
  assume "x <s y"
  then have "sint x < sint y" by (simp add: word_sless_alt)
  moreover have "sint y < 2 ^ 63" "- (2 ^ 63) \<le> sint x"
    using sint_range_size [of y] sint_range_size [of x] by (simp_all add: word_size)
  ultimately show ?thesis by (simp add: sint_word_add signed_take_bit_int_eq_self)
qed

text \<open>
  C36: when a received buffer covers two own buffers, the second of which starts directly
  behind the first, the check on the sequence number fails: the loop expects the second
  buffer to start at the last number of the first instead of the number behind it.
\<close>

theorem two_own_buffers_rejected:
  assumes "GetNodeRange my_id b = Inr (Some (st, en2))"
    and "um_find tid (u_my_updates u) = Some (mb1 # mb2 # queue)"
    and "GetNodeRange my_id mb1 = Inr (Some (st, en1))" and "GetNodeRange my_id mb2 = Inr (Some (en1 + 1, en2))"
    and "st <=s en1" and "en1 <s en2"
    and "cancel_buffer (it_vsub_func it) (it_vsize it) mb1 b = Inr b1"
  shows "remove_own_updates it my_id tid b u = Inl (Check_failed ''CHECK_EQ(my_update_range.st_, seq_num)'')"
  using assms sint_Suc [OF assms(6)]
  by (simp add: remove_own_updates_def Contains_def word_sle_eq word_sless_alt)

theorem two_own_buffers_rejected_witness:
  "\<exists>b mb1 mb2. remove_own_updates sample_table 3 5 b (sample_own [mb1, mb2]) =
     Inl (Check_failed ''CHECK_EQ(my_update_range.st_, seq_num)'')"
proof -
  obtain a b where a: "ub_rep a b" "a_usize a = 4" "a_upds a = [(10, [5, 0, 0, 0])]" "a_ranges a = [(3, 0, 9), (8, 2, 6)]"
    using sample_ranges_of [of "[5, 0, 0, 0]" 0 9] by auto
  obtain a1 mb1 where a1: "ub_rep a1 mb1" "a_usize a1 = 4" "a_upds a1 = [(10, [1, 0, 0, 0])]" "a_ranges a1 = [(3, 0, 5), (8, 2, 6)]"
    using sample_ranges by blast
  obtain a2 mb2 where a2: "ub_rep a2 mb2" "a_ranges a2 = [(3, 5 + 1, 9), (8, 2, 6)]"
    using sample_ranges_of [of "[1, 0, 0, 0]" "5 + 1" 9] by auto
  obtain b1 where "cancel_buffer (it_vsub_func sample_table) (it_vsize sample_table) mb1 b = Inr b1"
    using int_value.cancel_buffer_rep [OF a1(1,2) _ a(1,2)] a1 a by (auto simp: sample_recv_simps)
  then have "remove_own_updates sample_table 3 5 b (sample_own [mb1, mb2]) =
     Inl (Check_failed ''CHECK_EQ(my_update_range.st_, seq_num)'')"
    by (intro two_own_buffers_rejected [where st = 0 and ?en1.0 = 5 and ?en2.0 = 9 and ?mb1.0 = mb1 and ?mb2.0 = mb2 and queue = "[]"])
       (use a a1 a2 in \<open>simp_all add: GetNodeRange_rep [OF a(1)] GetNodeRange_rep [OF a1(1)] GetNodeRange_rep [OF a2(1)] sample_recv_simps word_sle_eq word_sless_alt\<close>)
  then show ?thesis by blast
qed

text \<open>
  A buffer that carries nothing but the node's own range is dropped with the queue of
  own buffers left as it is; the next buffer with own updates is then refused, because the
  oldest own buffer in the queue does not lie in its range.
\<close>

theorem dropped_own_buffer_blocks_next:
  assumes "r_state r = R_RUN" and "\<not> r_my_id r <s 0"
    and "ub_rep a b" and "ub_image b = Inr data" and "used_ranges a = [(r_my_id r, st, en)]"
    and "um_find tid (u_my_updates u) = Some (mb # queue)"
    and "GetNodeRange (r_my_id r) mb = Inr (Some (st, en))" and "st <=s en" and "en <s en2"
    and "GetNodeRange (r_my_id r) b2 = Inr (Some (en + 1, en2))"
  shows "recv_handle zmq_ok (RWire (WUpdateBuffer tid data)) r u heap = Inr (r, u, heap, []) \<and>
    remove_own_updates it (r_my_id r) tid b2 u = Inl (Check_failed ''My update range is not contained'')"
proof -
  obtain b' where "only_own_ranges (r_my_id r) b = Inr (True, b')"
    using only_own_ranges_rep [OF assms(3,2)] assms(5) by auto
  then have "recv_handle zmq_ok (RWire (WUpdateBuffer tid data)) r u heap = Inr (r, u, heap, [])"
    using image_length [OF assms(3,4)] assms(1) by (simp add: handle_recv_buffer_def)
  moreover have "remove_own_updates it (r_my_id r) tid b2 u = Inl (Check_failed ''My update range is not contained'')"
    using assms(6-10) sint_Suc [OF assms(9)] by (simp add: remove_own_updates_def Contains_def word_sle_eq)
  ultimately show ?thesis by simp
qed

theorem dropped_own_buffer_blocks_next_witness:
  "\<exists>b data mb b2. ub_image b = Inr data \<and> buffer_ranges b = Inr [(3, 0, 5)] \<and>
     recv_handle zmq_ok (RWire (WUpdateBuffer 5 data)) (sample_recv 3 1) (sample_own [mb]) [5 \<mapsto> sample_table] =
       Inr (sample_recv 3 1, sample_own [mb], [5 \<mapsto> sample_table], []) \<and>
     remove_own_updates sample_table 3 5 b2 (sample_own [mb]) = Inl (Check_failed ''My update range is not contained'')"
proof -
  obtain a0 b0 where a0: "ub_rep a0 b0" "a_ranges a0 = [(3, 0, 5)] @ (8, 2, 6) # []" using sample_ranges by auto
  obtain b where b: "ub_rep (a0\<lparr>a_ranges := [(3, 0, 5)] @ (-1, 2, 6) # []\<rparr>) b"
    using DeleteNodeRange_rep [OF a0(1), of 8] a0(2) delete_slot_mid [of "[(3, 0, 5)]" 8 2 6 "[]"]
    by (auto simp: a_delete_range_def word_sless_alt)
  obtain data where data: "ub_image b = Inr data" using ub_image_rep [OF b] by blast
  obtain a2 b2 where a2: "ub_rep a2 b2" "a_ranges a2 = [(3, 5 + 1, 9), (8, 2, 6)]"
    using sample_ranges_of [of "[1, 0, 0, 0]" "5 + 1" 9] by auto
  have used: "used_ranges (a0\<lparr>a_ranges := [(3, 0, 5)] @ (-1, 2, 6) # []\<rparr>) = [(3, 0, 5)]"
    by (simp add: used_ranges_def word_sless_alt)
  have "recv_handle zmq_ok (RWire (WUpdateBuffer 5 data)) (sample_recv 3 1) (sample_own [b0]) [5 \<mapsto> sample_table] =
       Inr (sample_recv 3 1, sample_own [b0], [5 \<mapsto> sample_table], []) \<and>
     remove_own_updates sample_table (r_my_id (sample_recv 3 1)) 5 b2 (sample_own [b0]) = Inl (Check_failed ''My update range is not contained'')"
    by (rule dropped_own_buffer_blocks_next [OF _ _ b data, where st = 0 and en = 5 and ?en2.0 = 9 and mb = b0 and queue = "[]"])
       (use a0 a2 used in \<open>simp_all add: GetNodeRange_rep [OF a0(1)] GetNodeRange_rep [OF a2(1)] sample_recv_simps word_sle_eq word_sless_alt\<close>)
  then show ?thesis
    using data buffer_ranges_rep [OF b] used
    by (intro exI [of _ b] exI [of _ data] exI [of _ b0] exI [of _ b2]) (simp add: sample_recv_simps used_ranges_def)
qed

end
