(* ===== verification/Table_Props.thy ===== *)
theory Table_Props
  imports Receiver_Data Event_Loop
begin

text \<open>
  Properties of the tables: an application thread reads back the sum of what it added and
  leaves one log message per increment for the propagator thread; the values of a table keep
  the size of the table under every operation of the application and of the receiver thread.
\<close>

section \<open>Increments of an application thread\<close>

fun inc_all ::
  "zmq_lib \<Rightarrow> nat \<Rightarrow> Table \<Rightarrow> (i64 \<times> bytes) list \<Rightarrow> tables \<Rightarrow> Propagator \<Rightarrow> (tables \<times> Propagator) res" where
  "inc_all zs thr tb [] heap p = Inr (heap, p)"
| "inc_all zs thr tb ((k, d) # incs) heap p =
     bindR (Table_Inc zs thr k d tb heap p) (\<lambda>(heap, p). inc_all zs thr tb incs heap p)"

text \<open>The message \<open>Propagator::Inc\<close> pushes for a key and a delta.\<close>

definition log_msg :: "i32 \<Rightarrow> i64 \<times> bytes \<Rightarrow> propagator_msg" where
  "log_msg tid = (\<lambda>(k, d). MUpdateLog \<lparr>ul_table_id = tid, ul_key = scast (ucast k :: i32), ul_update_type = EInc\<rparr> d)"

lemma Propagator_Inc_ok:
  "p_state p = P_RUN \<Longrightarrow> thr \<in> p_update_push_sock p \<Longrightarrow>
     Propagator_Inc zmq_ok thr tid key d p =
       Inr (0, p\<lparr>p_update_queue := p_update_queue p @ [MUpdateLog \<lparr>ul_table_id = tid, ul_key = scast key, ul_update_type = EInc\<rparr> d]\<rparr>)"
  by (simp add: Propagator_Inc_def)

lemma Propagator_Inc_refused:
  "p_state p \<noteq> P_RUN \<or> thr \<notin> p_update_push_sock p \<Longrightarrow> Propagator_Inc zs thr tid key d p = Inr (-1, p)"
  by (auto simp: Propagator_Inc_def)

lemma Table_Get_stored:
  assumes "heap (tb_internal_table tb) = Some it" and "table_ok vadd n it"
  shows "\<exists>heap'. Table_Get n k tb heap = Inr (stored n k it, heap') \<and>
    (\<exists>it'. heap' = heap(tb_internal_table tb \<mapsto> it') \<and> (\<forall>k. stored n k it' = stored n k it))"
proof (cases "it_storage it k")
  case None
  let ?it = "it\<lparr>it_storage := (it_storage it)(k \<mapsto> vzero n)\<rparr>"
  have "Table_Get n k tb heap = Inr (stored n k it, heap(tb_internal_table tb \<mapsto> ?it))"
    using None assms(1) by (simp add: Table_Get_def InternalTable_Get_def stored_def vzero_def mem_read_def Let_def)
  moreover have "\<forall>k'. stored n k' ?it = stored n k' it" using None by (simp add: stored_def)
  ultimately show ?thesis by blast
next
  case (Some v)
  moreover have "length v = n" using assms(2) Some by (simp add: table_ok_def)
  ultimately show ?thesis
    using assms(1) by (auto simp: Table_Get_def InternalTable_Get_def stored_def mem_read_def)
qed

context value_algebra
begin

lemma vadd_zero_right: "length v = n \<Longrightarrow> vapp vadd n v (vsum vadd n []) = v"
  using vadd_commute [of v "vzero n"] by (simp add: vsum_def vadd_zero)

lemma Table_Inc_step:
  assumes "heap (tb_internal_table tb) = Some it" and "table_ok vadd n it" and "length d = n"
    and "Propagator_Inc zs thr (it_table_id it) (ucast k) d p = Inr (ret, p')"
  shows "Table_Inc zs thr k d tb heap p =
    Inr (heap(tb_internal_table tb \<mapsto> it\<lparr>it_storage := (it_storage it)(k \<mapsto> vapp vadd n (stored n k it) d)\<rparr>), p')"
  using assms by (simp add: Table_Inc_def InternalTable_Inc_def IncRaw_ok)

lemma inc_all_run:
  assumes "heap (tb_internal_table tb) = Some it" and "table_ok vadd n it"
    and "\<forall>x \<in> set incs. length (snd x) = n"
    and "p_state p = P_RUN" and "thr \<in> p_update_push_sock p"
  shows "\<exists>it'. inc_all zmq_ok thr tb incs heap p = Inr (heap(tb_internal_table tb \<mapsto> it'),
      p\<lparr>p_update_queue := p_update_queue p @ map (log_msg (it_table_id it)) incs\<rparr>) \<and>
    table_ok vadd n it' \<and> it' = it\<lparr>it_storage := it_storage it'\<rparr> \<and>
    (\<forall>k. stored n k it' = vapp vadd n (stored n k it) (vsum vadd n (deltas_for k incs)))"
  using assms
proof (induction incs arbitrary: heap p it)
  case Nil
  then show ?case by (intro exI [of _ it]) (simp add: fun_upd_idem stored_length vadd_zero_right)
next
  case (Cons x incs)
  obtain k d where x: "x = (k, d)" by (cases x)
  have d: "length d = n" and rest: "\<forall>x \<in> set incs. length (snd x) = n" using Cons.prems(3) x by auto
  let ?it = "it\<lparr>it_storage := (it_storage it)(k \<mapsto> vapp vadd n (stored n k it) d)\<rparr>"
  let ?p = "p\<lparr>p_update_queue := p_update_queue p @ [log_msg (it_table_id it) (k, d)]\<rparr>"
  have step: "Table_Inc zmq_ok thr k d tb heap p = Inr (heap(tb_internal_table tb \<mapsto> ?it), ?p)"
    using Table_Inc_step [where heap = heap and tb = tb, OF Cons.prems(1,2) d] Propagator_Inc_ok [OF Cons.prems(4,5)]
    by (simp add: log_msg_def)
  have "\<exists>it'. inc_all zmq_ok thr tb incs (heap(tb_internal_table tb \<mapsto> ?it)) ?p =
      Inr ((heap(tb_internal_table tb \<mapsto> ?it))(tb_internal_table tb \<mapsto> it'),
      ?p\<lparr>p_update_queue := p_update_queue ?p @ map (log_msg (it_table_id ?it)) incs\<rparr>) \<and>
    table_ok vadd n it' \<and> it' = ?it\<lparr>it_storage := it_storage it'\<rparr> \<and> (\<forall>k'. stored n k' it' = vapp vadd n (stored n k' ?it) (vsum vadd n (deltas_for k' incs)))"
    by (rule Cons.IH [OF _ IncRaw_table_ok [OF Cons.prems(2) d] rest]) (use Cons.prems(4,5) in simp_all)
  then obtain it' where it': "inc_all zmq_ok thr tb incs (heap(tb_internal_table tb \<mapsto> ?it)) ?p =
      Inr (heap(tb_internal_table tb \<mapsto> it'),
      p\<lparr>p_update_queue := p_update_queue p @ map (log_msg (it_table_id it)) (x # incs)\<rparr>)"
    "table_ok vadd n it'" "it' = it\<lparr>it_storage := it_storage it'\<rparr>"
    "\<forall>k'. stored n k' it' = vapp vadd n (stored n k' ?it) (vsum vadd n (deltas_for k' incs))"
    by (auto simp: x simp del: fun_upd_apply)
  have "stored n k' it' = vapp vadd n (stored n k' it) (vsum vadd n (deltas_for k' (x # incs)))" for k'
    using it'(4) d deltas_for_length [OF rest, of k'] stored_length [OF Cons.prems(2)]
    by (auto simp: x stored_def vsum_Cons vadd_assoc)
  with it'(1-3) show ?case by (intro exI [of _ it']) (simp add: x step del: fun_upd_apply)
qed

end

text \<open>
  C14: a registered thread of a running database adds a sequence of deltas to a table. Reading any
  key afterwards gives the old value plus the sum of its deltas, and the propagator's queue
  has got one log message per increment, in order.
\<close>

theorem inc_then_get:
  assumes "value_algebra vadd vsub n"
    and "heap (tb_internal_table tb) = Some it" and "table_ok vadd n it"
    and "\<forall>x \<in> set incs. length (snd x) = n"
    and "p_state p = P_RUN" and "thr \<in> p_update_push_sock p"
  shows "\<exists>heap' p'. inc_all zmq_ok thr tb incs heap p = Inr (heap', p') \<and>
    (\<forall>k. \<exists>heap''. Table_Get n k tb heap' =
       Inr (vapp vadd n (stored n k it) (vsum vadd n (deltas_for k incs)), heap'')) \<and>
    p_update_queue p' = p_update_queue p @ map (log_msg (it_table_id it)) incs"
proof -
  obtain it' where it': "inc_all zmq_ok thr tb incs heap p = Inr (heap(tb_internal_table tb \<mapsto> it'),
      p\<lparr>p_update_queue := p_update_queue p @ map (log_msg (it_table_id it)) incs\<rparr>)" "table_ok vadd n it'"
    "\<forall>k. stored n k it' = vapp vadd n (stored n k it) (vsum vadd n (deltas_for k incs))"
    using value_algebra.inc_all_run [where heap = heap, OF assms] by blast
  have "\<exists>heap''. Table_Get n k tb (heap(tb_internal_table tb \<mapsto> it')) =
       Inr (vapp vadd n (stored n k it) (vsum vadd n (deltas_for k incs)), heap'')" for k
    using Table_Get_stored [of "heap(tb_internal_table tb \<mapsto> it')" tb it' vadd n k] it'(2,3) by auto
  with it'(1) show ?thesis by simp
qed

theorem inc_then_get_witness:
  "\<exists>heap' p' heap''. inc_all zmq_ok 3 \<lparr>tb_internal_table = 5\<rparr> [(1, [2, 0, 0, 0]), (1, [3, 0, 0, 0])] [5 \<mapsto> sample_table]
       ((sample_prop 100 True)\<lparr>p_state := P_RUN, p_update_push_sock := {3}\<rparr>) = Inr (heap', p') \<and>
     Table_Get 4 1 \<lparr>tb_internal_table = 5\<rparr> heap' = Inr ([5, 0, 0, 0], heap'')"
proof -
  let ?incs = "[(1, [2, 0, 0, 0]), (1, [3, 0, 0, 0])] :: (i64 \<times> bytes) list"
  have sum: "vapp IntAdd 4 (vzero 4) (vsum IntAdd 4 [[2, 0, 0, 0], [3, 0, 0, 0]]) = [5, 0, 0, 0]" by code_simp
  have st: "stored 4 1 sample_table = vzero 4" by (simp add: stored_def sample_recv_simps)
  obtain heap' p' where "inc_all zmq_ok 3 \<lparr>tb_internal_table = 5\<rparr> ?incs [5 \<mapsto> sample_table]
       ((sample_prop 100 True)\<lparr>p_state := P_RUN, p_update_push_sock := {3}\<rparr>) = Inr (heap', p')"
    "\<forall>k. \<exists>heap''. Table_Get 4 k \<lparr>tb_internal_table = 5\<rparr> heap' =
       Inr (vapp IntAdd 4 (stored 4 k sample_table) (vsum IntAdd 4 (deltas_for k ?incs)), heap'')"
    using inc_then_get [OF int_value.value_algebra_axioms, of "[5 \<mapsto> sample_table]" "\<lparr>tb_internal_table = 5\<rparr>" sample_table ?incs
        "(sample_prop 100 True)\<lparr>p_state := P_RUN, p_update_push_sock := {3}\<rparr>" 3]
    by (auto simp: sample_recv_simps)
  moreover from this(2) obtain heap'' where "Table_Get 4 1 \<lparr>tb_internal_table = 5\<rparr> heap' = Inr ([5, 0, 0, 0], heap'')"
    using st sum by (metis deltas_for_simps)
  ultimately show ?thesis by blast
qed

text \<open>
  An increment by a thread that is not registered, or before the propagator runs, changes the
  table and returns as usual, but no log message is made: the code of \<open>Propagator::Inc\<close> is
  dropped and the update stays on this node.
\<close>

theorem inc_unregistered_stays_local:
  assumes "value_algebra vadd vsub n"
    and "heap (tb_internal_table tb) = Some it" and "table_ok vadd n it" and "length d = n"
    and "p_state p \<noteq> P_RUN \<or> thr \<notin> p_update_push_sock p"
  shows "\<exists>heap' heap''. Table_Inc zs thr k d tb heap p = Inr (heap', p) \<and>
    Table_Get n k tb heap' = Inr (vapp vadd n (stored n k it) d, heap'')"
proof -
  let ?it = "it\<lparr>it_storage := (it_storage it)(k \<mapsto> vapp vadd n (stored n k it) d)\<rparr>"
  have "table_ok vadd n ?it" by (rule value_algebra.IncRaw_table_ok [OF assms(1,3,4)])
  from Table_Get_stored [of "heap(tb_internal_table tb \<mapsto> ?it)" tb ?it vadd n k, OF _ this]
    value_algebra.Table_Inc_step [where heap = heap, OF assms(1-4) Propagator_Inc_refused [OF assms(5)], of zs]
  show ?thesis by (auto simp: stored_def)
qed

theorem inc_unregistered_stays_local_witness:
  "\<exists>heap' heap''. Table_Inc zmq_ok 3 1 [2, 0, 0, 0] \<lparr>tb_internal_table = 5\<rparr> [5 \<mapsto> sample_table] (sample_prop 100 True) =
       Inr (heap', sample_prop 100 True) \<and>
     Table_Get 4 1 \<lparr>tb_internal_table = 5\<rparr> heap' = Inr ([2, 0, 0, 0], heap'')"
proof -
  have "vapp IntAdd 4 (stored 4 1 sample_table) [2, 0, 0, 0] = [2, 0, 0, 0]"
    using int_value.vadd_zero [of "[2, 0, 0, 0]"] by (simp add: stored_def sample_recv_simps)
  then show ?thesis
    using inc_unregistered_stays_local [OF int_value.value_algebra_axioms, of "[5 \<mapsto> sample_table]" "\<lparr>tb_internal_table = 5\<rparr>" sample_table
        "[2, 0, 0, 0]" "sample_prop 100 True" 3 zmq_ok 1]
    by (simp add: sample_recv_simps sample_simps)
qed

lemma sint_trunc32: "sint (ucast (k :: i64) :: i32) = signed_take_bit 31 (sint k)"
proof -
  have "sint (ucast k :: i32) = signed_take_bit 31 (uint k)" by (simp add: signed_ucast_eq)
  also have "uint k = take_bit 64 (sint k)" by (simp add: uint_sint)
  finally show ?thesis by (simp add: signed_take_bit_take_bit)
qed

lemma sint_scast_i64: "sint (scast (a :: i32) :: i64) = sint a"
  using sint_i32_range [of a] by (simp add: signed_scast_eq signed_take_bit_int_eq_self_iff)

lemma trunc32_eq_iff:
  "(ucast (k :: i64) :: i32) = ucast k' \<longleftrightarrow> uint k mod 4294967296 = uint k' mod 4294967296"
  by (subst word_uint_eq_iff) (simp add: unsigned_ucast_eq take_bit_eq_mod)

text \<open>
  C39: an increment logs one message, whose key agrees with the key of the increment in the low
  32 bits and lies in the range of an \<open>int32_t\<close>; it is the key of the increment exactly when
  that one lies in this range, so other keys are propagated as different keys.
\<close>

theorem log_key_truncated:
  assumes "p_state p = P_RUN" and "thr \<in> p_update_push_sock p" and "IncRaw key d it = Inr it'"
  shows "\<exists>m. InternalTable_Inc zmq_ok thr key d it p =
      Inr (it', p\<lparr>p_update_queue := p_update_queue p @ [MUpdateLog m d]\<rparr>) \<and>
    uint (ul_key m) mod 4294967296 = uint key mod 4294967296 \<and>
    - 2147483648 \<le> sint (ul_key m) \<and> sint (ul_key m) < 2147483648 \<and>
    (ul_key m = key \<longleftrightarrow> - 2147483648 \<le> sint key \<and> sint key < 2147483648)"
proof -
  let ?k = "scast (ucast key :: i32) :: i64"
  have 1: "?k = key \<longleftrightarrow> signed_take_bit 31 (sint key) = sint key"
    by (simp add: sint_inj_iff [symmetric] sint_scast_i64 sint_trunc32)
  have 2: "(ucast ?k :: i32) = ucast key"
    by (simp add: sint_inj_iff [symmetric] sint_trunc32 sint_scast_i64)
  have "it_table_id it' = it_table_id it" using assms(3) by (auto simp: IncRaw_def bindR_Inr_iff)
  then have "InternalTable_Inc zmq_ok thr key d it p = Inr (it', p\<lparr>p_update_queue := p_update_queue p @
      [MUpdateLog \<lparr>ul_table_id = it_table_id it, ul_key = ?k, ul_update_type = EInc\<rparr> d]\<rparr>)"
    by (simp add: InternalTable_Inc_def assms(3) Propagator_Inc_ok [OF assms(1,2)])
  moreover have "uint ?k mod 4294967296 = uint key mod 4294967296" using 2 by (simp add: trunc32_eq_iff)
  moreover have "- 2147483648 \<le> sint ?k \<and> sint ?k < 2147483648"
    unfolding sint_scast_i64 by (rule sint_i32_range)
  moreover have "?k = key \<longleftrightarrow> - 2147483648 \<le> sint key \<and> sint key < 2147483648"
    unfolding 1 by (simp add: signed_take_bit_int_eq_self_iff)
  ultimately show ?thesis
    by (intro exI [of _ "\<lparr>ul_table_id = it_table_id it, ul_key = ?k, ul_update_type = EInc\<rparr>"]) simp
qed

theorem log_key_truncated_witness:
  "\<exists>it' p m. InternalTable_Inc zmq_ok 3 4294967297 [2, 0, 0, 0] sample_table p =
      Inr (it', p\<lparr>p_update_queue := p_update_queue p @ [MUpdateLog m [2, 0, 0, 0]]\<rparr>) \<and> ul_key m \<noteq> 4294967297"
proof -
  let ?p = "(sample_prop 100 True)\<lparr>p_state := P_RUN, p_update_push_sock := {3}\<rparr>"
  obtain it' where it': "IncRaw 4294967297 [2, 0, 0, 0] sample_table = Inr it'"
    using int_value.IncRaw_ok [OF sample_recv_simps(6), of "[2, 0, 0, 0]" 4294967297] by simp
  have "\<not> sint (4294967297 :: i64) < 2147483648" by simp
  with log_key_truncated [of ?p 3, OF _ _ it'] it' show ?thesis by fastforce
qed

section \<open>Values keep their size\<close>

definition heap_typed :: "tables \<Rightarrow> bool" where
  "heap_typed heap \<longleftrightarrow> (\<forall>a it k v. heap a = Some it \<longrightarrow> it_storage it k = Some v \<longrightarrow> int (length v) = sint (it_vsize it))"

text \<open>
  What can happen to the tables: an application thread increments or reads a value, with the type
  the table was made for, and the receiver thread handles an event.
\<close>

inductive table_step :: "tables \<Rightarrow> tables \<Rightarrow> bool" where
  inc: "Table_Inc zs thr k d tb heap p = Inr (heap', p') \<Longrightarrow> table_step heap heap'"
| get: "Table_Get n k tb heap = Inr (v, heap') \<Longrightarrow> heap (tb_internal_table tb) = Some it \<Longrightarrow>
     int n = sint (it_vsize it) \<Longrightarrow> table_step heap heap'"
| recv: "recv_handle zs e r u heap = Inr (r', u', heap', acts) \<Longrightarrow> table_step heap heap'"

definition it_typed :: "InternalTable \<Rightarrow> bool" where
  "it_typed it \<longleftrightarrow> (\<forall>k v. it_storage it k = Some v \<longrightarrow> int (length v) = sint (it_vsize it))"

lemma heap_typed_iff: "heap_typed heap \<longleftrightarrow> (\<forall>a it. heap a = Some it \<longrightarrow> it_typed it)"
  by (auto simp: heap_typed_def it_typed_def)

lemma heap_typed_upd: "heap_typed heap \<Longrightarrow> it_typed it \<Longrightarrow> heap_typed (heap(a \<mapsto> it))"
  by (auto simp: heap_typed_iff)

lemma call_vfn_length: "call_vfn f v d n = Inr v' \<Longrightarrow> length v' = length v"
  by (auto simp: call_vfn_def bindR_Inr_iff memcpy_src_def mem_read_def Let_def split: if_split_asm)

lemma IncRaw_typed:
  assumes "IncRaw k d it = Inr it'" and "it_typed it"
  shows "it_typed it' \<and> it_vsize it' = it_vsize it"
proof -
  from assms(1) obtain v v' where v: "(case it_storage it k of None \<Rightarrow> zero_value (it_vsize it) | Some v \<Rightarrow> Inr v) = Inr v"
    "call_vfn (it_vadd_func it) v d (it_vsize it) = Inr v'"
    and it': "it' = it\<lparr>it_storage := (it_storage it)(k \<mapsto> v')\<rparr>"
    by (auto simp: IncRaw_def bindR_Inr_iff)
  have "int (length v) = sint (it_vsize it)"
    using v(1) assms(2) by (auto simp: it_typed_def zero_value_def split: option.split_asm if_split_asm)
  with call_vfn_length [OF v(2)] assms(2) show ?thesis by (auto simp: it' it_typed_def)
qed

text \<open>A loop over a buffer keeps what its body keeps.\<close>

lemma drain_invariant:
  assumes "drain nxt fuel f b s = Inr (b', s')" and "I s" and "\<And>x b s s'. f x b s = Inr s' \<Longrightarrow> I s \<Longrightarrow> I s'"
  shows "I s'"
  using assms(1,2)
proof (induction fuel arbitrary: b s)
  case (Suc fuel)
  then show ?case using assms(3) by (auto simp: bindR_Inr_iff split: option.split_asm)
qed simp

lemma apply_buffer_typed:
  assumes "apply_buffer b it = Inr (b', it')" and "it_typed it"
  shows "it_typed it'"
proof -
  have "it_typed it' \<and> True"
    using assms(1) unfolding apply_buffer_def
    by (rule drain_invariant) (use assms(2) in \<open>auto simp: apply_update_def bindR_Inr_iff dest: IncRaw_typed split: prod.split_asm\<close>)
  then show ?thesis by simp
qed

lemma recv_buffer_typed:
  "handle_recv_buffer zs tid data r u heap = Inr (r', u', heap', acts) \<Longrightarrow> heap_typed heap \<Longrightarrow> heap_typed heap'"
  by (auto simp: handle_recv_buffer_def bindR_Inr_iff heap_typed_iff dest: apply_buffer_typed
      split: if_split_asm option.split_asm prod.split_asm)

lemma recv_handle_typed:
  "recv_handle zs e r u heap = Inr (r', u', heap', acts) \<Longrightarrow> heap_typed heap \<Longrightarrow> heap_typed heap'"
proof (cases e)
  case (RWire m)
  assume "recv_handle zs e r u heap = Inr (r', u', heap', acts)" "heap_typed heap"
  with RWire show ?thesis
    by (cases m) (auto dest: recv_buffer_typed split: if_split_asm prod.split_asm)
qed (auto simp: bindR_Inr_iff)

lemma table_step_typed: "table_step heap heap' \<Longrightarrow> heap_typed heap \<Longrightarrow> heap_typed heap'"
proof (induction rule: table_step.induct)
  case (inc zs thr k d tb heap p heap' p')
  then show ?case
    by (auto simp: Table_Inc_def InternalTable_Inc_def bindR_Inr_iff heap_typed_iff dest: IncRaw_typed
        split: option.split_asm if_split_asm)
next
  case (get n k tb heap v heap' it)
  then have "it_typed it" by (auto simp: heap_typed_iff)
  then have "it_typed (it\<lparr>it_storage := (it_storage it)(k \<mapsto> replicate n 0)\<rparr>)"
    using get(3) by (auto simp: it_typed_def)
  with get \<open>it_typed it\<close> show ?case
    by (auto simp: Table_Get_def InternalTable_Get_def bindR_Inr_iff Let_def simp del: fun_upd_apply
        intro: heap_typed_upd split: option.split_asm)
next
  case (recv zs e r u heap r' u' heap' acts)
  then show ?case by (blast intro: recv_handle_typed)
qed

interpretation tables: step_invariant table_step heap_typed
  by unfold_locales (rule table_step_typed)



text \<open>
  Reading a missing key with a type smaller than the values of the table leaves a value that is too
  short; the next increment of this key reads and writes behind its end.
\<close>

lemma get_too_small_breaks_inc:
  assumes "heap (tb_internal_table tb) = Some it" and "it_storage it k = None" and "int n < sint (it_vsize it)"
  shows "\<exists>heap'. Table_Get n k tb heap = Inr (replicate n 0, heap') \<and>
    Table_Inc zs thr k d tb heap' p = Inl Out_of_bounds"
  using assms
  by (simp add: Table_Get_def InternalTable_Get_def mem_read_def Table_Inc_def InternalTable_Inc_def IncRaw_def
      call_vfn_def memcpy_src_def Let_def)

end
