(* ===== verification/Receiver_Term.thy ===== *)
theory Receiver_Term
  imports Receiver_Data
begin

text \<open>
  The receiver thread as a state machine: it answers every hand-over of own updates, keeps
  its promise not to touch the tables once it has been told to end, ends only when every
  upstream propagator and the paired one have been heard, and does end then; and the one
  order of messages in which it does not.
\<close>

section \<open>Own updates\<close>

definition queue_at :: "i32 \<Rightarrow> recv_thr \<Rightarrow> UpdateBuffer list" where
  "queue_at tid u = um_at [] tid (u_my_updates u)"

definition buffers_of :: "i32 \<Rightarrow> MyUpdatesMsg list \<Rightarrow> UpdateBuffer list" where
  "buffers_of tid ms = map mu_update_buffer_ptr (filter (\<lambda>m. mu_table_id m = tid) ms)"

lemma handle_my_updates_ok:
  "r_state r = R_RUN \<Longrightarrow>
     \<exists>u'. recv_handle zmq_ok (RInternal (MMyUpdates m)) r u heap = Inr (r, u', heap, [ToPair EMyUpdatesACK]) \<and>
       (\<forall>tid. queue_at tid u' = queue_at tid u @ buffers_of tid [m])"
  by (simp add: handle_my_updates_def Let_def queue_at_def buffers_of_def)

lemma my_updates_run:
  "r_state r = R_RUN \<Longrightarrow>
     \<exists>u'. recv_run zmq_ok (map (\<lambda>m. RInternal (MMyUpdates m)) ms) r u heap =
         Inr (r, u', heap, replicate (length ms) (ToPair EMyUpdatesACK)) \<and>
       (\<forall>tid. queue_at tid u' = queue_at tid u @ buffers_of tid ms)"
proof (induction ms arbitrary: u)
  case Nil
  then show ?case by (simp add: buffers_of_def)
next
  case (Cons m ms)
  obtain u1 where u1: "recv_handle zmq_ok (RInternal (MMyUpdates m)) r u heap = Inr (r, u1, heap, [ToPair EMyUpdatesACK])"
    "\<forall>tid. queue_at tid u1 = queue_at tid u @ buffers_of tid [m]"
    using handle_my_updates_ok [OF Cons.prems] by blast
  obtain u' where "recv_run zmq_ok (map (\<lambda>m. RInternal (MMyUpdates m)) ms) r u1 heap =
         Inr (r, u', heap, replicate (length ms) (ToPair EMyUpdatesACK))"
    "\<forall>tid. queue_at tid u' = queue_at tid u1 @ buffers_of tid ms"
    using Cons.IH [OF Cons.prems] by blast
  with u1 Cons.prems show ?case
    by (intro exI [of _ u']) (auto simp: buffers_of_def)
qed

section \<open>States\<close>

fun recv_rank :: "ReceiverState \<Rightarrow> nat" where
  "recv_rank R_INIT = 0"
| "recv_rank R_RUN = 1"
| "recv_rank R_TERM_SELF = 2"
| "recv_rank R_TERM = 3"

text \<open>A running thread has not answered its pair; an ended one has met its conditions.\<close>

definition recv_inv :: "Receiver \<Rightarrow> recv_thr \<Rightarrow> bool" where
  "recv_inv r u \<longleftrightarrow>
     (r_state r = R_RUN \<longrightarrow> \<not> u_have_replied_prop_pair_term u) \<and>
     (r_state r = R_TERM \<longrightarrow> recv_may_exit u)"

lemma recv_exit_if_done_sel:
  "r_state (recv_exit_if_done r u) = (if recv_may_exit u then R_TERM else r_state r)"
  "r_thrinfo (recv_exit_if_done r u) = r_thrinfo r" "r_table_dir (recv_exit_if_done r u) = r_table_dir r"
  by (simp_all add: recv_exit_if_done_def)

lemma HasAllPeersAckedTerm_iff:
  "HasAllPeersAckedTerm peers \<longleftrightarrow> (\<forall>p \<in> set peers. ppi_has_replied_termination (snd p))"
  by (induction peers rule: HasAllPeersAckedTerm.induct) auto

lemma remove_own_updates_frame:
  assumes "remove_own_updates it my_id tid b u = Inr (b', u')"
  shows "\<exists>q. u' = u\<lparr>u_my_updates := q\<rparr>"
proof -
  have "\<exists>q. u = u\<lparr>u_my_updates := q\<rparr>" by (rule exI [of _ "u_my_updates u"]) simp
  with assms show ?thesis
    by (fastforce simp: remove_own_updates_def bindR_Inr_iff split: option.split_asm prod.split_asm)
qed

lemma handle_recv_buffer_frame:
  assumes "handle_recv_buffer zs tid data r u heap = Inr (r', u', heap', acts)"
  shows "r' = r" and "\<exists>q. u' = u\<lparr>u_my_updates := q\<rparr>"
    and "r_state r \<noteq> R_RUN \<Longrightarrow> u' = u \<and> heap' = heap \<and> acts = []"
proof -
  have self: "\<exists>q. u = u\<lparr>u_my_updates := q\<rparr>" by (rule exI [of _ "u_my_updates u"]) simp
  have "r' = r \<and> (\<exists>q. u' = u\<lparr>u_my_updates := q\<rparr>)"
    using assms self
    by (auto simp: handle_recv_buffer_def bindR_Inr_iff dest!: remove_own_updates_frame
        split: if_split_asm option.split_asm prod.split_asm)
  then show "r' = r" "\<exists>q. u' = u\<lparr>u_my_updates := q\<rparr>" by auto
  show "r_state r \<noteq> R_RUN \<Longrightarrow> u' = u \<and> heap' = heap \<and> acts = []"
    using assms by (simp add: handle_recv_buffer_def bindR_Inr_iff)
qed

lemma recv_handle_step:
  assumes "recv_handle zs e r u heap = Inr (r', u', heap', acts)" and "r_state r = R_RUN \<or> r_state r = R_TERM_SELF"
    and "recv_inv r u"
  shows "recv_inv r' u'" and "recv_rank (r_state r) \<le> recv_rank (r_state r')"
    and "r_state r = R_TERM_SELF \<Longrightarrow> heap' = heap"
    and "r_thrinfo r' = r_thrinfo r"
proof -
  have "recv_inv r' u' \<and> recv_rank (r_state r) \<le> recv_rank (r_state r') \<and>
    (r_state r = R_TERM_SELF \<longrightarrow> heap' = heap) \<and> r_thrinfo r' = r_thrinfo r"
  proof (cases e)
    case (RInternal m)
    show ?thesis
    proof (cases m)
      case (MMyUpdates x)
      with RInternal assms show ?thesis
        by (auto simp: handle_my_updates_def Let_def bindR_Inr_iff recv_inv_def recv_may_exit_def split: if_splits)
    next
      case (RPlain ty)
      with RInternal assms show ?thesis
        by (cases ty) (auto simp: handle_self_terminate_def handle_pair_terminate_def Let_def bindR_Inr_iff
            recv_inv_def recv_exit_if_done_sel split: if_splits)
    qed
  next
    case (RWire m)
    show ?thesis
    proof (cases m)
      case (WUpdateBuffer tid data)
      with RWire assms(1) have "handle_recv_buffer zs tid data r u heap = Inr (r', u', heap', acts)" by simp
      from handle_recv_buffer_frame [OF this] assms(2,3) show ?thesis
        by (auto simp: recv_inv_def recv_may_exit_def)
    next
      case (WTerminateAck nid)
      with RWire assms show ?thesis
        by (auto simp: handle_term_ack_def Let_def recv_inv_def recv_exit_if_done_sel recv_may_exit_def
            split: if_splits)
    qed (use RWire assms in \<open>simp_all split: if_splits\<close>)
  qed
  then show "recv_inv r' u'" "recv_rank (r_state r) \<le> recv_rank (r_state r')"
    "r_state r = R_TERM_SELF \<Longrightarrow> heap' = heap" "r_thrinfo r' = r_thrinfo r" by blast+
qed


section \<open>The thread as a loop\<close>

lemma recv_rank_running:
  "recv_rank s \<le> recv_rank s' \<Longrightarrow> s = R_RUN \<or> s = R_TERM_SELF \<Longrightarrow> s' \<noteq> R_INIT"
  by (cases s') auto

text \<open>The thread as a loop over events; its state includes the heap of tables.\<close>

definition recv_step :: "zmq_lib \<Rightarrow> recv_event \<Rightarrow> Receiver \<times> recv_thr \<times> tables \<Rightarrow> ((Receiver \<times> recv_thr \<times> tables) \<times> recv_act list) res" where
  "recv_step zs e s = bindR (recv_handle zs e (fst s) (fst (snd s)) (snd (snd s))) (\<lambda>(r, u, heap, acts). Inr ((r, u, heap), acts))"

definition recv_loop :: "zmq_lib \<Rightarrow> recv_event list \<Rightarrow> Receiver \<times> recv_thr \<times> tables \<Rightarrow> ((Receiver \<times> recv_thr \<times> tables) \<times> recv_act list) res" where
  "recv_loop zs es s = bindR (recv_run zs es (fst s) (fst (snd s)) (snd (snd s))) (\<lambda>(r, u, heap, acts). Inr ((r, u, heap), acts))"

lemma recv_step_iff:
  "recv_step zs e s = Inr (s', acts) \<longleftrightarrow>
     recv_handle zs e (fst s) (fst (snd s)) (snd (snd s)) = Inr (fst s', fst (snd s'), snd (snd s'), acts)"
  by (auto simp: recv_step_def bindR_Inr_iff)

lemma recv_loop_iff:
  "recv_loop zs es s = Inr (s', acts) \<longleftrightarrow>
     recv_run zs es (fst s) (fst (snd s)) (snd (snd s)) = Inr (fst s', fst (snd s'), snd (snd s'), acts)"
  by (auto simp: recv_loop_def bindR_Inr_iff)

text \<open>Passing updates on: to the paired propagator, or to the user's callback.\<close>

fun passes_on :: "recv_act \<Rightarrow> bool" where
  "passes_on (ToPropagator (MUpdateBuffer m)) = True"
| "passes_on (UserCbk f tid b) = True"
| "passes_on _ = False"

lemma recv_handle_quiet:
  assumes "recv_handle zs e r u heap = Inr (r', u', heap', acts)" and "r_state r \<noteq> R_RUN" and "a \<in> set acts"
  shows "\<not> passes_on a"
proof (cases e)
  case (RInternal m)
  show ?thesis
  proof (cases m)
    case (RPlain ty)
    with RInternal assms show ?thesis
      by (cases ty) (auto simp: handle_self_terminate_def handle_pair_terminate_def Let_def bindR_Inr_iff split: if_split_asm)
  qed (use RInternal assms in \<open>auto simp: handle_my_updates_def Let_def bindR_Inr_iff\<close>)
next
  case (RWire m)
  show ?thesis
  proof (cases m)
    case (WUpdateBuffer tid data)
    with RWire assms(1) have "handle_recv_buffer zs tid data r u heap = Inr (r', u', heap', acts)" by simp
    from handle_recv_buffer_frame(3) [OF this assms(2)] assms(3) show ?thesis by simp
  qed (use RWire assms in \<open>auto simp: handle_term_ack_def Let_def split: if_split_asm\<close>)
qed

lemma recv_not_ended: "r_state r \<noteq> R_INIT \<Longrightarrow> r_state r \<noteq> R_TERM \<Longrightarrow> r_state r = R_RUN \<or> r_state r = R_TERM_SELF"
  by (cases "r_state r") auto

interpretation rl: ranked_loop "recv_step zs" "\<lambda>s. r_state (fst s) = R_TERM" "recv_loop zs"
    "\<lambda>s. r_state (fst s) \<noteq> R_INIT \<and> recv_inv (fst s) (fst (snd s))" "\<lambda>s. recv_rank (r_state (fst s))" 2 passes_on for zs
proof (unfold_locales, goal_cases)
  case (2 e es s)
  show ?case
    by (cases "recv_handle zs e (fst s) (fst (snd s)) (snd (snd s))")
       (auto simp: recv_loop_def recv_step_def bindR_assoc case_prod_unfold)
next
  case (3 e s s' acts)
  note st = recv_handle_step [OF 3(1) [unfolded recv_step_iff] recv_not_ended]
  from 3(2,3) show ?case using st(1) recv_rank_running [OF st(2) recv_not_ended] by blast
next
  case (4 e s s' acts)
  from recv_handle_step(2) [OF 4(1) [unfolded recv_step_iff] recv_not_ended] 4(2,3) show ?case by blast
next
  case (5 e s s' acts a)
  from 5(4) have "r_state (fst s) \<noteq> R_RUN" by (cases "r_state (fst s)") auto
  from recv_handle_quiet [OF 5(1) [unfolded recv_step_iff] this 5(5)] show ?case .
qed (simp add: recv_loop_def)

section \<open>Runs\<close>

lemma recv_run_inv:
  assumes "recv_run zs es r u heap = Inr (r', u', heap', acts)" and "r_state r \<noteq> R_INIT" and "recv_inv r u"
  shows "recv_inv r' u' \<and> recv_rank (r_state r) \<le> recv_rank (r_state r') \<and>
    (r_state r \<noteq> R_RUN \<longrightarrow> heap' = heap \<and> (\<forall>a \<in> set acts. \<not> passes_on a))"
proof -
  have l: "recv_loop zs es (r, u, heap) = Inr ((r', u', heap'), acts)" using assms(1) by (simp add: recv_loop_iff)
  let ?I = "\<lambda>s. r_state (fst s) \<noteq> R_INIT \<and> r_state (fst s) \<noteq> R_RUN \<and> recv_inv (fst s) (fst (snd s)) \<and> snd (snd s) = heap"
  have step: "?I s1 \<and> (\<forall>a \<in> set acts1. True)" if "recv_step zs e s = Inr (s1, acts1)" "r_state (fst s) \<noteq> R_TERM" "?I s" for e s s1 acts1
  proof -
    have self: "r_state (fst s) = R_TERM_SELF" using that(2,3) recv_not_ended by blast
    note st = recv_handle_step [OF that(1) [unfolded recv_step_iff] disjI2 [OF self]]
    with that(3) self show ?thesis by (cases "r_state (fst s1)") auto
  qed
  have "?I (r', u', heap')" if "r_state r \<noteq> R_RUN"
    using rl.run_keeps [where I = ?I and Q = "\<lambda>_. True", OF l] step that assms(2,3) by fastforce
  moreover have "2 \<le> recv_rank (r_state r)" if "r_state r \<noteq> R_RUN" using that assms(2) by (cases "r_state r") auto
  ultimately show ?thesis using rl.run_inv [OF l] rl.run_quiet [OF l] assms(2,3) by auto
qed

section \<open>Shutting down\<close>

text \<open>The events of a thread that has been told to end.\<close>

fun recv_shutdown_event :: "recv_event \<Rightarrow> bool" where
  "recv_shutdown_event (RInternal (MMyUpdates m)) = True"
| "recv_shutdown_event (RInternal (RPlain ty)) = (ty = EPRInternalTerminate)"
| "recv_shutdown_event (RWire (WUpdateBuffer tid data)) = (0 < length data \<and> length data < 2147483648)"
| "recv_shutdown_event (RWire (WTerminateAck nid)) = True"
| "recv_shutdown_event (RWire m) = False"

definition known :: "i32 \<Rightarrow> recv_thr \<Rightarrow> bool" where
  "known nid u \<longleftrightarrow> um_find nid (u_peer_prop_info u) \<noteq> None"

definition acked :: "i32 \<Rightarrow> recv_thr \<Rightarrow> bool" where
  "acked nid u \<longleftrightarrow> (\<exists>info. um_find nid (u_peer_prop_info u) = Some info \<and> ppi_has_replied_termination info)"

lemma all_acked_iff:
  assumes "distinct (um_keys (u_peer_prop_info u))"
  shows "HasAllPeersAckedTerm (u_peer_prop_info u) \<longleftrightarrow> (\<forall>nid. known nid u \<longrightarrow> acked nid u)"
proof
  assume "HasAllPeersAckedTerm (u_peer_prop_info u)"
  then show "\<forall>nid. known nid u \<longrightarrow> acked nid u"
    by (fastforce simp: HasAllPeersAckedTerm_iff known_def acked_def dest: map_of_SomeD)
next
  assume *: "\<forall>nid. known nid u \<longrightarrow> acked nid u"
  have "ppi_has_replied_termination info" if "(nid, info) \<in> set (u_peer_prop_info u)" for nid info
    using * map_of_is_SomeI [OF assms that] by (auto simp: known_def acked_def)
  then show "HasAllPeersAckedTerm (u_peer_prop_info u)" by (auto simp: HasAllPeersAckedTerm_iff)
qed

text \<open>One such event: it succeeds, sets what it should, and ends the thread if it can.\<close>

lemma recv_shutdown_handle:
  assumes "recv_shutdown_event e" and "r_state r = R_TERM_SELF" and "\<not> recv_may_exit u"
  shows "\<exists>u' acts. recv_handle zmq_ok e r u heap = Inr (recv_exit_if_done r u', u', heap, acts) \<and>
    u_have_replied_prop_pair_term u' = (u_have_replied_prop_pair_term u \<or> e = RInternal (RPlain EPRInternalTerminate)) \<and>
    (\<forall>nid. acked nid u' = (acked nid u \<or> e = RWire (WTerminateAck nid))) \<and>
    (\<forall>nid. known nid u' = (known nid u \<or> e = RWire (WTerminateAck nid))) \<and>
    (distinct (um_keys (u_peer_prop_info u)) \<longrightarrow> distinct (um_keys (u_peer_prop_info u')))"
  using assms
proof (cases e rule: recv_shutdown_event.cases)
  case (1 m)
  with assms show ?thesis
    by (simp add: handle_my_updates_def Let_def recv_exit_if_done_def)
next
  case (3 tid data)
  with assms show ?thesis
    by (simp add: handle_recv_buffer_def recv_exit_if_done_def word_sless_alt)
next
  case (4 nid)
  with assms show ?thesis
    by (auto simp: handle_term_ack_def Let_def acked_def known_def)
qed (auto simp: handle_pair_terminate_def Let_def acked_def known_def)

lemma recv_shutdown_run:
  "r_state r = R_TERM_SELF \<Longrightarrow> \<not> recv_may_exit u \<Longrightarrow> distinct (um_keys (u_peer_prop_info u)) \<Longrightarrow>
   \<forall>e \<in> set es. recv_shutdown_event e \<Longrightarrow>
   u_have_replied_prop_pair_term u \<or> RInternal (RPlain EPRInternalTerminate) \<in> set es \<Longrightarrow>
   \<forall>nid. known nid u \<longrightarrow> acked nid u \<or> RWire (WTerminateAck nid) \<in> set es \<Longrightarrow>
   \<exists>r' u' acts. recv_run zmq_ok es r u heap = Inr (r', u', heap, acts) \<and> r_state r' = R_TERM"
proof (induction es arbitrary: u)
  case Nil
  then show ?case by (auto simp: recv_may_exit_def all_acked_iff)
next
  case (Cons e es)
  have ev: "recv_shutdown_event e" using Cons.prems(4) by simp
  from recv_shutdown_handle [OF ev Cons.prems(1,2), of heap] obtain u1 acts1 where
    h: "recv_handle zmq_ok e r u heap = Inr (recv_exit_if_done r u1, u1, heap, acts1)"
    and rp: "u_have_replied_prop_pair_term u1 = (u_have_replied_prop_pair_term u \<or> e = RInternal (RPlain EPRInternalTerminate))"
    and ak: "\<forall>nid. acked nid u1 = (acked nid u \<or> e = RWire (WTerminateAck nid))"
    and ks: "\<forall>nid. known nid u1 = (known nid u \<or> e = RWire (WTerminateAck nid))"
    and ds: "distinct (um_keys (u_peer_prop_info u1))"
    using Cons.prems(3) by blast
  show ?case
  proof (cases "recv_may_exit u1")
    case True
    then have "recv_run zmq_ok es (recv_exit_if_done r u1) u1 heap = Inr (recv_exit_if_done r u1, u1, heap, [])"
      by (cases es) (simp_all add: recv_exit_if_done_sel)
    with h True Cons.prems(1) show ?thesis by (simp add: recv_exit_if_done_sel)
  next
    case False
    then have e: "recv_exit_if_done r u1 = r" by (simp add: recv_exit_if_done_def)
    have "\<forall>nid. known nid u1 \<longrightarrow> acked nid u1 \<or> RWire (WTerminateAck nid) \<in> set es"
      using ks ak Cons.prems(6) by auto
    moreover have "u_have_replied_prop_pair_term u1 \<or> RInternal (RPlain EPRInternalTerminate) \<in> set es"
      using rp Cons.prems(5) by auto
    ultimately have "\<exists>r' u' acts. recv_run zmq_ok es r u1 heap = Inr (r', u', heap, acts) \<and> r_state r' = R_TERM"
      using Cons.IH [OF Cons.prems(1) False ds] Cons.prems(4) by simp
    with h e Cons.prems(1) show ?thesis by auto
  qed
qed


section \<open>Properties\<close>



lemma recv_thr_start_inv:
  "recv_thr_start zs inits arrivals r0 = Inr (r, u, acts, left) \<Longrightarrow> r_state r = R_RUN \<and> recv_inv r u"
  by (auto simp: recv_thr_start_def recv_handshake_def Let_def bindR_Inr_iff recv_inv_def recv_thr_init_def
      split: if_split_asm)

text \<open>
  C16: the receiver's state only moves along RUN, TERM_SELF, TERM; it ends only when every
  upstream propagator it knows has acknowledged and the paired propagator has its answer,
  and once it has left RUN no event changes a table, forwards a buffer or calls the user's callback.
\<close>

theorem receiver_ends_when_done:
  assumes "recv_thr_start zs inits arrivals r0 = Inr (r, u, acts0, left)"
    and "recv_run zs es r u heap = Inr (r1, u1, heap1, acts1)"
    and "recv_run zs es' r1 u1 heap1 = Inr (r2, u2, heap2, acts2)"
  shows "(r_state r1 = R_TERM \<longrightarrow>
      (\<forall>p \<in> set (u_peer_prop_info u1). ppi_has_replied_termination (snd p)) \<and> u_have_replied_prop_pair_term u1) \<and>
    recv_rank (r_state r1) \<le> recv_rank (r_state r2) \<and>
    (r_state r1 \<noteq> R_RUN \<longrightarrow> heap2 = heap1 \<and> (\<forall>a \<in> set acts2. \<not> passes_on a))"
proof -
  have "r_state r = R_RUN" "recv_inv r u" using recv_thr_start_inv [OF assms(1)] by auto
  with recv_run_inv [OF assms(2)] have 1: "recv_inv r1 u1" "1 \<le> recv_rank (r_state r1)" by auto
  then have "r_state r1 \<noteq> R_INIT" by auto
  from recv_run_inv [OF assms(3) this 1(1)] 1(1) show ?thesis
    by (auto simp: recv_inv_def recv_may_exit_def HasAllPeersAckedTerm_iff)
qed

definition new_recv :: Receiver where
  "new_recv = (sample_recv 3 1)\<lparr>r_state := R_INIT\<rparr>"

lemma sample_recv_start:
  "recv_thr_start zmq_ok [WInit 8] [[], [WInitAckAck 8]] new_recv =
     Inr (sample_recv 3 1, recv_thr_init\<lparr>u_peer_prop_info := [(8, \<lparr>ppi_has_started = True, ppi_has_replied_termination = False\<rparr>)]\<rparr>,
       [ToPair EPRInit, Publish PropInitACK, Publish PropInitACK, Publish PropStart], [])"
  by (simp add: recv_thr_start_def recv_handshake_def new_recv_def word_sless_alt Let_def sample_recv_def Receiver_ctor_def)

theorem receiver_ends_when_done_witness:
  "\<exists>u r1 u1 acts1. recv_run zmq_ok [RInternal (RPlain ERInternalTerminate), RInternal (RPlain EPRInternalTerminate),
       RWire (WTerminateAck 8)] (sample_recv 3 1) u Map.empty = Inr (r1, u1, Map.empty, acts1) \<and>
     r_state r1 = R_TERM \<and> u_have_replied_prop_pair_term u1"
proof -
  let ?u = "recv_thr_init\<lparr>u_peer_prop_info := [(8, \<lparr>ppi_has_started = True, ppi_has_replied_termination = False\<rparr>)]\<rparr>"
  obtain r1 u1 acts1 where r: "recv_run zmq_ok [RInternal (RPlain ERInternalTerminate), RInternal (RPlain EPRInternalTerminate),
       RWire (WTerminateAck 8)] (sample_recv 3 1) ?u Map.empty = Inr (r1, u1, Map.empty, acts1)" "r_state r1 = R_TERM"
    by (simp add: handle_self_terminate_def handle_pair_terminate_def handle_term_ack_def sample_recv_simps
        word_sless_alt recv_thr_init_def recv_exit_if_done_def recv_may_exit_def Let_def um_at_def)
  have "recv_run zmq_ok [] r1 u1 Map.empty = Inr (r1, u1, Map.empty, [])" by simp
  from receiver_ends_when_done [OF sample_recv_start r(1) this] r show ?thesis by blast
qed

lemma handle_self_terminate_ok:
  "\<exists>u' acts. recv_handle zmq_ok (RInternal (RPlain ERInternalTerminate)) r u heap =
      Inr (r\<lparr>r_state := R_TERM_SELF\<rparr>, u', heap, acts) \<and>
    u_peer_prop_info u' = u_peer_prop_info u \<and>
    u_have_replied_prop_pair_term u' = (u_have_replied_prop_pair_term u \<or> u_have_received_prop_pair_term u)"
  by (auto simp: handle_self_terminate_def Let_def)

text \<open>
  C17: a receiver with upstream propagators ends: after the application's message, with the
  message of the paired propagator and the acknowledgements of all known propagators in
  any order and between any late updates, the run reaches TERM.
\<close>

theorem receiver_terminates:
  assumes "r_state r = R_RUN" and "distinct (um_keys (u_peer_prop_info u))"
    and "\<exists>nid. known nid u \<and> \<not> acked nid u"
    and "\<forall>e \<in> set es. recv_shutdown_event e"
    and "\<forall>nid. known nid u \<longrightarrow> RWire (WTerminateAck nid) \<in> set es"
    and "u_have_received_prop_pair_term u \<or> RInternal (RPlain EPRInternalTerminate) \<in> set es"
  shows "\<exists>r' u' acts. recv_run zmq_ok (RInternal (RPlain ERInternalTerminate) # es) r u heap =
    Inr (r', u', heap, acts) \<and> r_state r' = R_TERM"
proof -
  from handle_self_terminate_ok [of r u heap] obtain u1 acts1 where
    h: "recv_handle zmq_ok (RInternal (RPlain ERInternalTerminate)) r u heap = Inr (r\<lparr>r_state := R_TERM_SELF\<rparr>, u1, heap, acts1)"
    and p: "u_peer_prop_info u1 = u_peer_prop_info u"
    and rp: "u_have_replied_prop_pair_term u1 = (u_have_replied_prop_pair_term u \<or> u_have_received_prop_pair_term u)"
    by blast
  have same: "known nid u1 = known nid u" "acked nid u1 = acked nid u" for nid
    by (simp_all add: known_def acked_def p)
  have "\<not> recv_may_exit u1"
    using assms(2,3) all_acked_iff [of u1] by (auto simp: recv_may_exit_def p same)
  then have "\<exists>r' u' acts. recv_run zmq_ok es (r\<lparr>r_state := R_TERM_SELF\<rparr>) u1 heap = Inr (r', u', heap, acts) \<and> r_state r' = R_TERM"
    by (intro recv_shutdown_run) (use assms rp in \<open>auto simp: p same\<close>)
  with h assms(1) show ?thesis by auto
qed

theorem receiver_terminates_witness:
  "\<exists>u r' u' acts. known 8 u \<and>
     recv_run zmq_ok [RInternal (RPlain ERInternalTerminate), RWire (WTerminateAck 8), RWire (WUpdateBuffer 5 [0]),
       RInternal (RPlain EPRInternalTerminate)] (sample_recv 3 1) u Map.empty = Inr (r', u', Map.empty, acts) \<and>
     r_state r' = R_TERM"
proof -
  let ?u = "recv_thr_init\<lparr>u_peer_prop_info := [(8, \<lparr>ppi_has_started = True, ppi_has_replied_termination = False\<rparr>)]\<rparr>"
  have known: "known nid ?u = (nid = 8)" "\<not> acked 8 ?u" for nid by (simp_all add: known_def acked_def)
  have "\<exists>r' u' acts. recv_run zmq_ok [RInternal (RPlain ERInternalTerminate), RWire (WTerminateAck 8), RWire (WUpdateBuffer 5 [0]),
       RInternal (RPlain EPRInternalTerminate)] (sample_recv 3 1) ?u Map.empty = Inr (r', u', Map.empty, acts) \<and>
     r_state r' = R_TERM"
    by (rule receiver_terminates) (use known in \<open>auto simp: sample_recv_simps\<close>)
  with known show ?thesis by blast
qed

lemma my_updates_state:
  "\<forall>e \<in> set es. \<exists>m. e = RInternal (MMyUpdates m) \<Longrightarrow> r_state r \<noteq> R_TERM \<Longrightarrow>
     \<exists>u' acts. recv_run zmq_ok es r u heap = Inr (r, u', heap, acts) \<and>
       u_have_received_prop_pair_term u' = u_have_received_prop_pair_term u \<and>
       u_have_replied_prop_pair_term u' = u_have_replied_prop_pair_term u"
proof (induction es arbitrary: u)
  case (Cons e es)
  then obtain m where e: "e = RInternal (MMyUpdates m)" by auto
  obtain u1 where h: "recv_handle zmq_ok e r u heap = Inr (r, u1, heap, [ToPair EMyUpdatesACK])"
    "u_have_received_prop_pair_term u1 = u_have_received_prop_pair_term u"
    "u_have_replied_prop_pair_term u1 = u_have_replied_prop_pair_term u"
    by (simp add: e handle_my_updates_def Let_def)
  with Cons.IH [of u1] Cons.prems show ?case by auto
qed simp

lemma recv_run_append:
  assumes "recv_run zs es r u heap = Inr (r1, u1, heap1, acts1)" and "recv_run zs es' r1 u1 heap1 = Inr (r', u', heap', acts2)"
  shows "recv_run zs (es @ es') r u heap = Inr (r', u', heap', acts1 @ acts2)"
proof -
  have "recv_loop zs es (r, u, heap) = Inr ((r1, u1, heap1), acts1)" "recv_loop zs es' (r1, u1, heap1) = Inr ((r', u', heap'), acts2)"
    using assms by (simp_all add: recv_loop_iff)
  then have "recv_loop zs (es @ es') (r, u, heap) = Inr ((r', u', heap'), acts1 @ acts2)" by (simp add: rl.run_append)
  then show ?thesis by (simp add: recv_loop_iff)
qed

text \<open>
  C40: a receiver without upstream propagators whose pair asks it to end before the
  application does never ends: the answer is sent when the application's message comes,
  but the conditions for the end are not looked at there, and no further message can make the
  thread look at them.
\<close>

theorem receiver_without_peers_hangs:
  assumes "r_state r = R_RUN" and "r_num_expected r <=s 0"
    and "\<forall>e \<in> set (es1 @ es2 @ es3). \<exists>m. e = RInternal (MMyUpdates m)"
  shows "\<exists>r' u' acts. recv_run zmq_ok (es1 @ [RInternal (RPlain EPRInternalTerminate)] @ es2 @
      [RInternal (RPlain ERInternalTerminate)] @ es3) r u heap = Inr (r', u', heap, acts) \<and>
    r_state r' = R_TERM_SELF \<and> u_have_replied_prop_pair_term u' \<and>
    (\<forall>wire. recv_poll r' None wire = None)"
proof -
  have e: "\<forall>e \<in> set es1. \<exists>m. e = RInternal (MMyUpdates m)" "\<forall>e \<in> set es2. \<exists>m. e = RInternal (MMyUpdates m)"
    "\<forall>e \<in> set es3. \<exists>m. e = RInternal (MMyUpdates m)" using assms(3) by auto
  have run: "r_state r \<noteq> R_TERM" "\<not> 0 <s r_num_expected r"
    using assms(1,2) by (simp_all add: word_sless_alt word_sle_eq)
  obtain u1 acts1 where 1: "recv_run zmq_ok es1 r u heap = Inr (r, u1, heap, acts1)"
    using my_updates_state [OF e(1) run(1)] by blast
  let ?u1 = "u1\<lparr>u_have_received_prop_pair_term := True\<rparr>"
  obtain u2 acts2 where 2: "recv_run zmq_ok es2 r ?u1 heap = Inr (r, u2, heap, acts2)" "u_have_received_prop_pair_term u2"
    using my_updates_state [OF e(2) run(1), of ?u1 heap] by auto
  let ?r = "r\<lparr>r_state := R_TERM_SELF\<rparr>"
  obtain u3 acts3 where 3: "recv_handle zmq_ok (RInternal (RPlain ERInternalTerminate)) r u2 heap = Inr (?r, u3, heap, acts3)"
    "u_have_replied_prop_pair_term u3"
    using handle_self_terminate_ok [of r u2 heap] 2(2) by auto
  obtain u4 acts4 where 4: "recv_run zmq_ok es3 ?r u3 heap = Inr (?r, u4, heap, acts4)" "u_have_replied_prop_pair_term u4"
    using my_updates_state [OF e(3), of ?r u3 heap] 3(2) by auto
  have "recv_handle zmq_ok (RInternal (RPlain EPRInternalTerminate)) r u1 heap = Inr (r, ?u1, heap, [])"
    using assms(1) by (simp add: handle_pair_terminate_def)
  with 1 2(1) 3(1) 4 run assms(1) show ?thesis
    by (auto simp: recv_run_append recv_poll_def simp del: recv_handle.simps)
qed

theorem receiver_without_peers_hangs_witness:
  "\<exists>r' u' acts. recv_run zmq_ok [RInternal (RPlain EPRInternalTerminate), RInternal (RPlain ERInternalTerminate)]
       (sample_recv 3 0) recv_thr_init Map.empty = Inr (r', u', Map.empty, acts) \<and>
     r_state r' = R_TERM_SELF \<and> u_have_replied_prop_pair_term u' \<and> recv_poll r' None None = None"
proof -
  have "\<exists>r' u' acts. recv_run zmq_ok ([] @ [RInternal (RPlain EPRInternalTerminate)] @ [] @
      [RInternal (RPlain ERInternalTerminate)] @ []) (sample_recv 3 0) recv_thr_init Map.empty = Inr (r', u', Map.empty, acts) \<and>
    r_state r' = R_TERM_SELF \<and> u_have_replied_prop_pair_term u' \<and>
    (\<forall>wire. recv_poll r' None wire = None)"
    by (rule receiver_without_peers_hangs) (simp_all add: sample_recv_simps)
  then show ?thesis unfolding append.simps by blast
qed

end
