(* ===== verification/Ring.thy ===== *)
theory Ring
  imports Table_Props Receiver_Term
begin

text \<open>
  The threads of a node put together: an application thread, the propagator and the receiver of
  one direction, run one after the other, and two nodes connected to a ring. The first batch
  each node sends makes the two tables agree. In the second round the updates of the
  neighbour come back to it without the range that marks them as its own, and are counted
  a second time.
\<close>

section \<open>A node\<close>

record node =
  nd_p :: Propagator
  nd_t :: prop_thr
  nd_r :: Receiver
  nd_u :: recv_thr
  nd_heap :: tables

fun to_receiver :: "prop_act list \<Rightarrow> receiver_msg list" where
  "to_receiver [] = []"
| "to_receiver (ToReceiver m # acts) = m # to_receiver acts"
| "to_receiver (_ # acts) = to_receiver acts"

fun to_downstream :: "prop_act list \<Rightarrow> receiver_wire_msg list" where
  "to_downstream [] = []"
| "to_downstream (ToDownstream m # acts) = m # to_downstream acts"
| "to_downstream (_ # acts) = to_downstream acts"

fun to_propagator :: "recv_act list \<Rightarrow> propagator_msg list" where
  "to_propagator [] = []"
| "to_propagator (ToPropagator m # acts) = m # to_propagator acts"
| "to_propagator (_ # acts) = to_propagator acts"

fun to_pair :: "recv_act list \<Rightarrow> PropagatorMsgType list" where
  "to_pair [] = []"
| "to_pair (ToPair m # acts) = m # to_pair acts"
| "to_pair (_ # acts) = to_pair acts"

text \<open>
  The application thread increments, and the propagator thread reads the messages of its
  queue.
\<close>

definition app_incs :: "(nat \<Rightarrow> byte) \<Rightarrow> nat \<Rightarrow> i32 \<Rightarrow> (i64 \<times> bytes) list \<Rightarrow> node \<Rightarrow> node res" where
  "app_incs junk thr tid incs N =
     bindR (inc_all zmq_ok thr \<lparr>tb_internal_table = tid\<rparr> incs (nd_heap N) (nd_p N)) (\<lambda>(heap, p).
     bindR (prop_run zmq_ok junk (map PUpdate (p_update_queue p)) (p\<lparr>p_update_queue := []\<rparr>) (nd_t N)) (\<lambda>(p, t, acts).
     Inr (N\<lparr>nd_p := p, nd_t := t, nd_heap := heap\<rparr>)))"

text \<open>
  The timer fires: the propagator thread sends its batch and hands its own updates to the
  receiver thread, whose \<open>k\<close> acknowledgements it waits for. What goes downstream is returned.
\<close>

definition timer_fires :: "(nat \<Rightarrow> byte) \<Rightarrow> nat \<Rightarrow> node \<Rightarrow> (node \<times> receiver_wire_msg list) res" where
  "timer_fires junk k N =
     bindR (prop_handle zmq_ok junk (PTimer ETimerTrigger (replicate k EMyUpdatesACK)) (nd_p N) (nd_t N)) (\<lambda>(p, t, acts).
     bindR (recv_run zmq_ok (map RInternal (to_receiver acts)) (nd_r N) (nd_u N) (nd_heap N)) (\<lambda>(r, u, heap, racts).
     if to_pair racts = replicate k EMyUpdatesACK
     then Inr (N\<lparr>nd_p := p, nd_t := t, nd_r := r, nd_u := u, nd_heap := heap\<rparr>, to_downstream acts)
     else Inl Blocked))"

text \<open>A message of an upstream node, and what the receiver thread passes on to the propagator thread.\<close>

definition msg_arrives :: "(nat \<Rightarrow> byte) \<Rightarrow> receiver_wire_msg \<Rightarrow> node \<Rightarrow> node res" where
  "msg_arrives junk m N =
     bindR (recv_handle zmq_ok (RWire m) (nd_r N) (nd_u N) (nd_heap N)) (\<lambda>(r, u, heap, racts).
     bindR (prop_run zmq_ok junk (map PUpdate (to_propagator racts)) (nd_p N) (nd_t N)) (\<lambda>(p, t, acts).
     Inr (N\<lparr>nd_p := p, nd_t := t, nd_r := r, nd_u := u, nd_heap := heap\<rparr>)))"

text \<open>A running node with the table \<open>tid\<close>, which takes part in the ring, and the registered thread \<open>thr\<close>.\<close>

definition prop_ready :: "value_fn \<Rightarrow> nat \<Rightarrow> i32 \<Rightarrow> nat \<Rightarrow> i32 \<Rightarrow> Propagator \<Rightarrow> bool" where
  "prop_ready vadd n tid thr me p \<longleftrightarrow>
     p_state p = P_RUN \<and> 0 <s p_nanosec p \<and> registered p tid vadd n \<and> table_loop tid p \<and> \<not> p_ds_id p <s 0 \<and>
     p_my_id p = me \<and> \<not> me <s 0 \<and> thr \<in> p_update_push_sock p \<and> p_update_queue p = []"

definition table_ready_at :: "value_fn \<Rightarrow> value_fn \<Rightarrow> nat \<Rightarrow> i32 \<Rightarrow> InternalTable \<Rightarrow> bool" where
  "table_ready_at vadd vsub n tid it \<longleftrightarrow>
     it_table_id it = tid \<and> table_ok vadd n it \<and> it_vsub_func it = vsub \<and> it_apply_updates it \<and>
     it_forward_updates it \<and> \<not> it_do_user_cbk it"

definition node_ready :: "value_fn \<Rightarrow> value_fn \<Rightarrow> nat \<Rightarrow> i32 \<Rightarrow> nat \<Rightarrow> i32 \<Rightarrow> node \<Rightarrow> bool" where
  "node_ready vadd vsub n tid thr me N \<longleftrightarrow>
     prop_ready vadd n tid thr me (nd_p N) \<and>
     r_state (nd_r N) = R_RUN \<and> r_my_id (nd_r N) = me \<and> um_find tid (r_table_dir (nd_r N)) = Some tid \<and>
     (\<exists>it. nd_heap N tid = Some it \<and> table_ready_at vadd vsub n tid it) \<and>
     only_table tid (nd_t N) \<and> um_find tid (t_peers_range (nd_t N)) = Some (peers_at tid (nd_t N))"

text \<open>The value of a key in the node's table.\<close>

definition node_val :: "nat \<Rightarrow> i32 \<Rightarrow> i64 \<Rightarrow> node \<Rightarrow> bytes" where
  "node_val n tid k N = (case nd_heap N tid of None \<Rightarrow> vzero n | Some it \<Rightarrow> stored n k it)"

section \<open>Sums\<close>

text \<open>A store whose values are the sums of the deltas in a log.\<close>

definition sums :: "value_fn \<Rightarrow> nat \<Rightarrow> (i64, bytes) umap \<Rightarrow> (i64 \<times> bytes) list \<Rightarrow> bool" where
  "sums vadd n us L \<longleftrightarrow> values_ok n us \<and> fst ` set L \<subseteq> set (um_keys us) \<and> (\<forall>x \<in> set L. length (snd x) = n) \<and>
     (\<forall>k. um_at (vzero n) k us = vsum vadd n (deltas_for k L))"

lemma sums_Nil: "sums vadd n [] []"
  by (simp add: sums_def um_at_def vsum_def)

lemma deltas_for_empty: "deltas_for k L = [] \<longleftrightarrow> k \<notin> fst ` set L"
  by (induction L) (auto split: if_split_asm)

lemma in_keys: "k \<in> set (um_keys us) \<longleftrightarrow> um_find k us \<noteq> None"
  by (simp add: map_of_eq_None_iff)

context value_algebra
begin

lemma vsum_deltas: "values_ok n us \<Longrightarrow> vsum vadd n (deltas_for k us) = um_at (vzero n) k us"
  using values_okD [of n us k]
  by (auto simp: values_ok_def deltas_for_distinct um_at_def vsum_def vadd_zero split: option.split)

lemma sums_step:
  assumes "sums vadd n us L" and "values_ok n us'" and "\<forall>x \<in> set M. length (snd x) = n"
    and "\<And>k. um_find k us' = (if D k = [] then um_find k us
       else Some (vapp vadd n (um_at (vzero n) k us) (vsum vadd n (D k))))"
    and "\<And>k. vsum vadd n (D k) = vsum vadd n (deltas_for k M)" and "\<And>k. D k = [] \<Longrightarrow> deltas_for k M = []"
  shows "sums vadd n us' (L @ M)"
proof -
  have len: "\<forall>x \<in> set L. length (snd x) = n" using assms(1) by (simp add: sums_def)
  have len_k: "\<forall>d \<in> set (deltas_for k L @ deltas_for k M). length d = n" for k
    using deltas_for_length [OF len] deltas_for_length [OF assms(3)] by auto
  have "um_at (vzero n) k us' = vsum vadd n (deltas_for k (L @ M))" for k
  proof (cases "D k = []")
    case True
    then have "um_at (vzero n) k us' = um_at (vzero n) k us" using assms(4) by (simp add: um_at_def)
    then show ?thesis using assms(1,6) True by (simp add: sums_def)
  next
    case False
    then have "um_at (vzero n) k us' = vapp vadd n (um_at (vzero n) k us) (vsum vadd n (deltas_for k M))"
      using assms(4,5) by (simp add: um_at_def [of _ k us'])
    then show ?thesis using assms(1) vsum_append [OF len_k] by (simp add: sums_def)
  qed
  moreover have "fst ` set (L @ M) \<subseteq> set (um_keys us')"
  proof
    fix k assume "k \<in> fst ` set (L @ M)"
    then have "um_find k us \<noteq> None \<or> deltas_for k M \<noteq> []"
      using assms(1) unfolding sums_def deltas_for_empty in_keys [symmetric] by auto
    then show "k \<in> set (um_keys us')" using assms(4,6) [of k] unfolding in_keys by auto
  qed
  ultimately show ?thesis using assms(2,3) len by (simp add: sums_def ball_Un)
qed

lemma sums_merge:
  assumes "sums vadd n us L" and "sums vadd n ups M" and "values_ok n us'"
    and "\<forall>k. um_find k us' = (if deltas_for k ups = [] then um_find k us
       else Some (vapp vadd n (um_at (vzero n) k us) (vsum vadd n (deltas_for k ups))))"
  shows "sums vadd n us' (L @ M)"
proof (rule sums_step [OF assms(1,3), where D = "\<lambda>k. deltas_for k ups"])
  show "vsum vadd n (deltas_for k ups) = vsum vadd n (deltas_for k M)" for k
    using vsum_deltas [of ups k] assms(2) by (simp add: sums_def)
  show "deltas_for k M = []" if "deltas_for k ups = []" for k
    using that assms(2) by (auto simp: sums_def deltas_for_empty)
qed (use assms(2,4) in \<open>simp_all add: sums_def\<close>)

lemma sums_log:
  assumes "sums vadd n us L" and "\<forall>x \<in> set log. length (snd x) = n"
    and "foldR (\<lambda>(k, d). AddUpdate k d (of_nat n) vadd) log us = Inr us'"
  shows "sums vadd n us' (L @ log)"
proof -
  have v: "values_ok n us" using assms(1) by (simp add: sums_def)
  show ?thesis
    by (rule sums_step [OF assms(1), where D = "\<lambda>k. deltas_for k log"])
       (use add_all_sums [OF v assms(2)] assms(2,3) in auto)
qed

end

section \<open>Steps of a node\<close>

definition key_fits :: "i64 \<Rightarrow> bool" where
  "key_fits k \<longleftrightarrow> - 2147483648 \<le> sint k \<and> sint k < 2147483648"

lemma log_msg_event:
  "\<forall>x \<in> set incs. key_fits (fst x) \<Longrightarrow> map (PUpdate \<circ> log_msg tid) incs = map (log_event tid) incs"
proof (induction incs)
  case (Cons x incs)
  have "scast (ucast (fst x) :: i32) = fst x"
    using Cons.prems
    by (simp add: key_fits_def sint_inj_iff [symmetric] sint_scast_i64 sint_trunc32 signed_take_bit_int_eq_self_iff)
  with Cons show ?case by (cases x) (simp add: log_msg_def log_event_def)
qed simp

lemma find_map_keys:
  "um_find k (map (\<lambda>(k, v). (k, f k)) us) = (if k \<in> set (um_keys us) then Some (f k) else None)"
  by (induction us) auto

lemma rep_usize:
  assumes "ub_rep a b" and "a_upds a = us" and "us \<noteq> []" and "values_ok n us"
  shows "a_usize a = n"
proof -
  have "\<forall>u \<in> set us. length (snd u) = a_usize a" using assms(1,2) by (simp add: ub_rep_def abuf_ok_def)
  moreover have "hd us \<in> set us" using assms(3) by simp
  ultimately show ?thesis using assms(4) unfolding values_ok_def by metis
qed

lemma table_ready_storage:
  assumes "it' = it\<lparr>it_storage := s\<rparr>" and "table_ready_at vadd vsub n tid it"
    and "\<And>k v. it_storage it' k = Some v \<Longrightarrow> length v = n"
  shows "table_ready_at vadd vsub n tid it'"
  using assms(2,3) unfolding table_ready_at_def table_ok_def by (simp add: assms(1))

lemma flush_only:
  "um_find tid es = Some us \<Longrightarrow> distinct (um_keys es) \<Longrightarrow> \<forall>(k, us) \<in> set es. k \<noteq> tid \<longrightarrow> us = [] \<Longrightarrow>
     foldR (flush_table zs junk p) es s = flush_table zs junk p (tid, us) s"
proof (induction es arbitrary: s)
  case (Cons x es)
  obtain k us' where x: "x = (k, us')" by (cases x)
  obtain t acks acts where s: "s = (t, acks, acts)" by (cases s)
  have none: "foldR (flush_table zs junk p) es s' = Inr s'" if "\<forall>(k, us) \<in> set es. us = []" for es s'
    using that by (induction es arbitrary: s') (auto simp: flush_table_def)
  show ?case
  proof (cases "k = tid")
    case True
    then have "tid \<notin> set (um_keys es)" "us' = us" using Cons.prems x by auto
    then have "\<forall>(k, us) \<in> set es. us = []" using Cons.prems(3) by force
    from none [OF this] show ?thesis
      by (cases "flush_table zs junk p (tid, us) s") (simp_all add: x True \<open>us' = us\<close>)
  next
    case False
    then have "us' = []" using Cons.prems(3) x by auto
    then have "foldR (flush_table zs junk p) (x # es) s = foldR (flush_table zs junk p) es s"
      by (simp add: x s flush_table_def)
    also have "\<dots> = flush_table zs junk p (tid, us) s"
      by (rule Cons.IH) (use Cons.prems x False in auto)
    finally show ?thesis .
  qed
qed simp

lemma keys_add:
  assumes "\<forall>k. um_find k us' = (if deltas_for k log = [] then um_find k us else Some (f k))"
  shows "set (um_keys us') \<subseteq> set (um_keys us) \<union> fst ` set log"
proof
  fix k assume "k \<in> set (um_keys us')"
  then show "k \<in> set (um_keys us) \<union> fst ` set log"
    using assms deltas_for_empty [of k log] unfolding Un_iff in_keys by (auto split: if_split_asm)
qed

context value_algebra
begin

lemma keys_log:
  assumes "values_ok n us" and "\<forall>x \<in> set log. length (snd x) = n"
    and "foldR (\<lambda>(k, d). AddUpdate k d (of_nat n) vadd) log us = Inr us'"
  shows "set (um_keys us') \<subseteq> set (um_keys us) \<union> fst ` set log"
proof -
  have "\<forall>k. um_find k us' = (if deltas_for k log = [] then um_find k us
      else Some (vapp vadd n (um_at (vzero n) k us) (vsum vadd n (deltas_for k log))))"
    using add_all_sums [OF assms(1,2)] assms(3) by auto
  then show ?thesis by (rule keys_add)
qed

lemma app_incs_ok:
  assumes "0 < n" and "node_ready vadd vsub n tid thr me N"
    and "\<forall>x \<in> set incs. length (snd x) = n \<and> key_fits (fst x)"
    and "sums vadd n (store_at tid (nd_t N)) L" and "sums vadd n (own_at tid (nd_t N)) Lo"
  shows "\<exists>N'. app_incs junk thr tid incs N = Inr N' \<and> node_ready vadd vsub n tid thr me N' \<and>
    sums vadd n (store_at tid (nd_t N')) (L @ incs) \<and> sums vadd n (own_at tid (nd_t N')) (Lo @ incs) \<and>
    set (um_keys (store_at tid (nd_t N'))) \<subseteq> set (um_keys (store_at tid (nd_t N))) \<union> fst ` set incs \<and>
    set (um_keys (own_at tid (nd_t N'))) \<subseteq> set (um_keys (own_at tid (nd_t N))) \<union> fst ` set incs \<and>
    range_at tid (nd_t N') = (range_at tid (nd_t N))\<lparr>ur_end := ur_end (range_at tid (nd_t N)) + of_nat (length incs)\<rparr> \<and>
    peers_at tid (nd_t N') = peers_at tid (nd_t N) \<and> nd_u N' = nd_u N \<and>
    (\<forall>k. node_val n tid k N' = vapp vadd n (node_val n tid k N) (vsum vadd n (deltas_for k incs)))"
proof -
  let ?p = "nd_p N" and ?t = "nd_t N"
  from assms(2) obtain it where it: "nd_heap N tid = Some it" "table_ready_at vadd vsub n tid it"
    and p: "prop_ready vadd n tid thr me ?p"
    and ot: "only_table tid ?t" "um_find tid (t_peers_range ?t) = Some (peers_at tid ?t)"
    by (auto simp: node_ready_def)
  have len: "\<forall>x \<in> set incs. length (snd x) = n" and keys: "\<forall>x \<in> set incs. key_fits (fst x)" using assms(3) by auto
  have run: "p_state ?p = P_RUN" "0 <s p_nanosec ?p" "registered ?p tid vadd n" "table_loop tid ?p"
    "thr \<in> p_update_push_sock ?p" "p_update_queue ?p = []"
    using p by (simp_all add: prop_ready_def)
  have h: "nd_heap N (tb_internal_table \<lparr>tb_internal_table = tid\<rparr>) = Some it" using it(1) by simp
  have tk: "table_ok vadd n it" "it_table_id it = tid" using it(2) by (simp_all add: table_ready_at_def)
  obtain it' where it': "inc_all zmq_ok thr \<lparr>tb_internal_table = tid\<rparr> incs (nd_heap N) ?p =
      Inr ((nd_heap N)(tid \<mapsto> it'), ?p\<lparr>p_update_queue := map (log_msg tid) incs\<rparr>)"
    "table_ready_at vadd vsub n tid it'"
    "\<forall>k. stored n k it' = vapp vadd n (stored n k it) (vsum vadd n (deltas_for k incs))"
  proof -
    obtain it' where it': "inc_all zmq_ok thr \<lparr>tb_internal_table = tid\<rparr> incs (nd_heap N) ?p =
      Inr ((nd_heap N)(tb_internal_table \<lparr>tb_internal_table = tid\<rparr> \<mapsto> it'),
        ?p\<lparr>p_update_queue := p_update_queue ?p @ map (log_msg (it_table_id it)) incs\<rparr>)"
      and ok: "table_ok vadd n it'" "it' = it\<lparr>it_storage := it_storage it'\<rparr>"
      and st: "\<forall>k. stored n k it' = vapp vadd n (stored n k it) (vsum vadd n (deltas_for k incs))"
      using inc_all_run [where heap = "nd_heap N" and tb = "\<lparr>tb_internal_table = tid\<rparr>", OF h tk(1) len run(1,5)] by blast
    have "table_ready_at vadd vsub n tid it'"
      by (rule table_ready_storage [OF ok(2) it(2)]) (use ok(1) in \<open>simp add: table_ok_def\<close>)
    with it' st tk(2) run(6) show ?thesis by (intro that [of it']) simp_all
  qed
  have vals: "values_ok n (store_at tid ?t)" "values_ok n (own_at tid ?t)" using assms(4,5) by (simp_all add: sums_def)
  obtain t' where t': "prop_run zmq_ok junk (map (log_event tid) incs) ?p ?t = Inr (?p, t', [])"
    "foldR (\<lambda>(k, d). AddUpdate k d (of_nat n) vadd) incs (store_at tid ?t) = Inr (store_at tid t')"
    "foldR (\<lambda>(k, d). AddUpdate k d (of_nat n) vadd) incs (own_at tid ?t) = Inr (own_at tid t')"
    "range_at tid t' = (range_at tid ?t)\<lparr>ur_end := ur_end (range_at tid ?t) + of_nat (length incs)\<rparr>"
    "t_peers_range t' = t_peers_range ?t" "only_table tid t'"
    using log_run [OF run(1-3) assms(1) len vals, of zmq_ok junk] ot(1) run(4) by auto
  let ?N = "N\<lparr>nd_p := ?p, nd_t := t', nd_heap := (nd_heap N)(tid \<mapsto> it')\<rparr>"
  have "?p\<lparr>p_update_queue := []\<rparr> = ?p" using run(6) by simp
  then have "app_incs junk thr tid incs N = Inr ?N"
    using it'(1) t'(1) by (simp add: app_incs_def log_msg_event [OF keys])
  moreover have "node_ready vadd vsub n tid thr me ?N"
    using assms(2) it'(2) t'(5,6) by (simp add: node_ready_def peers_at_def um_at_def)
  moreover have "node_val n tid k ?N = vapp vadd n (node_val n tid k N) (vsum vadd n (deltas_for k incs))" for k
    using it'(3) it(1) by (simp add: node_val_def)
  moreover have "peers_at tid t' = peers_at tid ?t" using t'(5) by (simp add: peers_at_def)
  ultimately show ?thesis
    using sums_log [OF assms(4) len t'(2)] sums_log [OF assms(5) len t'(3)] keys_log [OF vals(1) len t'(2)]
      keys_log [OF vals(2) len t'(3)] t'(4)
    by (intro exI [of _ ?N]) simp
qed

lemma timer_ok:
  assumes "node_ready vadd vsub n tid thr me N"
    and "values_ok n us" and "store_at tid (nd_t N) = us" and "us \<noteq> []"
    and "values_ok n own" and "own_at tid (nd_t N) = own" and "own \<noteq> []"
    and "range_at tid (nd_t N) = r" and "active_range r" and "peers_at tid (nd_t N) = peers" and "ids_ok me peers"
    and "fits n (length us) (Suc (length peers))" and "fits n (length own) 1"
  shows "\<exists>N' data b mb a am j. timer_fires junk 1 N = Inr (N', [WUpdateBuffer tid data]) \<and>
    node_ready vadd vsub n tid thr me N' \<and>
    ub_rep a b \<and> ub_image b = Inr data \<and> a_usize a = n \<and> a_upds a = us \<and>
    a_ranges a = (active_ranges peers @ [(me, ur_st r, ur_end r)]) @ free_slots j \<and>
    ub_rep am mb \<and> a_usize am = n \<and> a_upds am = own \<and> GetNodeRange me mb = Inr (Some (ur_st r, ur_end r)) \<and>
    queue_at tid (nd_u N') = queue_at tid (nd_u N) @ [mb] \<and>
    store_at tid (nd_t N') = [] \<and> own_at tid (nd_t N') = [] \<and>
    range_at tid (nd_t N') = r\<lparr>ur_st := ur_end r + 1\<rparr> \<and>
    peers_at tid (nd_t N') = map (\<lambda>(nid, r). (nid, flush_range r)) peers \<and> nd_heap N' = nd_heap N"
proof -
  let ?p = "nd_p N" and ?t = "nd_t N"
  have p: "prop_ready vadd n tid thr me ?p" and r: "r_state (nd_r N) = R_RUN"
    and ot: "only_table tid ?t"
    using assms(1) by (auto simp: node_ready_def)
  have run: "p_state ?p = P_RUN" "table_loop tid ?p" "\<not> p_ds_id ?p <s 0" "p_my_id ?p = me" "table_update_size tid ?p = of_nat n"
    using p by (auto simp: prop_ready_def registered_def table_update_size_def)
  have ho: "hands_over ?p ?t tid" using run(2) assms(6,7) by (simp add: hands_over_def)
  have ready: "table_ready ?p ?t tid us"
    unfolding table_ready_def
    by (rule exI [of _ n]) (use assms run in \<open>auto simp: values_ok_def\<close>)
  have sr: "sent_ranges ?p ?t tid = active_ranges peers @ [(me, ur_st r, ur_end r)]"
    using assms(8-10) run(4) by (simp add: sent_ranges_def own_range_def)
  obtain mb b data t' where
    fl: "flush_table zmq_ok junk ?p (tid, us) (?t, [EMyUpdatesACK], [ToTimer (timer_cmd ?p)]) =
      Inr (t', [], [ToTimer (timer_cmd ?p), ToReceiver (MMyUpdates \<lparr>mu_table_id = tid, mu_update_buffer_ptr = mb\<rparr>),
        ToDownstream (WUpdateBuffer tid data)])"
    and own: "\<exists>am. ub_rep am mb \<and> a_upds am = own" "GetNodeRange me mb = Inr (Some (ur_st r, ur_end r))"
    and sent: "ub_image b = Inr data"
      "\<exists>a j. ub_rep a b \<and> a_upds a = us \<and> a_ranges a = (active_ranges peers @ [(me, ur_st r, ur_end r)]) @ free_slots j"
    and t': "flushed ?p ?t tid t'"
  proof -
    have "if hands_over ?p ?t tid then [EMyUpdatesACK] = EMyUpdatesACK # [] else [] = [EMyUpdatesACK]" using ho by simp
    from flush_table_ok [OF ready assms(4) run(3) this, of junk "[ToTimer (timer_cmd ?p)]"]
    show ?thesis unfolding sr assms(6,8) run(4) using ho by (elim exE conjE) (rule that; fastforce)
  qed
  have "um_find tid (t_update_store ?t) = Some us"
    using assms(3,4) by (auto simp: store_at_def um_at_def split: option.split_asm)
  from flush_only [OF this] ot fl have h: "prop_handle zmq_ok junk (PTimer ETimerTrigger [EMyUpdatesACK]) ?p ?t =
      Inr (?p, t', [ToTimer (timer_cmd ?p), ToReceiver (MMyUpdates \<lparr>mu_table_id = tid, mu_update_buffer_ptr = mb\<rparr>),
        ToDownstream (WUpdateBuffer tid data)])"
    using run(1) by (auto simp: only_table_def handle_timer_def)
  obtain u' where u': "recv_run zmq_ok [RInternal (MMyUpdates \<lparr>mu_table_id = tid, mu_update_buffer_ptr = mb\<rparr>)] (nd_r N) (nd_u N) (nd_heap N) =
      Inr (nd_r N, u', nd_heap N, [ToPair EMyUpdatesACK])" "queue_at tid u' = queue_at tid (nd_u N) @ [mb]"
    using my_updates_run [OF r, of "[\<lparr>mu_table_id = tid, mu_update_buffer_ptr = mb\<rparr>]" "nd_u N" "nd_heap N"]
    by (auto simp: buffers_of_def)
  let ?N = "N\<lparr>nd_p := ?p, nd_t := t', nd_r := nd_r N, nd_u := u', nd_heap := nd_heap N\<rparr>"
  have tf: "timer_fires junk 1 N = Inr (?N, [WUpdateBuffer tid data])"
    using h u'(1) by (simp add: timer_fires_def del: recv_run.simps prop_handle.simps)
  have ot': "only_table tid t'" using only_table_put [OF ot] t' by (simp add: flushed_def)
  have nr: "node_ready vadd vsub n tid thr me ?N"
    using assms(1) ot' t' by (simp add: node_ready_def flushed_def peers_at_def um_at_def)
  obtain a j where a: "ub_rep a b" "a_upds a = us" "a_ranges a = (active_ranges peers @ [(me, ur_st r, ur_end r)]) @ free_slots j"
    using sent(2) by blast
  obtain am where am: "ub_rep am mb" "a_upds am = own" using own(1) by blast
  have "a_usize a = n" "a_usize am = n"
    by (rule rep_usize [OF a(1,2) assms(4,2)], rule rep_usize [OF am assms(7,5)])
  moreover have "store_at tid t' = []" "own_at tid t' = []" "range_at tid t' = r\<lparr>ur_st := ur_end r + 1\<rparr>"
    "peers_at tid t' = map (\<lambda>(nid, r). (nid, flush_range r)) peers"
    using t' ho assms(8,10) flushed_peers [OF t'] by (simp_all add: flushed_def store_at_def)
  ultimately show ?thesis
    using tf nr a am own(2) sent(1) u'(2)
    by (intro exI [of _ ?N] exI [of _ data] exI [of _ b] exI [of _ mb] exI [of _ a] exI [of _ am] exI [of _ j]) simp
qed

lemma merge_at_node:
  assumes "node_ready vadd vsub n tid thr me N"
    and "ub_rep a b" and "a_usize a = n" and "sums vadd n (a_upds a) M"
    and "buffer_ranges b = Inr rs" and "distinct (map fst rs)" and "\<forall>r \<in> set rs. contiguous (peers_at tid (nd_t N)) r"
    and "sums vadd n (store_at tid (nd_t N)) L"
  shows "\<exists>t'. prop_run zmq_ok junk (map PUpdate (to_propagator (recv_acts it tid b cb))) (nd_p N) (nd_t N) =
      Inr (nd_p N, if it_forward_updates it then t' else nd_t N, []) \<and>
    sums vadd n (store_at tid t') (L @ M) \<and> only_table tid t' \<and>
    set (um_keys (store_at tid t')) \<subseteq> set (um_keys (store_at tid (nd_t N))) \<union> set (um_keys (a_upds a)) \<and>
    foldR merge_range rs (peers_at tid (nd_t N)) = Inr (peers_at tid t') \<and>
    um_find tid (t_peers_range t') = Some (peers_at tid t') \<and>
    own_at tid t' = own_at tid (nd_t N) \<and> range_at tid t' = range_at tid (nd_t N)"
proof -
  let ?p = "nd_p N" and ?t = "nd_t N"
  have p: "p_state ?p = P_RUN" "registered ?p tid vadd n" and ot: "only_table tid ?t"
    and pr: "um_find tid (t_peers_range ?t) = Some (peers_at tid ?t)"
    using assms(1) by (auto simp: node_ready_def prop_ready_def)
  have v: "values_ok n (store_at tid ?t)" using assms(8) by (simp add: sums_def)
  obtain t' where t': "prop_handle zmq_ok junk (PUpdate (MUpdateBuffer \<lparr>pub_table_id = tid, pub_update_buffer_ptr = b\<rparr>)) ?p ?t = Inr (?p, t', [])"
    and st: "\<forall>k. um_find k (store_at tid t') =
       (if deltas_for k (a_upds a) = [] then um_find k (store_at tid ?t)
        else Some (vapp vadd n (um_at (vzero n) k (store_at tid ?t)) (vsum vadd n (deltas_for k (a_upds a)))))"
    and pe: "foldR merge_range rs (peers_at tid ?t) = Inr (peers_at tid t')"
    and re: "values_ok n (store_at tid t')" "t_my_store t' = t_my_store ?t" "t_my_range t' = t_my_range ?t"
      "only_table tid t'" "\<exists>peers'. um_find tid (t_peers_range t') = Some peers'"
    using merge_forwarded [OF value_algebra_axioms p pr assms(2,3) v assms(5-7), of zmq_ok junk] ot by blast
  have "um_find tid (t_peers_range t') = Some (peers_at tid t')" using re(5) by (auto simp: peers_at_def um_at_def)
  moreover have "prop_run zmq_ok junk (map PUpdate (to_propagator (recv_acts it tid b cb))) ?p ?t =
      Inr (?p, if it_forward_updates it then t' else ?t, [])"
    using t' p(1) by (simp add: recv_acts_def del: prop_handle.simps)
  moreover have "own_at tid t' = own_at tid ?t" "range_at tid t' = range_at tid ?t"
    using re(2,3) by (simp_all add: at_defs)
  moreover have "set (um_keys (store_at tid t')) \<subseteq> set (um_keys (store_at tid ?t)) \<union> set (um_keys (a_upds a))"
    using keys_add [OF st] by simp
  ultimately show ?thesis using sums_merge [OF assms(8,4) re(1) st] pe re(4) by blast
qed

lemma arrives_foreign:
  assumes "node_ready vadd vsub n tid thr me N"
    and "ub_rep a b" and "ub_image b = Inr data" and "a_usize a = n" and "sums vadd n (a_upds a) M"
    and "a_ranges a = rs @ free_slots j" and "rs \<noteq> []" and "\<forall>r \<in> set rs. \<not> fst r <s 0"
    and "me \<notin> fst ` set rs" and "distinct (map fst rs)" and "\<forall>r \<in> set rs. contiguous (peers_at tid (nd_t N)) r"
    and "sums vadd n (store_at tid (nd_t N)) L"
  shows "\<exists>N'. msg_arrives junk (WUpdateBuffer tid data) N = Inr N' \<and> node_ready vadd vsub n tid thr me N' \<and>
    sums vadd n (store_at tid (nd_t N')) (L @ M) \<and> own_at tid (nd_t N') = own_at tid (nd_t N) \<and>
    set (um_keys (store_at tid (nd_t N'))) \<subseteq> set (um_keys (store_at tid (nd_t N))) \<union> set (um_keys (a_upds a)) \<and>
    range_at tid (nd_t N') = range_at tid (nd_t N) \<and> nd_u N' = nd_u N \<and>
    foldR merge_range rs (peers_at tid (nd_t N)) = Inr (peers_at tid (nd_t N')) \<and>
    (\<forall>k. node_val n tid k N' = vapp vadd n (node_val n tid k N) (vsum vadd n (deltas_for k M)))"
proof -
  from assms(1) obtain it where it: "nd_heap N tid = Some it" "table_ready_at vadd vsub n tid it"
    and r: "r_state (nd_r N) = R_RUN" "r_my_id (nd_r N) = me" "um_find tid (r_table_dir (nd_r N)) = Some tid" "\<not> me <s 0"
      "\<not> r_my_id (nd_r N) <s 0"
    by (auto simp: node_ready_def prop_ready_def)
  have tk: "table_ok vadd n it" "it_apply_updates it" "it_forward_updates it"
    using it(2) by (simp_all add: table_ready_at_def)
  have used: "used_ranges a = rs" "used_ranges a \<noteq> []"
    unfolding used_ranges_def assms(6) using takeWhile_used_free [OF assms(8)] assms(7) by simp_all
  have no_own: "r_my_id (nd_r N) \<notin> fst ` set (a_ranges a)" using assms(6,9) r(2,4) by auto
  have dis: "distinct (map fst (a_upds a))" "values_ok n (a_upds a)" using assms(5) by (simp_all add: sums_def values_ok_def)
  obtain fb cb it' i where h: "recv_handle zmq_ok (RWire (WUpdateBuffer tid data)) (nd_r N) (nd_u N) (nd_heap N) =
      Inr (nd_r N, nd_u N, (nd_heap N)(tid \<mapsto> it'), recv_acts it tid fb cb)"
    and fb: "ub_rep (a\<lparr>a_riter := i\<rparr>) fb" and it': "table_ok vadd n it'" "it' = it\<lparr>it_storage := it_storage it'\<rparr>"
    and st: "\<forall>k. stored n k it' = vapp vadd n (stored n k it) (vsum vadd n (deltas_for k (a_upds a)))"
    using foreign_buffer_applied [where heap = "nd_heap N" and itable = tid and u = "nd_u N",
        OF r(1,3) it(1) tk(1,2) assms(2-4) dis(1) used(2) no_own r(5)] by blast
  have rng: "buffer_ranges fb = Inr rs"
    using buffer_ranges_rep [OF fb] used(1) by (simp add: used_ranges_def)
  obtain t' where t': "prop_run zmq_ok junk (map PUpdate (to_propagator (recv_acts it tid fb cb))) (nd_p N) (nd_t N) =
      Inr (nd_p N, t', [])"
    and data: "sums vadd n (store_at tid t') (L @ M)" "only_table tid t'"
    "set (um_keys (store_at tid t')) \<subseteq> set (um_keys (store_at tid (nd_t N))) \<union> set (um_keys (a_upds a))"
    "foldR merge_range rs (peers_at tid (nd_t N)) = Inr (peers_at tid t')"
    "um_find tid (t_peers_range t') = Some (peers_at tid t')"
    "own_at tid t' = own_at tid (nd_t N)" "range_at tid t' = range_at tid (nd_t N)"
    using merge_at_node [OF assms(1) fb _ _ rng assms(10,11,12), of M junk it cb] assms(4,5) tk(3) by auto
  let ?N = "N\<lparr>nd_p := nd_p N, nd_t := t', nd_r := nd_r N, nd_u := nd_u N, nd_heap := (nd_heap N)(tid \<mapsto> it')\<rparr>"
  have "msg_arrives junk (WUpdateBuffer tid data) N = Inr ?N"
    using h t' by (simp add: msg_arrives_def del: recv_handle.simps)
  moreover have "table_ready_at vadd vsub n tid it'"
    by (rule table_ready_storage [OF it'(2) it(2)]) (use it'(1) in \<open>simp add: table_ok_def\<close>)
  then have "node_ready vadd vsub n tid thr me ?N"
    using assms(1) data(2,5) by (simp add: node_ready_def)
  moreover have "vsum vadd n (deltas_for k (a_upds a)) = vsum vadd n (deltas_for k M)" for k
    using vsum_deltas [OF dis(2), of k] assms(5) by (simp add: sums_def)
  then have "node_val n tid k ?N = vapp vadd n (node_val n tid k N) (vsum vadd n (deltas_for k M))" for k
    using st it(1) by (simp add: node_val_def)
  ultimately show ?thesis using data by (intro exI [of _ ?N]) simp
qed

text \<open>
  A buffer whose first range is the node's own comes back: the own part is taken out, but what is
  passed on to the propagator has lost the ranges of the others too.
\<close>

lemma arrives_own:
  assumes "node_ready vadd vsub n tid thr me N"
    and "queue_at tid (nd_u N) = [mb]" and "ub_rep am mb" and "a_usize am = n" and "a_upds am \<noteq> []"
    and "sums vadd n (a_upds am) Own" and "set (um_keys (a_upds am)) \<subseteq> fst ` set Own" and "GetNodeRange me mb = Inr (Some (st, en))"
    and "ub_rep a b" and "ub_image b = Inr data" and "a_usize a = n" and "sums vadd n (a_upds a) (X @ Own)"
    and "a_ranges a = (me, st, en) # x # suf" and "\<not> fst x <s 0"
    and "sums vadd n (store_at tid (nd_t N)) L"
  shows "\<exists>N'. msg_arrives junk (WUpdateBuffer tid data) N = Inr N' \<and> node_ready vadd vsub n tid thr me N' \<and>
    sums vadd n (store_at tid (nd_t N')) (L @ X) \<and> own_at tid (nd_t N') = own_at tid (nd_t N) \<and>
    set (um_keys (store_at tid (nd_t N'))) \<subseteq> set (um_keys (store_at tid (nd_t N))) \<union> set (um_keys (a_upds a)) \<and>
    range_at tid (nd_t N') = range_at tid (nd_t N) \<and> queue_at tid (nd_u N') = [] \<and>
    peers_at tid (nd_t N') = peers_at tid (nd_t N) \<and>
    (\<forall>k. node_val n tid k N' = vapp vadd n (node_val n tid k N) (vsum vadd n (deltas_for k X)))"
proof -
  from assms(1) obtain it where it: "nd_heap N tid = Some it" "table_ready_at vadd vsub n tid it"
    and r: "r_state (nd_r N) = R_RUN" "r_my_id (nd_r N) = me" "um_find tid (r_table_dir (nd_r N)) = Some tid" "\<not> me <s 0"
    by (auto simp: node_ready_def prop_ready_def)
  have tk: "table_ok vadd n it" "it_vsub_func it = vsub" "it_apply_updates it" "it_forward_updates it"
    using it(2) by (simp_all add: table_ready_at_def)
  have q: "um_find tid (u_my_updates (nd_u N)) = Some (mb # [])"
    using assms(2) by (auto simp: queue_at_def um_at_def split: option.split_asm)
  have lenX: "\<forall>x \<in> set X. length (snd x) = n" and lenO: "\<forall>x \<in> set Own. length (snd x) = n"
    and va: "values_ok n (a_upds a)" and vm: "values_ok n (a_upds am)"
    using assms(6,12) by (auto simp: sums_def)
  define others where "others = map (\<lambda>(k, v). (k, vsum vadd n (deltas_for k X))) (a_upds a)"
  have keys: "map fst others = map fst (a_upds a)" by (auto simp: others_def)
  have vals: "\<forall>x \<in> set others. length (snd x) = n"
    using deltas_for_length [OF lenX] by (auto simp: others_def)
  have at: "um_at (vzero n) k (a_upds a) = vapp vadd n (vsum vadd n (deltas_for k X)) (vsum vadd n (deltas_for k Own))" for k
    using assms(12) vsum_append [of "deltas_for k X" "deltas_for k Own"] deltas_for_length [OF lenX, of k] deltas_for_length [OF lenO, of k]
    by (auto simp: sums_def)
  have split: "a_upds a = map (\<lambda>(k, v). (k, vapp vadd n v (vsum vadd n (deltas_for k (a_upds am))))) others"
  proof -
    have "v = vapp vadd n (vsum vadd n (deltas_for k X)) (vsum vadd n (deltas_for k (a_upds am)))" if "(k, v) \<in> set (a_upds a)" for k v
    proof -
      have "um_find k (a_upds a) = Some v" using that va by (simp add: values_ok_def)
      then show ?thesis using at [of k] vsum_deltas [OF vm, of k] assms(6) by (simp add: um_at_def sums_def)
    qed
    then show ?thesis by (auto simp: others_def intro!: map_idI [symmetric])
  qed
  have sub: "set (map fst (a_upds am)) \<subseteq> set (map fst others)" unfolding keys
    using assms(7,12) by (auto simp: sums_def)
  have fo: "um_find k others = (if k \<in> set (um_keys (a_upds a)) then Some (vsum vadd n (deltas_for k X)) else None)" for k
    unfolding others_def by (rule find_map_keys)
  have sX: "fst ` set X \<subseteq> set (um_keys (a_upds a))" using assms(12) by (auto simp: sums_def)
  have "um_at (vzero n) k others = vsum vadd n (deltas_for k X)" for k
  proof (cases "k \<in> set (um_keys (a_upds a))")
    case False
    then have "deltas_for k X = []" using sX by (auto simp: deltas_for_empty)
    with False show ?thesis using fo [of k] by (simp add: um_at_def vsum_def)
  qed (simp add: um_at_def fo)
  then have sumX: "sums vadd n others X"
    using va vals lenX sX unfolding sums_def values_ok_def keys by simp
  have dis: "distinct (map fst others)" using va by (simp add: keys values_ok_def)
  have g: "GetNodeRange (r_my_id (nd_r N)) mb = Inr (Some (st, en))" using assms(8) r(2) by simp
  have ar: "a_ranges a = [] @ (r_my_id (nd_r N), st, en) # (x # suf)" using assms(13) r(2) by simp
  have me: "\<not> r_my_id (nd_r N) <s 0" using r(2,4) by simp
  obtain fb cb it' i where h: "recv_handle zmq_ok (RWire (WUpdateBuffer tid data)) (nd_r N) (nd_u N) (nd_heap N) =
      Inr (nd_r N, (nd_u N)\<lparr>u_my_updates := um_put tid [] (u_my_updates (nd_u N))\<rparr>, (nd_heap N)(tid \<mapsto> it'), recv_acts it tid fb cb)"
    and fb: "ub_rep (a\<lparr>a_riter := i, a_upds := others, a_ranges := [] @ (-1, st, en) # (x # suf)\<rparr>) fb"
    and it': "it' = it\<lparr>it_storage := it_storage it'\<rparr>"
    and st': "if it_apply_updates it
     then (\<forall>k. it_storage it' k = (if k \<in> set (map fst others)
       then Some (vapp vadd n (stored n k it) (the (map_of others k))) else it_storage it k))
     else it' = it"
    using own_updates_removed [where heap = "nd_heap N" and itable = tid and pre = "[]" and suf = "x # suf" and u = "nd_u N",
        OF r(1,3) it(1) tk(1,2) q assms(3-5) g assms(9-11) ar _ me _ split vals dis sub] assms(14) by auto
  have store: "it_storage it' k = (if k \<in> set (map fst others)
       then Some (vapp vadd n (stored n k it) (vsum vadd n (deltas_for k X))) else it_storage it k)" for k
    using st' tk(3) fo [of k] keys by (simp add: image_image)
  have val: "stored n k it' = vapp vadd n (stored n k it) (vsum vadd n (deltas_for k X))" for k
  proof (cases "k \<in> set (map fst others)")
    case False
    then have "deltas_for k X = []" using sumX by (auto simp: sums_def deltas_for_empty)
    with False store show ?thesis
      using vadd_zero_right [OF stored_length [OF tk(1), of k]] by (simp add: stored_def)
  qed (simp add: stored_def [of _ _ it'] store)
  have len: "length v = n" if "it_storage it' k = Some v" for k v
    using that val [of k] deltas_for_length [OF lenX, of k] stored_length [OF tk(1), of k] vadd_length
    by (simp add: stored_def)
  have ready: "table_ready_at vadd vsub n tid it'" using it(2) len by (rule table_ready_storage [OF it'])
  have rng: "buffer_ranges fb = Inr []" using buffer_ranges_rep [OF fb] by simp
  obtain t' where t': "prop_run zmq_ok junk (map PUpdate (to_propagator (recv_acts it tid fb cb))) (nd_p N) (nd_t N) =
      Inr (nd_p N, t', [])"
    and data: "sums vadd n (store_at tid t') (L @ X)" "only_table tid t'"
    "set (um_keys (store_at tid t')) \<subseteq> set (um_keys (store_at tid (nd_t N))) \<union> set (um_keys (a_upds a))"
    "peers_at tid t' = peers_at tid (nd_t N)"
    "um_find tid (t_peers_range t') = Some (peers_at tid t')"
    "own_at tid t' = own_at tid (nd_t N)" "range_at tid t' = range_at tid (nd_t N)"
    using merge_at_node [OF assms(1) fb _ _ rng _ _ assms(15), of X junk it cb] assms(11) sumX tk(4) keys by auto
  let ?u = "(nd_u N)\<lparr>u_my_updates := um_put tid [] (u_my_updates (nd_u N))\<rparr>"
  let ?N = "N\<lparr>nd_p := nd_p N, nd_t := t', nd_r := nd_r N, nd_u := ?u, nd_heap := (nd_heap N)(tid \<mapsto> it')\<rparr>"
  have "msg_arrives junk (WUpdateBuffer tid data) N = Inr ?N"
    using h t' by (simp add: msg_arrives_def del: recv_handle.simps)
  moreover have "node_ready vadd vsub n tid thr me ?N"
    using assms(1) data(2,5) ready by (simp add: node_ready_def)
  moreover have "node_val n tid k ?N = vapp vadd n (node_val n tid k N) (vsum vadd n (deltas_for k X))" for k
    using val it(1) by (simp add: node_val_def)
  moreover have "queue_at tid ?u = []" by (simp add: queue_at_def)
  ultimately show ?thesis using data by (intro exI [of _ ?N]) simp
qed

end

section \<open>Two nodes in a ring\<close>

text \<open>A node whose threads have just started.\<close>

definition node_fresh :: "value_fn \<Rightarrow> value_fn \<Rightarrow> nat \<Rightarrow> i32 \<Rightarrow> nat \<Rightarrow> i32 \<Rightarrow> node \<Rightarrow> bool" where
  "node_fresh vadd vsub n tid thr me N \<longleftrightarrow>
     node_ready vadd vsub n tid thr me N \<and> store_at tid (nd_t N) = [] \<and> own_at tid (nd_t N) = [] \<and>
     range_at tid (nd_t N) = empty_range \<and> peers_at tid (nd_t N) = [] \<and> queue_at tid (nd_u N) = []"

text \<open>One node increments and sends, the other receives.\<close>

definition send_on ::
  "(nat \<Rightarrow> byte) \<Rightarrow> node \<times> node \<Rightarrow> (node \<times> node) res" where
  "send_on junk = (\<lambda>(S, R).
     bindR (timer_fires junk 1 S) (\<lambda>(S, ms).
     bindR (foldR (msg_arrives junk) ms R) (\<lambda>R. Inr (S, R))))"

text \<open>Both nodes increment; the first sends to the second, and the second to the first.\<close>

definition ring_round ::
  "(nat \<Rightarrow> byte) \<Rightarrow> nat \<Rightarrow> i32 \<Rightarrow> (i64 \<times> bytes) list \<Rightarrow> (i64 \<times> bytes) list \<Rightarrow> node \<times> node \<Rightarrow> (node \<times> node) res" where
  "ring_round junk thr tid LA LB = (\<lambda>(A, B).
     bindR (app_incs junk thr tid LA A) (\<lambda>A.
     bindR (app_incs junk thr tid LB B) (\<lambda>B.
     bindR (send_on junk (A, B)) (\<lambda>(A, B).
     bindR (send_on junk (B, A)) (\<lambda>(B, A). Inr (A, B))))))"

lemma fits_mono: "fits n k r \<Longrightarrow> k' \<le> k \<Longrightarrow> r' \<le> r \<Longrightarrow> fits n k' r'"
proof -
  assume "fits n k r" "k' \<le> k" "r' \<le> r"
  moreover from this(2) have "(8 + n) * k' \<le> (8 + n) * k" by (rule mult_le_mono2)
  ultimately show ?thesis unfolding fits_def by linarith
qed

lemma keys_bound: "distinct (um_keys us) \<Longrightarrow> set (um_keys us) \<subseteq> fst ` set L \<Longrightarrow> length us \<le> length L"
proof -
  assume 1: "distinct (um_keys us)" "set (um_keys us) \<subseteq> fst ` set L"
  have "length us = card (set (um_keys us))" using 1(1) by (metis distinct_card length_map)
  also have "\<dots> \<le> card (fst ` set L)" using 1(2) by (intro card_mono) auto
  also have "\<dots> \<le> length L" by (meson card_image_le card_length finite_set le_trans)
  finally show ?thesis .
qed

text \<open>The range of a batch of at least one log.\<close>

lemma active_after:
  assumes "0 < k" and "m + k < 2147483648"
  shows "active_range \<lparr>ur_st = of_nat m, ur_end = of_nat m - 1 + of_nat k\<rparr>"
proof -
  obtain i where i: "k = Suc i" using assms(1) gr0_conv_Suc by blast
  have e: "(of_nat m - 1 + of_nat k :: i64) = of_nat (m + i)" by (simp add: i)
  have s: "sint (of_nat j :: i64) = int j" if "j < 2147483648" for j
    using that by (simp add: signed_of_nat signed_take_bit_int_eq_self)
  have "sint (of_nat m :: i64) = int m" "sint (of_nat (m + i) :: i64) = int (m + i)"
    by (rule s; use assms(2) i in linarith)+
  then show ?thesis unfolding active_range_def e word_sle_eq by simp
qed

context value_algebra
begin

lemma app_send_ok:
  assumes "0 < n" and "node_ready vadd vsub n tid thr me N"
    and "LA \<noteq> []" and "\<forall>x \<in> set LA. length (snd x) = n \<and> key_fits (fst x)"
    and "sums vadd n (store_at tid (nd_t N)) L" and "set (um_keys (store_at tid (nd_t N))) \<subseteq> fst ` set K"
    and "own_at tid (nd_t N) = []"
    and "range_at tid (nd_t N) = \<lparr>ur_st = of_nat m, ur_end = of_nat m - 1\<rparr>" and "m + length LA < 2147483648"
    and "peers_at tid (nd_t N) = []"
    and "fits n (length K + length LA) 1"
  shows "\<exists>N1 N' data b mb a am j. app_incs junk thr tid LA N = Inr N1 \<and>
    timer_fires junk 1 N1 = Inr (N', [WUpdateBuffer tid data]) \<and>
    node_ready vadd vsub n tid thr me N' \<and>
    ub_rep a b \<and> ub_image b = Inr data \<and> a_usize a = n \<and> sums vadd n (a_upds a) (L @ LA) \<and> a_upds a \<noteq> [] \<and>
    set (um_keys (a_upds a)) \<subseteq> fst ` set (K @ LA) \<and>
    a_ranges a = (me, of_nat m, of_nat (m + length LA) - 1) # free_slots j \<and>
    ub_rep am mb \<and> a_usize am = n \<and> sums vadd n (a_upds am) LA \<and> a_upds am \<noteq> [] \<and>
    set (um_keys (a_upds am)) \<subseteq> fst ` set LA \<and>
    GetNodeRange me mb = Inr (Some (of_nat m, of_nat (m + length LA) - 1)) \<and>
    queue_at tid (nd_u N') = queue_at tid (nd_u N) @ [mb] \<and>
    store_at tid (nd_t N') = [] \<and> own_at tid (nd_t N') = [] \<and>
    range_at tid (nd_t N') = \<lparr>ur_st = of_nat (m + length LA), ur_end = of_nat (m + length LA) - 1\<rparr> \<and>
    peers_at tid (nd_t N') = [] \<and>
    (\<forall>k. node_val n tid k N' = vapp vadd n (node_val n tid k N) (vsum vadd n (deltas_for k LA)))"
proof -
  have "sums vadd n (own_at tid (nd_t N)) []" using assms(7) sums_Nil by simp
  from app_incs_ok [OF assms(1,2,4,5) this, of junk] obtain N1 where N1: "app_incs junk thr tid LA N = Inr N1"
    "node_ready vadd vsub n tid thr me N1" "sums vadd n (store_at tid (nd_t N1)) (L @ LA)"
    "sums vadd n (own_at tid (nd_t N1)) LA"
    "set (um_keys (store_at tid (nd_t N1))) \<subseteq> set (um_keys (store_at tid (nd_t N))) \<union> fst ` set LA"
    "set (um_keys (own_at tid (nd_t N1))) \<subseteq> fst ` set LA"
    "range_at tid (nd_t N1) = \<lparr>ur_st = of_nat m, ur_end = of_nat m - 1 + of_nat (length LA)\<rparr>"
    "peers_at tid (nd_t N1) = []" "nd_u N1 = nd_u N"
    "\<forall>k. node_val n tid k N1 = vapp vadd n (node_val n tid k N) (vsum vadd n (deltas_for k LA))"
    using assms(7,8,10) by auto
  let ?us = "store_at tid (nd_t N1)" and ?own = "own_at tid (nd_t N1)"
  have sk: "set (um_keys ?us) \<subseteq> fst ` set (K @ LA)" using N1(5) assms(6) unfolding set_append image_Un by blast
  have v: "values_ok n ?us" "values_ok n ?own" using N1(3,4) by (simp_all add: sums_def)
  have ne: "?us \<noteq> []" "?own \<noteq> []" using N1(3,4) assms(3) by (auto simp: sums_def)
  have fu: "fits n (length ?us) (Suc (length ([] :: (i32, UpdateRange) umap)))" "fits n (length ?own) 1"
    using keys_bound [OF _ sk] keys_bound [OF _ N1(6)] v fits_mono [OF assms(11)] by (auto simp: values_ok_def)
  have ids: "ids_ok me []" using assms(2) by (simp add: ids_ok_def node_ready_def prop_ready_def)
  have act: "active_range \<lparr>ur_st = of_nat m, ur_end = of_nat m - 1 + of_nat (length LA)\<rparr>"
    by (rule active_after) (use assms(3,9) in simp_all)
  have en: "(of_nat m - 1 + of_nat (length LA) :: i64) = of_nat (m + length LA) - 1" by simp
  from timer_ok [OF N1(2) v(1) refl ne(1) v(2) refl ne(2) N1(7) act N1(8) ids fu, of junk]
  obtain N' data b mb a am j where t: "timer_fires junk 1 N1 = Inr (N', [WUpdateBuffer tid data])"
    "node_ready vadd vsub n tid thr me N'"
    "ub_rep a b" "ub_image b = Inr data" "a_usize a = n" "a_upds a = ?us"
    "a_ranges a = (active_ranges [] @ [(me, of_nat m, of_nat m - 1 + of_nat (length LA))]) @ free_slots j"
    "ub_rep am mb" "a_usize am = n" "a_upds am = ?own" "GetNodeRange me mb = Inr (Some (of_nat m, of_nat m - 1 + of_nat (length LA)))"
    "queue_at tid (nd_u N') = queue_at tid (nd_u N1) @ [mb]"
    "store_at tid (nd_t N') = []" "own_at tid (nd_t N') = []"
    "range_at tid (nd_t N') = \<lparr>ur_st = of_nat m - 1 + of_nat (length LA) + 1, ur_end = of_nat m - 1 + of_nat (length LA)\<rparr>"
    "peers_at tid (nd_t N') = []" "nd_heap N' = nd_heap N1"
    by auto
  have val: "node_val n tid k N' = node_val n tid k N1" for k using t(17) by (simp add: node_val_def)
  show ?thesis
    by (rule exI [of _ N1], rule exI [of _ N'], rule exI [of _ data], rule exI [of _ b], rule exI [of _ mb],
        rule exI [of _ a], rule exI [of _ am], rule exI [of _ j])
       (use N1 t ne sk val in \<open>simp add: active_ranges_def en\<close>)
qed

text \<open>The first round, with everything the next round depends on.\<close>

lemma round_ok:
  assumes "0 < n" and "node_fresh vadd vsub n tid thr a A" and "node_fresh vadd vsub n tid thr b B" and "a \<noteq> b"
    and "LA \<noteq> []" and "LB \<noteq> []"
    and "\<forall>x \<in> set (LA @ LB). length (snd x) = n \<and> key_fits (fst x)"
    and "fits n (length LA + length LB) 2"
  shows "\<exists>A' B'. ring_round junk thr tid LA LB (A, B) = Inr (A', B') \<and>
    node_ready vadd vsub n tid thr a A' \<and> node_ready vadd vsub n tid thr b B' \<and>
    (\<forall>k. node_val n tid k A' = vapp vadd n (vapp vadd n (node_val n tid k A) (vsum vadd n (deltas_for k LA))) (vsum vadd n (deltas_for k LB))) \<and>
    (\<forall>k. node_val n tid k B' = vapp vadd n (vapp vadd n (node_val n tid k B) (vsum vadd n (deltas_for k LB))) (vsum vadd n (deltas_for k LA))) \<and>
    sums vadd n (store_at tid (nd_t A')) LB \<and> set (um_keys (store_at tid (nd_t A'))) \<subseteq> fst ` set (LA @ LB) \<and>
    own_at tid (nd_t A') = [] \<and> peers_at tid (nd_t A') = [] \<and>
    range_at tid (nd_t A') = \<lparr>ur_st = of_nat (length LA), ur_end = of_nat (length LA) - 1\<rparr> \<and>
    sums vadd n (store_at tid (nd_t B')) [] \<and>
    peers_at tid (nd_t B') = [(a, \<lparr>ur_st = of_nat (length LA), ur_end = of_nat (length LA) - 1\<rparr>)]"
proof -
  have A: "node_ready vadd vsub n tid thr a A" "store_at tid (nd_t A) = []" "own_at tid (nd_t A) = []"
    "range_at tid (nd_t A) = \<lparr>ur_st = of_nat 0, ur_end = of_nat 0 - 1\<rparr>" "peers_at tid (nd_t A) = []" "queue_at tid (nd_u A) = []"
    and B: "node_ready vadd vsub n tid thr b B" "store_at tid (nd_t B) = []" "own_at tid (nd_t B) = []"
    "range_at tid (nd_t B) = \<lparr>ur_st = of_nat 0, ur_end = of_nat 0 - 1\<rparr>" "peers_at tid (nd_t B) = []"
    using assms(2,3) by (simp_all add: node_fresh_def empty_range_def)
  have pos: "\<not> a <s 0" "\<not> b <s 0" using A(1) B(1) by (simp_all add: node_ready_def prop_ready_def)
  have LA: "\<forall>x \<in> set LA. length (snd x) = n \<and> key_fits (fst x)" and LB: "\<forall>x \<in> set LB. length (snd x) = n \<and> key_fits (fst x)"
    using assms(7) by auto
  have bnd: "length LA + length LB < 2147483648"
  proof -
    have "length LA + length LB \<le> (8 + n) * (length LA + length LB)" by simp
    then show ?thesis using assms(8) unfolding fits_def by linarith
  qed
  have sA: "sums vadd n (store_at tid (nd_t A)) []" and sB: "sums vadd n (store_at tid (nd_t B)) []" "sums vadd n (own_at tid (nd_t B)) []"
    using A(2) B(2,3) sums_Nil by simp_all
  obtain A1 A2 d b1 mb x am j where A2: "app_incs junk thr tid LA A = Inr A1"
    "timer_fires junk 1 A1 = Inr (A2, [WUpdateBuffer tid d])" "node_ready vadd vsub n tid thr a A2"
    and x: "ub_rep x b1" "ub_image b1 = Inr d" "a_usize x = n" "sums vadd n (a_upds x) LA" "a_upds x \<noteq> []"
    "set (um_keys (a_upds x)) \<subseteq> fst ` set LA" "a_ranges x = (a, 0, of_nat (length LA) - 1) # free_slots j"
    and am: "ub_rep am mb" "a_usize am = n" "sums vadd n (a_upds am) LA" "a_upds am \<noteq> []" "set (um_keys (a_upds am)) \<subseteq> fst ` set LA"
    "GetNodeRange a mb = Inr (Some (0, of_nat (length LA) - 1))"
    and A2': "queue_at tid (nd_u A2) = [mb]" "store_at tid (nd_t A2) = []" "own_at tid (nd_t A2) = []"
    "range_at tid (nd_t A2) = \<lparr>ur_st = of_nat (length LA), ur_end = of_nat (length LA) - 1\<rparr>" "peers_at tid (nd_t A2) = []"
    "\<forall>k. node_val n tid k A2 = vapp vadd n (node_val n tid k A) (vsum vadd n (deltas_for k LA))"
    using app_send_ok [OF assms(1) A(1) assms(5) LA sA, of "[]" 0 junk] A bnd fits_mono [OF assms(8)] by auto
  obtain B1 where B1: "app_incs junk thr tid LB B = Inr B1" "node_ready vadd vsub n tid thr b B1"
    "sums vadd n (store_at tid (nd_t B1)) LB" "sums vadd n (own_at tid (nd_t B1)) LB"
    "set (um_keys (store_at tid (nd_t B1))) \<subseteq> fst ` set LB" "set (um_keys (own_at tid (nd_t B1))) \<subseteq> fst ` set LB"
    "range_at tid (nd_t B1) = \<lparr>ur_st = 0, ur_end = 0 - 1 + of_nat (length LB)\<rparr>" "peers_at tid (nd_t B1) = []"
    "\<forall>k. node_val n tid k B1 = vapp vadd n (node_val n tid k B) (vsum vadd n (deltas_for k LB))"
    using app_incs_ok [OF assms(1) B(1) LB sB, of junk] B by auto
  let ?r = "(a, 0, of_nat (length LA) - 1) :: i32 \<times> i64 \<times> i64"
  have xr: "a_ranges x = [?r] @ free_slots j" using x(7) by simp
  obtain B2 where B2: "msg_arrives junk (WUpdateBuffer tid d) B1 = Inr B2" "node_ready vadd vsub n tid thr b B2"
    "sums vadd n (store_at tid (nd_t B2)) (LB @ LA)" "own_at tid (nd_t B2) = own_at tid (nd_t B1)"
    "set (um_keys (store_at tid (nd_t B2))) \<subseteq> set (um_keys (store_at tid (nd_t B1))) \<union> set (um_keys (a_upds x))"
    "range_at tid (nd_t B2) = range_at tid (nd_t B1)"
    "peers_at tid (nd_t B2) = [(a, \<lparr>ur_st = 0, ur_end = of_nat (length LA) - 1\<rparr>)]"
    "\<forall>k. node_val n tid k B2 = vapp vadd n (node_val n tid k B1) (vsum vadd n (deltas_for k LA))"
    using arrives_foreign [OF B1(2) x(1-4) xr _ _ _ _ _ B1(3), of junk] pos assms(4) B1(8)
    by (auto simp: contiguous_def merge_range_def)
  let ?us = "store_at tid (nd_t B2)" and ?own = "own_at tid (nd_t B2)"
  let ?rB = "\<lparr>ur_st = 0, ur_end = 0 - 1 + of_nat (length LB)\<rparr> :: UpdateRange"
  let ?peers = "[(a, \<lparr>ur_st = 0, ur_end = of_nat (length LA) - 1\<rparr>)] :: (i32, UpdateRange) umap"
  have v: "values_ok n ?us" "values_ok n ?own" using B2(3,4) B1(4) by (simp_all add: sums_def)
  have sk: "set (um_keys ?us) \<subseteq> fst ` set (LA @ LB)" using B2(5) B1(5) x(6) unfolding set_append image_Un by blast
  have ne: "?us \<noteq> []" "?own \<noteq> []" using B2(3,4) B1(4) assms(6) by (auto simp: sums_def)
  have fu: "fits n (length ?us) (Suc (length ?peers))" "fits n (length ?own) 1"
    using keys_bound [OF _ sk] keys_bound [of ?own LB] v B2(4) B1(6) fits_mono [OF assms(8)] by (auto simp: values_ok_def)
  have ids: "ids_ok b ?peers" using pos assms(4) by (simp add: ids_ok_def)
  have act: "active_range ?rB" "active_range \<lparr>ur_st = 0, ur_end = of_nat (length LA) - 1\<rparr>"
    using active_after [of "length LB" 0] active_after [of "length LA" 0] assms(5,6) bnd by simp_all
  have rB: "range_at tid (nd_t B2) = ?rB" using B2(6) B1(7) by simp
  obtain B3 d2 b2 y i where B3: "timer_fires junk 1 B2 = Inr (B3, [WUpdateBuffer tid d2])" "node_ready vadd vsub n tid thr b B3"
    and y: "ub_rep y b2" "ub_image b2 = Inr d2" "a_usize y = n" "a_upds y = ?us"
    "a_ranges y = (active_ranges ?peers @ [(b, ur_st ?rB, ur_end ?rB)]) @ free_slots i"
    and B3': "store_at tid (nd_t B3) = []" "peers_at tid (nd_t B3) = map (\<lambda>(nid, r). (nid, flush_range r)) ?peers" "nd_heap B3 = nd_heap B2"
    using timer_ok [OF B2(2) v(1) refl ne(1) v(2) refl ne(2) rB act(1) B2(7) ids fu, of junk] by blast
  have yr: "a_ranges y = (a, 0, of_nat (length LA) - 1) # (b, 0, 0 - 1 + of_nat (length LB)) # free_slots i"
    using y(5) act(2) by (simp add: active_ranges_def)
  have sy: "sums vadd n (a_upds y) (LB @ LA)" using y(4) B2(3) by simp
  have sA2: "sums vadd n (store_at tid (nd_t A2)) []" using A2'(2) sums_Nil by simp
  have bpos: "\<not> fst (b, 0 :: i64, 0 - 1 + of_nat (length LB) :: i64) <s 0" using pos by simp
  obtain A3 where A3: "msg_arrives junk (WUpdateBuffer tid d2) A2 = Inr A3" "node_ready vadd vsub n tid thr a A3"
    "sums vadd n (store_at tid (nd_t A3)) LB" "own_at tid (nd_t A3) = []"
    "set (um_keys (store_at tid (nd_t A3))) \<subseteq> set (um_keys (a_upds y))"
    "range_at tid (nd_t A3) = range_at tid (nd_t A2)" "peers_at tid (nd_t A3) = []"
    "\<forall>k. node_val n tid k A3 = vapp vadd n (node_val n tid k A2) (vsum vadd n (deltas_for k LB))"
    using arrives_own [OF A2(3) A2'(1) am(1,2,4,3,5,6) y(1-3) sy yr bpos sA2, of junk] A2'(2,3,5) by auto
  have "ring_round junk thr tid LA LB (A, B) = Inr (A3, B3)"
    using A2(1,2) B1(1) B2(1) B3(1) A3(1) by (simp add: ring_round_def send_on_def)
  moreover have "node_val n tid k B3 = node_val n tid k B2" for k using B3'(3) by (simp add: node_val_def)
  moreover have "peers_at tid (nd_t B3) = [(a, \<lparr>ur_st = of_nat (length LA), ur_end = of_nat (length LA) - 1\<rparr>)]"
    using B3'(2) act(2) by (simp add: flush_range_def)
  ultimately show ?thesis
    using A3 A2' B3 B3'(1) B2(8) B1(9) sk y(4) sums_Nil by (intro exI [of _ A3] exI [of _ B3]) simp
qed

end

context value_algebra
begin

lemma node_val_length: "node_ready vadd vsub n tid thr me N \<Longrightarrow> length (node_val n tid k N) = n"
  using stored_length by (auto simp: node_ready_def node_val_def table_ready_at_def)

lemma vapp_two_sums:
  assumes "length v = n" and "\<forall>x \<in> set (L @ M). length (snd x) = n"
  shows "vapp vadd n (vapp vadd n v (vsum vadd n (deltas_for k L))) (vsum vadd n (deltas_for k M)) =
    vapp vadd n v (vsum vadd n (deltas_for k (L @ M)))"
proof -
  have len: "\<forall>d \<in> set (deltas_for k L). length d = n" "\<forall>d \<in> set (deltas_for k M). length d = n"
    using deltas_for_length [of L n k] deltas_for_length [of M n k] assms(2) by auto
  then have "\<forall>d \<in> set (deltas_for k L @ deltas_for k M). length d = n" by auto
  from vsum_append [OF this] show ?thesis using assms(1) len by (simp add: vadd_assoc)
qed

lemma round_values:
  assumes "0 < n" and "node_fresh vadd vsub n tid thr a A" and "node_fresh vadd vsub n tid thr b B" and "a \<noteq> b"
    and "LA \<noteq> []" and "LB \<noteq> []"
    and "\<forall>x \<in> set (LA @ LB). length (snd x) = n \<and> key_fits (fst x)"
    and "fits n (length LA + length LB) 2"
  shows "\<exists>A' B'. ring_round junk thr tid LA LB (A, B) = Inr (A', B') \<and>
    (\<forall>k. node_val n tid k A' = vapp vadd n (node_val n tid k A) (vsum vadd n (deltas_for k (LA @ LB))) \<and>
         node_val n tid k B' = vapp vadd n (node_val n tid k B) (vsum vadd n (deltas_for k (LA @ LB))))"
proof -
  obtain A' B' where r: "ring_round junk thr tid LA LB (A, B) = Inr (A', B')"
    "\<forall>k. node_val n tid k A' = vapp vadd n (vapp vadd n (node_val n tid k A) (vsum vadd n (deltas_for k LA))) (vsum vadd n (deltas_for k LB))"
    "\<forall>k. node_val n tid k B' = vapp vadd n (vapp vadd n (node_val n tid k B) (vsum vadd n (deltas_for k LB))) (vsum vadd n (deltas_for k LA))"
    using round_ok [OF assms] by blast
  have len: "length (node_val n tid k A) = n" "length (node_val n tid k B) = n" for k
    using assms(2,3) by (auto simp: node_fresh_def node_val_length)
  have l: "\<forall>x \<in> set (LA @ LB). length (snd x) = n" "\<forall>x \<in> set (LB @ LA). length (snd x) = n" using assms(7) by auto
  have "vsum vadd n (deltas_for k (LB @ LA)) = vsum vadd n (deltas_for k (LA @ LB))" for k
    by (rule vsum_perm) (use deltas_for_length [OF l(2), of k] in auto)
  then show ?thesis
    using r vapp_two_sums [OF len(1) l(1)] vapp_two_sums [OF len(2) l(2)] by (intro exI [of _ A'] exI [of _ B']) simp
qed

lemma second_round:
  assumes "0 < n" and "node_fresh vadd vsub n tid thr a A" and "node_fresh vadd vsub n tid thr b B" and "a \<noteq> b"
    and "LA \<noteq> []" and "LB \<noteq> []" and "LC \<noteq> []"
    and "\<forall>x \<in> set (LA @ LB @ LC). length (snd x) = n \<and> key_fits (fst x)"
    and "fits n (length LA + length LB + length LC) 2"
  shows "\<exists>A' B'. bindR (ring_round junk thr tid LA LB (A, B)) (\<lambda>(A, B).
      bindR (app_incs junk thr tid LC A) (\<lambda>A. send_on junk (A, B))) = Inr (A', B') \<and>
    (\<forall>k. node_val n tid k A' = vapp vadd n (node_val n tid k A) (vsum vadd n (deltas_for k ((LA @ LB) @ LC))) \<and>
         node_val n tid k B' = vapp vadd n (node_val n tid k B) (vsum vadd n (deltas_for k ((LB @ LA) @ (LB @ LC)))))"
proof -
  have lens: "\<forall>x \<in> set (LA @ LB). length (snd x) = n \<and> key_fits (fst x)" "\<forall>x \<in> set LC. length (snd x) = n \<and> key_fits (fst x)"
    using assms(8) by auto
  have f: "fits n (length LA + length LB) 2" by (rule fits_mono [OF assms(9)]) simp_all
  obtain A1 B1 where r: "ring_round junk thr tid LA LB (A, B) = Inr (A1, B1)"
    "node_ready vadd vsub n tid thr a A1" "node_ready vadd vsub n tid thr b B1"
    and v1: "\<forall>k. node_val n tid k A1 = vapp vadd n (vapp vadd n (node_val n tid k A) (vsum vadd n (deltas_for k LA))) (vsum vadd n (deltas_for k LB))"
    "\<forall>k. node_val n tid k B1 = vapp vadd n (vapp vadd n (node_val n tid k B) (vsum vadd n (deltas_for k LB))) (vsum vadd n (deltas_for k LA))"
    and sA: "sums vadd n (store_at tid (nd_t A1)) LB" "set (um_keys (store_at tid (nd_t A1))) \<subseteq> fst ` set (LA @ LB)"
    "own_at tid (nd_t A1) = []" "peers_at tid (nd_t A1) = []"
    "range_at tid (nd_t A1) = \<lparr>ur_st = of_nat (length LA), ur_end = of_nat (length LA) - 1\<rparr>"
    and sB: "sums vadd n (store_at tid (nd_t B1)) []"
    "peers_at tid (nd_t B1) = [(a, \<lparr>ur_st = of_nat (length LA), ur_end = of_nat (length LA) - 1\<rparr>)]"
    using round_ok [OF assms(1-6) lens(1) f, of junk] by blast
  have bnd: "length LA + length LC < 2147483648"
  proof -
    have "length LA + length LB + length LC \<le> (8 + n) * (length LA + length LB + length LC)" by simp
    then show ?thesis using assms(9) unfolding fits_def by linarith
  qed
  have fc: "fits n (length (LA @ LB) + length LC) 1" by (rule fits_mono [OF assms(9)]) simp_all
  obtain A2 A3 d b1 x j where A3: "app_incs junk thr tid LC A1 = Inr A2" "timer_fires junk 1 A2 = Inr (A3, [WUpdateBuffer tid d])"
    and x: "ub_rep x b1" "ub_image b1 = Inr d" "a_usize x = n" "sums vadd n (a_upds x) (LB @ LC)"
    "a_ranges x = (a, of_nat (length LA), of_nat (length LA + length LC) - 1) # free_slots j"
    and vA: "\<forall>k. node_val n tid k A3 = vapp vadd n (node_val n tid k A1) (vsum vadd n (deltas_for k LC))"
    using app_send_ok [OF assms(1) r(2) assms(7) lens(2) sA(1,2,3,5) bnd sA(4) fc, of junk] by blast
  let ?r = "(a, of_nat (length LA), of_nat (length LA + length LC) - 1) :: i32 \<times> i64 \<times> i64"
  have xr: "a_ranges x = [?r] @ free_slots j" using x(5) by simp
  have pos: "\<not> a <s 0" using r(2) by (simp add: node_ready_def prop_ready_def)
  obtain B2 where B2: "msg_arrives junk (WUpdateBuffer tid d) B1 = Inr B2"
    and vB: "\<forall>k. node_val n tid k B2 = vapp vadd n (node_val n tid k B1) (vsum vadd n (deltas_for k (LB @ LC)))"
    using arrives_foreign [OF r(3) x(1-4) xr _ _ _ _ _ sB(1), of junk] pos assms(4) sB(2)
    by (auto simp: contiguous_def)
  have "bindR (ring_round junk thr tid LA LB (A, B)) (\<lambda>(A, B).
      bindR (app_incs junk thr tid LC A) (\<lambda>A. send_on junk (A, B))) = Inr (A3, B2)"
    using A3 B2 by (simp add: r(1) send_on_def)
  moreover have len: "length (node_val n tid k A) = n" "length (node_val n tid k B) = n" for k
    using assms(2,3) by (auto simp: node_fresh_def node_val_length)
  have l: "\<forall>x \<in> set (LA @ LB). length (snd x) = n" "\<forall>x \<in> set (LB @ LA). length (snd x) = n"
    "\<forall>x \<in> set ((LA @ LB) @ LC). length (snd x) = n" "\<forall>x \<in> set ((LB @ LA) @ (LB @ LC)). length (snd x) = n"
    using assms(8) by auto
  have "node_val n tid k A3 = vapp vadd n (node_val n tid k A) (vsum vadd n (deltas_for k ((LA @ LB) @ LC)))" for k
    unfolding vapp_two_sums [OF len(1) l(3), symmetric] vapp_two_sums [OF len(1) l(1), symmetric] using vA v1(1) by simp
  moreover have "node_val n tid k B2 = vapp vadd n (node_val n tid k B) (vsum vadd n (deltas_for k ((LB @ LA) @ (LB @ LC))))" for k
    unfolding vapp_two_sums [OF len(2) l(4), symmetric] vapp_two_sums [OF len(2) l(2), symmetric] using vB v1(2) by simp
  ultimately show ?thesis by blast
qed

end

text \<open>
  C1: two nodes in a ring. Both applications increment a table, the first node sends its batch to the
  second, and the second node sends the merged batch back. Then every key of both tables has gained
  exactly the deltas of both applications: the first node's own updates, which come back to it, are
  not counted again.
\<close>

theorem ring_round_agrees:
  assumes "value_algebra vadd vsub n" and "0 < n"
    and "node_fresh vadd vsub n tid thr a A" and "node_fresh vadd vsub n tid thr b B" and "a \<noteq> b"
    and "LA \<noteq> []" and "LB \<noteq> []"
    and "\<forall>x \<in> set (LA @ LB). length (snd x) = n \<and> key_fits (fst x)"
    and "fits n (length LA + length LB) 2"
  shows "\<exists>A' B'. ring_round junk thr tid LA LB (A, B) = Inr (A', B') \<and>
    (\<forall>k. node_val n tid k A' = vapp vadd n (node_val n tid k A) (vsum vadd n (deltas_for k (LA @ LB))) \<and>
         node_val n tid k B' = vapp vadd n (node_val n tid k B) (vsum vadd n (deltas_for k (LA @ LB))))"
  by (rule value_algebra.round_values [OF assms])

definition sample_ring_node :: "i32 \<Rightarrow> node" where
  "sample_ring_node me =
     \<lparr>nd_p = (sample_prop 100 True)\<lparr>p_state := P_RUN, p_update_push_sock := {3},
        p_thrinfo := (p_thrinfo (sample_prop 100 True))\<lparr>pt_my_id := me\<rparr>\<rparr>,
      nd_t = prop_thr_init (sample_prop 100 True), nd_r = sample_recv me 1, nd_u = recv_thr_init,
      nd_heap = [5 \<mapsto> sample_table]\<rparr>"

lemma sample_ring_fresh:
  assumes "\<not> me <s 0"
  shows "node_fresh IntAdd IntSub 4 5 3 me (sample_ring_node me)"
proof -
  have "prop_ready IntAdd 4 5 3 me (nd_p (sample_ring_node me))"
    using assms by (simp add: prop_ready_def sample_ring_node_def sample_simps registered_def table_loop_def)
  moreover have "table_ready_at IntAdd IntSub 4 5 sample_table"
    using sample_recv_simps by (simp add: table_ready_at_def sample_table_def InternalTable_ctor_def)
  ultimately show ?thesis
    by (simp add: node_fresh_def node_ready_def sample_ring_node_def sample_recv_simps only_table_def at_defs um_at_def
        queue_at_def recv_thr_init_def sample_simps)
qed

lemma sample_ring_val: "node_val 4 5 k (sample_ring_node me) = vzero 4"
  by (simp add: node_val_def sample_ring_node_def stored_def sample_recv_simps)

theorem ring_round_agrees_witness:
  "\<exists>A' B'. ring_round (\<lambda>_. 0) 3 5 [(7, [2, 0, 0, 0])] [(7, [3, 0, 0, 0])] (sample_ring_node 1, sample_ring_node 2) = Inr (A', B') \<and>
     node_val 4 5 7 A' = [5, 0, 0, 0] \<and> node_val 4 5 7 B' = [5, 0, 0, 0]"
proof -
  have sum: "vapp IntAdd 4 (vzero 4) (vsum IntAdd 4 [[2, 0, 0, 0], [3, 0, 0, 0]]) = [5, 0, 0, 0]" by code_simp
  have f: "node_fresh IntAdd IntSub 4 5 3 1 (sample_ring_node 1)" "node_fresh IntAdd IntSub 4 5 3 2 (sample_ring_node 2)"
    by (rule sample_ring_fresh; simp add: word_sless_alt)+
  from ring_round_agrees [OF int_value.value_algebra_axioms _ f, of "[(7, [2, 0, 0, 0])]" "[(7, [3, 0, 0, 0])]" "\<lambda>_. 0"]
  obtain A' B' where "ring_round (\<lambda>_. 0) 3 5 [(7, [2, 0, 0, 0])] [(7, [3, 0, 0, 0])] (sample_ring_node 1, sample_ring_node 2) = Inr (A', B')"
    "\<forall>k. node_val 4 5 k A' = vapp IntAdd 4 (node_val 4 5 k (sample_ring_node 1)) (vsum IntAdd 4 (deltas_for k ([(7, [2, 0, 0, 0])] @ [(7, [3, 0, 0, 0])]))) \<and>
         node_val 4 5 k B' = vapp IntAdd 4 (node_val 4 5 k (sample_ring_node 2)) (vsum IntAdd 4 (deltas_for k ([(7, [2, 0, 0, 0])] @ [(7, [3, 0, 0, 0])])))"
    by (auto simp: key_fits_def fits_def)
  then show ?thesis by (intro exI [of _ A'] exI [of _ B']) (simp add: sample_ring_val sum)
qed

text \<open>
  C35: after this round the first node increments and sends again. The batch still holds the updates of the
  second node, but not the range that would mark them, because deleting the first node's range in front of
  it has hidden it from the iteration. The second node counts its own updates a second time, and the
  tables differ.
\<close>

theorem ring_second_round_counts_twice:
  assumes "value_algebra vadd vsub n" and "0 < n"
    and "node_fresh vadd vsub n tid thr a A" and "node_fresh vadd vsub n tid thr b B" and "a \<noteq> b"
    and "LA \<noteq> []" and "LB \<noteq> []" and "LC \<noteq> []"
    and "\<forall>x \<in> set (LA @ LB @ LC). length (snd x) = n \<and> key_fits (fst x)"
    and "fits n (length LA + length LB + length LC) 2"
  shows "\<exists>A' B'. bindR (ring_round junk thr tid LA LB (A, B)) (\<lambda>(A, B).
      bindR (app_incs junk thr tid LC A) (\<lambda>A. send_on junk (A, B))) = Inr (A', B') \<and>
    (\<forall>k. node_val n tid k A' = vapp vadd n (node_val n tid k A) (vsum vadd n (deltas_for k ((LA @ LB) @ LC))) \<and>
         node_val n tid k B' = vapp vadd n (node_val n tid k B) (vsum vadd n (deltas_for k ((LB @ LA) @ (LB @ LC)))))"
  by (rule value_algebra.second_round [OF assms])

theorem ring_second_round_counts_twice_witness:
  "\<exists>A' B'. bindR (ring_round (\<lambda>_. 0) 3 5 [(7, [2, 0, 0, 0])] [(7, [3, 0, 0, 0])] (sample_ring_node 1, sample_ring_node 2)) (\<lambda>(A, B).
       bindR (app_incs (\<lambda>_. 0) 3 5 [(7, [1, 0, 0, 0])] A) (\<lambda>A. send_on (\<lambda>_. 0) (A, B))) = Inr (A', B') \<and>
     node_val 4 5 7 A' = [6, 0, 0, 0] \<and> node_val 4 5 7 B' = [9, 0, 0, 0]"
proof -
  have sum: "vapp IntAdd 4 (vzero 4) (vsum IntAdd 4 [[2, 0, 0, 0], [3, 0, 0, 0], [1, 0, 0, 0]]) = [6, 0, 0, 0]"
    "vapp IntAdd 4 (vzero 4) (vsum IntAdd 4 [[3, 0, 0, 0], [2, 0, 0, 0], [3, 0, 0, 0], [1, 0, 0, 0]]) = [9, 0, 0, 0]" by code_simp+
  have f: "node_fresh IntAdd IntSub 4 5 3 1 (sample_ring_node 1)" "node_fresh IntAdd IntSub 4 5 3 2 (sample_ring_node 2)"
    by (rule sample_ring_fresh; simp add: word_sless_alt)+
  let ?A = "[(7, [2, 0, 0, 0])] :: (i64 \<times> bytes) list" and ?B = "[(7, [3, 0, 0, 0])] :: (i64 \<times> bytes) list"
    and ?C = "[(7, [1, 0, 0, 0])] :: (i64 \<times> bytes) list"
  have "\<exists>A' B'. bindR (ring_round (\<lambda>_. 0) 3 5 ?A ?B (sample_ring_node 1, sample_ring_node 2)) (\<lambda>(A, B).
       bindR (app_incs (\<lambda>_. 0) 3 5 ?C A) (\<lambda>A. send_on (\<lambda>_. 0) (A, B))) = Inr (A', B') \<and>
    (\<forall>k. node_val 4 5 k A' = vapp IntAdd 4 (node_val 4 5 k (sample_ring_node 1)) (vsum IntAdd 4 (deltas_for k ((?A @ ?B) @ ?C))) \<and>
         node_val 4 5 k B' = vapp IntAdd 4 (node_val 4 5 k (sample_ring_node 2)) (vsum IntAdd 4 (deltas_for k ((?B @ ?A) @ (?B @ ?C)))))"
    by (rule ring_second_round_counts_twice [OF int_value.value_algebra_axioms _ f]) (simp_all add: key_fits_def fits_def)
  then obtain A' B' where "bindR (ring_round (\<lambda>_. 0) 3 5 ?A ?B (sample_ring_node 1, sample_ring_node 2)) (\<lambda>(A, B).
       bindR (app_incs (\<lambda>_. 0) 3 5 ?C A) (\<lambda>A. send_on (\<lambda>_. 0) (A, B))) = Inr (A', B')"
    "node_val 4 5 7 A' = vapp IntAdd 4 (node_val 4 5 7 (sample_ring_node 1)) (vsum IntAdd 4 (deltas_for 7 ((?A @ ?B) @ ?C)))"
    "node_val 4 5 7 B' = vapp IntAdd 4 (node_val 4 5 7 (sample_ring_node 2)) (vsum IntAdd 4 (deltas_for 7 ((?B @ ?A) @ (?B @ ?C))))"
    by blast
  then show ?thesis by (intro exI [of _ A'] exI [of _ B']) (simp add: sample_ring_val sum)
qed

end
