(* ===== verification/Prop_Stream.thy ===== *)
theory Prop_Stream
  imports Ring
begin

text \<open>
  Runs of the propagator thread over any interleaving of logs, forwarded buffers and timer events
  of a table: nothing that comes in is lost or counted twice on its way out, and the ranges that go
  out continue each other if the ranges that come in do.
\<close>

section \<open>Balance of a store\<close>

text \<open>What was in the store and came in is what went out and is in the store.\<close>

definition balances ::
  "value_fn \<Rightarrow> nat \<Rightarrow> (i64, bytes) umap \<Rightarrow> (i64 \<times> bytes) list \<Rightarrow> (i64 \<times> bytes) list \<Rightarrow> (i64, bytes) umap \<Rightarrow> bool" where
  "balances vadd n s ins outs s' \<longleftrightarrow> (\<forall>k.
     vapp vadd n (vsum vadd n (deltas_for k outs)) (um_at (vzero n) k s') =
     vapp vadd n (um_at (vzero n) k s) (vsum vadd n (deltas_for k ins)))"

abbreviation sized :: "nat \<Rightarrow> (i64 \<times> bytes) list \<Rightarrow> bool" where
  "sized n us \<equiv> \<forall>u \<in> set us. length (snd u) = n"

lemma values_ok_sized: "values_ok n us \<Longrightarrow> sized n us"
  by (simp add: values_ok_def)

context value_algebra
begin

lemma vsum_deltas_length [simp]: "sized n us \<Longrightarrow> length (vsum vadd n (deltas_for k us)) = n"
  by (intro vsum_length deltas_for_length)

lemma vsum_deltas_append:
  "sized n us \<Longrightarrow> sized n us' \<Longrightarrow> vsum vadd n (deltas_for k (us @ us')) =
     vapp vadd n (vsum vadd n (deltas_for k us)) (vsum vadd n (deltas_for k us'))"
  unfolding deltas_for_append
  by (rule vsum_append, unfold set_append ball_Un) (blast dest: deltas_for_length)

lemma vadd_vzero: "length v = n \<Longrightarrow> vapp vadd n v (vzero n) = v"
  using vadd_zero [of v] vadd_commute [of v "vzero n"] by simp

lemma vsum_Nil [simp]: "vsum vadd n [] = vzero n"
  by (simp add: vsum_def)

lemma balances_refl: "values_ok n s \<Longrightarrow> balances vadd n s [] [] s"
  by (simp add: balances_def vadd_zero vadd_vzero values_ok_at)

lemma balances_trans:
  assumes "balances vadd n s ins outs s1" and "balances vadd n s1 ins' outs' s2"
    and "values_ok n s" "values_ok n s1" "values_ok n s2"
    and "sized n ins" "sized n outs" "sized n ins'" "sized n outs'"
  shows "balances vadd n s (ins @ ins') (outs @ outs') s2"
proof -
  note lens = values_ok_at [OF assms(3)] values_ok_at [OF assms(4)] values_ok_at [OF assms(5)] assms(6-9)
  have "vapp vadd n (vsum vadd n (deltas_for k (outs @ outs'))) (um_at (vzero n) k s2) =
      vapp vadd n (um_at (vzero n) k s) (vsum vadd n (deltas_for k (ins @ ins')))" for k
  proof -
    have b1: "vapp vadd n (vsum vadd n (deltas_for k outs)) (um_at (vzero n) k s1) =
        vapp vadd n (um_at (vzero n) k s) (vsum vadd n (deltas_for k ins))"
      and b2: "vapp vadd n (vsum vadd n (deltas_for k outs')) (um_at (vzero n) k s2) =
        vapp vadd n (um_at (vzero n) k s1) (vsum vadd n (deltas_for k ins'))"
      using assms(1,2) by (simp_all only: balances_def)
    have "vapp vadd n (vsum vadd n (deltas_for k (outs @ outs'))) (um_at (vzero n) k s2) =
        vapp vadd n (vsum vadd n (deltas_for k outs)) (vapp vadd n (um_at (vzero n) k s1) (vsum vadd n (deltas_for k ins')))"
      unfolding vsum_deltas_append [OF assms(7,9)] b2 [symmetric] using lens by (intro vadd_assoc) simp_all
    also have "\<dots> = vapp vadd n (vapp vadd n (um_at (vzero n) k s) (vsum vadd n (deltas_for k ins))) (vsum vadd n (deltas_for k ins'))"
      unfolding b1 [symmetric] using lens by (intro vadd_assoc [symmetric]) simp_all
    also have "\<dots> = vapp vadd n (um_at (vzero n) k s) (vsum vadd n (deltas_for k (ins @ ins')))"
      unfolding vsum_deltas_append [OF assms(6,8)] using lens by (intro vadd_assoc) simp_all
    finally show ?thesis .
  qed
  then show ?thesis by (simp add: balances_def)
qed

lemma balances_add:
  assumes "values_ok n s" and "sized n us"
    and "\<forall>k. um_find k s' = (if deltas_for k us = [] then um_find k s
       else Some (vapp vadd n (um_at (vzero n) k s) (vsum vadd n (deltas_for k us))))"
  shows "balances vadd n s us [] s'"
proof -
  have "um_at (vzero n) k s' = vapp vadd n (um_at (vzero n) k s) (vsum vadd n (deltas_for k us))" for k
    using spec [OF assms(3), of k] vadd_vzero [OF values_ok_at [OF assms(1)], of k]
    by (cases "deltas_for k us = []") (simp_all add: um_at_def)
  then show ?thesis
    using values_ok_at [OF assms(1)] assms(2) by (simp add: balances_def vadd_zero vadd_length)
qed

lemma balances_flush: "values_ok n s \<Longrightarrow> balances vadd n s [] s []"
  by (simp add: balances_def vsum_deltas um_at_def [of _ _ "[]"])

end

section \<open>Streams of ranges\<close>

text \<open>The last update number known of each node, and how a buffer's ranges move it.\<close>

type_synonym ends = "i32 \<Rightarrow> i64 option"

definition known_ends :: "(i32, UpdateRange) umap \<Rightarrow> ends" where
  "known_ends peers m = map_option ur_end (um_find m peers)"

definition follows :: "ends \<Rightarrow> i32 \<times> i64 \<times> i64 \<Rightarrow> bool" where
  "follows E = (\<lambda>(m, st, en). case E m of None \<Rightarrow> True | Some e \<Rightarrow> e + 1 = st)"

definition move_ends :: "(i32 \<times> i64 \<times> i64) list \<Rightarrow> ends \<Rightarrow> ends" where
  "move_ends rs E = E ++ map_of (map (\<lambda>(m, st, en). (m, en)) rs)"

text \<open>The ranges of a sequence of buffers continue each other.\<close>

fun stream_ok :: "ends \<Rightarrow> (i32 \<times> i64 \<times> i64) list list \<Rightarrow> bool" where
  "stream_ok E [] = True"
| "stream_ok E (rs # rss) \<longleftrightarrow>
     distinct (map fst rs) \<and> (\<forall>r \<in> set rs. follows E r) \<and> stream_ok (move_ends rs E) rss"

lemma stream_ok_append:
  "stream_ok E (rss @ rss') \<longleftrightarrow> stream_ok E rss \<and> stream_ok (fold move_ends rss E) rss'"
  by (induction rss arbitrary: E) auto

lemma contiguous_follows: "contiguous peers r = follows (known_ends peers) r"
  by (cases r) (auto simp: contiguous_def follows_def known_ends_def split: option.split)

lemma move_ends_apply:
  "distinct (map fst rs) \<Longrightarrow> (m, st, en) \<in> set rs \<Longrightarrow> move_ends rs E m = Some en"
  "m \<notin> fst ` set rs \<Longrightarrow> move_ends rs E m = E m"
proof -
  have "map_of (map (\<lambda>(m, st, en). (m, en)) rs) m = (case map_of rs m of None \<Rightarrow> None | Some r \<Rightarrow> Some (snd r))" for m
    by (induction rs) auto
  then show "distinct (map fst rs) \<Longrightarrow> (m, st, en) \<in> set rs \<Longrightarrow> move_ends rs E m = Some en"
    "m \<notin> fst ` set rs \<Longrightarrow> move_ends rs E m = E m"
    by (auto simp: move_ends_def map_add_def split: option.split dest: map_of_is_SomeI)
       (metis map_of_SomeD image_eqI fst_conv)
qed

lemma merge_ranges_known:
  assumes "distinct (map fst rs)" and "\<forall>r \<in> set rs. follows (known_ends peers) r" and "foldR merge_range rs peers = Inr peers'"
  shows "known_ends peers' = move_ends rs (known_ends peers)"
proof
  fix m
  note mk = merge_ranges_ok [OF assms(1), of peers] assms(2,3)
  show "known_ends peers' m = move_ends rs (known_ends peers) m"
  proof (cases "m \<in> fst ` set rs")
    case True
    then obtain st en where r: "(m, st, en) \<in> set rs" by auto
    then have "um_find m peers' = Some (merged_range peers (m, st, en))" using mk by (fastforce simp: contiguous_follows)
    then have "known_ends peers' m = Some en" by (simp add: known_ends_def merged_range_def split: option.split)
    with move_ends_apply(1) [OF assms(1) r] show ?thesis by simp
  next
    case False
    then show ?thesis using mk move_ends_apply(2) by (simp add: known_ends_def contiguous_follows)
  qed
qed

section \<open>The traffic of a table\<close>

text \<open>What reaches the thread: a log of the application, a buffer of the paired receiver, the timer.\<close>

datatype traffic = Logged "i64 \<times> bytes" | Forwarded UpdateBuffer | Fires

fun traffic_event :: "i32 \<Rightarrow> traffic \<Rightarrow> prop_event" where
  "traffic_event tid (Logged u) = log_event tid u"
| "traffic_event tid (Forwarded b) = PUpdate (MUpdateBuffer \<lparr>pub_table_id = tid, pub_update_buffer_ptr = b\<rparr>)"
| "traffic_event tid Fires = PTimer ETimerTrigger [EMyUpdatesACK]"

definition read_updates :: "UpdateBuffer \<Rightarrow> (i64 \<times> bytes) list" where
  "read_updates b = (case buffer_updates b of Inl e \<Rightarrow> [] | Inr us \<Rightarrow> us)"

definition read_ranges :: "UpdateBuffer \<Rightarrow> (i32 \<times> i64 \<times> i64) list" where
  "read_ranges b = (case buffer_ranges b of Inl e \<Rightarrow> [] | Inr rs \<Rightarrow> rs)"

fun logged_in :: "traffic list \<Rightarrow> (i64 \<times> bytes) list" where
  "logged_in [] = []"
| "logged_in (Logged u # es) = u # logged_in es"
| "logged_in (_ # es) = logged_in es"

fun came_in :: "traffic list \<Rightarrow> (i64 \<times> bytes) list" where
  "came_in [] = []"
| "came_in (Logged u # es) = u # came_in es"
| "came_in (Forwarded b # es) = read_updates b @ came_in es"
| "came_in (Fires # es) = came_in es"

fun buffers_in :: "traffic list \<Rightarrow> UpdateBuffer list" where
  "buffers_in [] = []"
| "buffers_in (Forwarded b # es) = b # buffers_in es"
| "buffers_in (_ # es) = buffers_in es"

text \<open>
  The buffers of the table that went downstream, as the other side reads them, and those handed over.
  \<open>sent_whole\<close>: only buffers of the table were sent, each as the bytes of its block.
\<close>

definition decode :: "bytes \<Rightarrow> UpdateBuffer list" where
  "decode data = (case cast_UpdateBuffer data of Inl e \<Rightarrow> [] | Inr b \<Rightarrow> [b])"

definition buffers_out :: "i32 \<Rightarrow> prop_act list \<Rightarrow> UpdateBuffer list" where
  "buffers_out tid acts = concat (map (decode \<circ> snd) (filter (\<lambda>x. fst x = tid) (sent_buffers acts)))"

definition sent_whole :: "i32 \<Rightarrow> prop_act list \<Rightarrow> bool" where
  "sent_whole tid acts \<longleftrightarrow> (\<forall>(i, data) \<in> set (sent_buffers acts). i = tid \<and>
     (\<exists>b. cast_UpdateBuffer data = Inr b \<and> ub_image b = Inr data))"

definition buffers_own :: "i32 \<Rightarrow> prop_act list \<Rightarrow> UpdateBuffer list" where
  "buffers_own tid acts = map snd (filter (\<lambda>x. fst x = tid) (handed_over acts))"

abbreviation all_updates :: "UpdateBuffer list \<Rightarrow> (i64 \<times> bytes) list" where
  "all_updates bs \<equiv> concat (map read_updates bs)"

lemma traffic_append [simp]:
  "logged_in (es @ es') = logged_in es @ logged_in es'"
  "came_in (es @ es') = came_in es @ came_in es'"
  "buffers_in (es @ es') = buffers_in es @ buffers_in es'"
  by (induction es rule: came_in.induct) simp_all

lemma buffers_simps [simp]:
  "buffers_out tid [] = []" "buffers_own tid [] = []"
  "buffers_out tid (xs @ ys) = buffers_out tid xs @ buffers_out tid ys"
  "buffers_own tid (xs @ ys) = buffers_own tid xs @ buffers_own tid ys"
  "sent_whole tid []" "sent_whole tid (xs @ ys) \<longleftrightarrow> sent_whole tid xs \<and> sent_whole tid ys"
  by (simp_all add: buffers_out_def buffers_own_def sent_whole_def ball_Un)

text \<open>A well-formed buffer of values of \<open>n\<close> bytes with keys of \<open>K\<close> and ranges of nodes of \<open>I\<close>.\<close>

definition buf_ok :: "nat \<Rightarrow> i64 set \<Rightarrow> i32 set \<Rightarrow> UpdateBuffer \<Rightarrow> bool" where
  "buf_ok n K I b \<longleftrightarrow> (\<exists>a. ub_rep a b \<and> a_usize a = n) \<and>
     fst ` set (read_updates b) \<subseteq> K \<and> fst ` set (read_ranges b) \<subseteq> I"

text \<open>A buffer as the thread makes it: every key once, the ranges in the first slots, the other slots free.\<close>

definition wire_ok :: "nat \<Rightarrow> i64 set \<Rightarrow> i32 set \<Rightarrow> UpdateBuffer \<Rightarrow> bool" where
  "wire_ok n K I b \<longleftrightarrow> buf_ok n K I b \<and>
     (\<exists>a j. ub_rep a b \<and> a_usize a = n \<and> distinct (map fst (a_upds a)) \<and> a_ranges a = read_ranges b @ free_slots j)"

text \<open>A buffer that says where its updates come from, with proper ranges.\<close>

definition marked :: "UpdateBuffer \<Rightarrow> bool" where
  "marked b \<longleftrightarrow> read_ranges b \<noteq> [] \<and>
     (\<forall>(m, st, en) \<in> set (read_ranges b). 0 \<le> sint st \<and> sint st \<le> sint en \<and> sint en + 1 < 9223372036854775808)"

text \<open>\<open>mk\<close>: whether the buffers that come in are known to be marked.\<close>

fun traffic_ok :: "nat \<Rightarrow> i64 set \<Rightarrow> i32 set \<Rightarrow> bool \<Rightarrow> traffic \<Rightarrow> bool" where
  "traffic_ok n K I mk (Logged u) \<longleftrightarrow> length (snd u) = n \<and> fst u \<in> K"
| "traffic_ok n K I mk (Forwarded b) \<longleftrightarrow> buf_ok n K I b \<and> (mk \<longrightarrow> marked b)"
| "traffic_ok n K I mk Fires \<longleftrightarrow> True"

lemma read_rep:
  assumes "ub_rep a b"
  shows "read_updates b = a_upds a" "buffer_ranges b = Inr (read_ranges b)" "\<forall>r \<in> set (read_ranges b). \<not> fst r <s 0"
    "sized (a_usize a) (read_updates b)"
  using assms set_takeWhileD
  by (force simp: read_updates_def read_ranges_def buffer_updates_rep [OF assms] buffer_ranges_rep [OF assms]
      ub_rep_def abuf_ok_def)+

lemma buf_ok_sized: "buf_ok n K I b \<Longrightarrow> sized n (read_updates b)"
  using read_rep(4) by (auto simp: buf_ok_def)

lemma all_sized: "\<forall>b \<in> set bs. buf_ok n K I b \<Longrightarrow> sized n (all_updates bs)"
  using buf_ok_sized by fastforce

lemma came_in_sized: "\<forall>e \<in> set es. traffic_ok n K I mk e \<Longrightarrow> sized n (came_in es)"
  by (induction es rule: came_in.induct) (auto dest: buf_ok_sized)

lemma logged_in_sized: "\<forall>e \<in> set es. traffic_ok n K I mk e \<Longrightarrow> sized n (logged_in es)"
  by (induction es rule: logged_in.induct) auto

section \<open>What the thread keeps\<close>

text \<open>The range that is sent next of a node starts behind the last one sent.\<close>

definition linked :: "i32 \<Rightarrow> ends \<Rightarrow> UpdateRange \<Rightarrow> (i32, UpdateRange) umap \<Rightarrow> bool" where
  "linked my_id E r peers \<longleftrightarrow> (\<forall>m e. E m = Some e \<longrightarrow>
     (if m = my_id then ur_st r = e + 1 else \<exists>q. um_find m peers = Some q \<and> ur_st q = e + 1))"

text \<open>The thread runs, the table is registered and a buffer can hold all keys and nodes.\<close>

definition stream_setup :: "Propagator \<Rightarrow> i32 \<Rightarrow> value_fn \<Rightarrow> nat \<Rightarrow> i64 set \<Rightarrow> i32 set \<Rightarrow> bool" where
  "stream_setup p tid vadd n K I \<longleftrightarrow> 0 < n \<and>
     p_state p = P_RUN \<and> 0 <s p_nanosec p \<and> \<not> p_ds_id p <s 0 \<and> \<not> p_my_id p <s 0 \<and> registered p tid vadd n \<and>
     finite K \<and> finite I \<and> p_my_id p \<notin> I \<and> fits n (card K) (Suc (card I))"

text \<open>What waits in the store can be sent with a range.\<close>

definition span :: "UpdateRange \<Rightarrow> bool" where
  "span r \<longleftrightarrow> 0 \<le> sint (ur_st r) \<and> sint (ur_st r) \<le> sint (ur_end r) + 1 \<and> sint (ur_end r) + 1 < 9223372036854775808"

definition marks_ok :: "UpdateRange \<Rightarrow> (i32, UpdateRange) umap \<Rightarrow> (i64, bytes) umap \<Rightarrow> bool" where
  "marks_ok r peers us \<longleftrightarrow> 0 \<le> sint (ur_st r) \<and> (\<forall>(m, q) \<in> set peers. span q) \<and>
     (us \<noteq> [] \<longrightarrow> active_range r \<or> (\<exists>(m, q) \<in> set peers. active_range q))"

definition stream_inv ::
  "Propagator \<Rightarrow> i32 \<Rightarrow> nat \<Rightarrow> i64 set \<Rightarrow> i32 set \<Rightarrow> bool \<Rightarrow> ends \<Rightarrow> prop_thr \<Rightarrow> bool" where
  "stream_inv p tid n K I mk E t \<longleftrightarrow> only_table tid t \<and>
     values_ok n (store_at tid t) \<and> set (um_keys (store_at tid t)) \<subseteq> K \<and>
     values_ok n (own_at tid t) \<and> set (um_keys (own_at tid t)) \<subseteq> K \<and>
     um_find tid (t_peers_range t) = Some (peers_at tid t) \<and> distinct (um_keys (peers_at tid t)) \<and>
     set (um_keys (peers_at tid t)) \<subseteq> I \<inter> {m. \<not> m <s 0} \<and>
     (hands_over p t tid \<longrightarrow> active_range (range_at tid t)) \<and>
     sint (ur_st (range_at tid t)) \<le> sint (ur_end (range_at tid t)) + 1 \<and>
     linked (p_my_id p) E (range_at tid t) (peers_at tid t) \<and>
     (mk \<longrightarrow> marks_ok (range_at tid t) (peers_at tid t) (store_at tid t))"

text \<open>The thread went from \<open>t\<close> to \<open>t'\<close> over \<open>es\<close> with the actions \<open>acts\<close>; \<open>E\<close> are the ends sent before.\<close>

definition moved ::
  "Propagator \<Rightarrow> i32 \<Rightarrow> value_fn \<Rightarrow> nat \<Rightarrow> i64 set \<Rightarrow> i32 set \<Rightarrow> bool \<Rightarrow> ends \<Rightarrow> prop_thr \<Rightarrow> traffic list
    \<Rightarrow> prop_thr \<Rightarrow> prop_act list \<Rightarrow> bool" where
  "moved p tid vadd n K I mk E t es t' acts \<longleftrightarrow>
     stream_inv p tid n K I mk (fold move_ends (map read_ranges (buffers_out tid acts)) E) t' \<and>
     stream_ok E (map read_ranges (buffers_out tid acts)) \<and>
     (\<forall>b \<in> set (buffers_out tid acts). wire_ok n K (insert (p_my_id p) I) b \<and> (mk \<longrightarrow> marked b)) \<and>
     sent_whole tid acts \<and> length (buffers_out tid acts) \<le> length es \<and>
     balances vadd n (store_at tid t) (came_in es) (all_updates (buffers_out tid acts)) (store_at tid t') \<and>
     sized n (all_updates (buffers_own tid acts)) \<and>
     (table_loop tid p \<longrightarrow>
        balances vadd n (own_at tid t) (logged_in es) (all_updates (buffers_own tid acts)) (own_at tid t')) \<and>
     sint (ur_end (range_at tid t')) \<le> sint (ur_end (range_at tid t)) + int (length es) \<and>
     known_ends (peers_at tid t') = fold move_ends (map read_ranges (buffers_in es)) (known_ends (peers_at tid t))"

lemma stream_invD:
  assumes "stream_inv p tid n K I mk E t"
  shows "values_ok n (store_at tid t)" "values_ok n (own_at tid t)" "only_table tid t"
    "um_find tid (t_peers_range t) = Some (peers_at tid t)"
  using assms by (simp_all add: stream_inv_def)

lemma sint_inc:
  fixes w :: i64
  assumes "sint w + 1 < 9223372036854775808"
  shows "sint (w + 1) = sint w + 1"
  using assms sint_range_size [of w] by (simp add: sint_word_add signed_take_bit_int_eq_self word_size)

lemma marks_log:
  "marks_ok r peers us \<Longrightarrow> ur_st r' = ur_st r \<Longrightarrow> active_range r' \<Longrightarrow> marks_ok r' peers us'"
  by (simp add: marks_ok_def)

lemma linked_same_start:
  assumes "linked my_id E r peers" and "ur_st r' = ur_st r"
  shows "linked my_id E r' peers"
  using assms by (simp add: linked_def)

context value_algebra
begin

lemma moved_Nil: "stream_inv p tid n K I mk E t \<Longrightarrow> moved p tid vadd n K I mk E t [] t []"
  using balances_refl [OF stream_invD(1)] balances_refl [OF stream_invD(2)] by (simp add: moved_def)

lemma moved_trans:
  assumes "moved p tid vadd n K I mk E t es t1 acts"
    and "moved p tid vadd n K I mk (fold move_ends (map read_ranges (buffers_out tid acts)) E) t1 es' t2 acts'"
    and "stream_inv p tid n K I mk E t" and "\<forall>e \<in> set (es @ es'). traffic_ok n K I mk e"
  shows "moved p tid vadd n K I mk E t (es @ es') t2 (acts @ acts')"
proof -
  note m = assms(1,2) [unfolded moved_def]
  have inv: "stream_inv p tid n K I mk (fold move_ends (map read_ranges (buffers_out tid acts)) E) t1"
    "stream_inv p tid n K I mk (fold move_ends (map read_ranges (buffers_out tid acts'))
       (fold move_ends (map read_ranges (buffers_out tid acts)) E)) t2" using m by blast+
  note vals = stream_invD(1,2) [OF assms(3)] stream_invD(1,2) [OF inv(1)] stream_invD(1,2) [OF inv(2)]
  have ok: "\<forall>e \<in> set es. traffic_ok n K I mk e" "\<forall>e \<in> set es'. traffic_ok n K I mk e" using assms(4) by auto
  have outs: "sized n (all_updates (buffers_out tid acts))" "sized n (all_updates (buffers_out tid acts'))"
    using m all_sized unfolding wire_ok_def by blast+
  have "balances vadd n (store_at tid t) (came_in es @ came_in es')
      (all_updates (buffers_out tid acts) @ all_updates (buffers_out tid acts')) (store_at tid t2)"
    using m by (intro balances_trans [OF _ _ vals(1,3,5) came_in_sized [OF ok(1)] outs(1) came_in_sized [OF ok(2)] outs(2)]) blast+
  moreover have "balances vadd n (own_at tid t) (logged_in es @ logged_in es')
      (all_updates (buffers_own tid acts) @ all_updates (buffers_own tid acts')) (own_at tid t2)" if "table_loop tid p"
    using m that by (intro balances_trans [OF _ _ vals(2,4,6) logged_in_sized [OF ok(1)] _ logged_in_sized [OF ok(2)]]) blast+
  ultimately show ?thesis
    using m unfolding moved_def by (simp add: stream_ok_append ball_Un)
qed

lemma moved_log:
  assumes "stream_setup p tid vadd n K I" and "stream_inv p tid n K I mk E t" and "traffic_ok n K I mk (Logged u)"
    and "sint (ur_end (range_at tid t)) + 1 < 9223372036854775808"
  shows "\<exists>t' acts. prop_handle zs junk (traffic_event tid (Logged u)) p t = Inr (p, t', acts) \<and>
    moved p tid vadd n K I mk E t [Logged u] t' acts"
proof -
  obtain k d where u: "u = (k, d)" by (cases u)
  note s = assms(1) [unfolded stream_setup_def] and v = stream_invD [OF assms(2)] and i = assms(2) [unfolded stream_inv_def]
  have log: "sized n [u]" "length d = n" "k \<in> K" using assms(3) u by simp_all
  obtain t' where t': "prop_handle zs junk (log_event tid (k, d)) p t = Inr (p, t', [])"
    and a: "AddUpdate k d (of_nat n) vadd (store_at tid t) = Inr (store_at tid t')"
    and o: "if table_loop tid p then AddUpdate k d (of_nat n) vadd (own_at tid t) = Inr (own_at tid t')
       else own_at tid t' = own_at tid t"
    and r: "range_at tid t' = (range_at tid t)\<lparr>ur_end := ur_end (range_at tid t) + 1\<rparr>"
    and q: "t_peers_range t' = t_peers_range t" "t_update_store t' = um_put tid (store_at tid t') (t_update_store t)"
    using handle_update_log_ok [of p tid t d zs junk k] s v(1,2) log(2) by blast
  have add: "values_ok n us' \<and> set (um_keys us') \<subseteq> K \<and> balances vadd n us [u] [] us'"
    if "AddUpdate k d (of_nat n) vadd us = Inr us'" "values_ok n us" "set (um_keys us) \<subseteq> K" for us us'
  proof -
    have f: "foldR (\<lambda>(k, d). AddUpdate k d (of_nat n) vadd) [u] us = Inr us'" using that(1) by (simp add: u)
    then show ?thesis
      using add_all_sums [OF that(2) log(1)] keys_log [OF that(2) log(1) f] that(3) log(3)
        balances_add [OF that(2) log(1), of us'] by (auto simp: u)
  qed
  have pe: "peers_at tid t' = peers_at tid t" using q(1) by (simp add: peers_at_def)
  have inc: "sint (ur_end (range_at tid t')) = sint (ur_end (range_at tid t)) + 1" using sint_inc [OF assms(4)] r by simp
  have act: "active_range (range_at tid t')" using inc i r by (simp add: active_range_def word_sle_eq)
  have own: "values_ok n (own_at tid t') \<and> set (um_keys (own_at tid t')) \<subseteq> K"
    using o add [of "own_at tid t"] i by (cases "table_loop tid p") auto
  have "stream_inv p tid n K I mk E t'"
    unfolding stream_inv_def pe
    using i add [OF a] own act inc q linked_same_start [of "p_my_id p" E "range_at tid t" "peers_at tid t" "range_at tid t'"] r
      only_table_put [OF v(3) q(2)] marks_log [of "range_at tid t" "peers_at tid t" "store_at tid t" "range_at tid t'" "store_at tid t'"]
    by (simp add: stream_inv_def)
  moreover have "table_loop tid p \<longrightarrow> balances vadd n (own_at tid t) [u] [] (own_at tid t')"
    using o add [of "own_at tid t" "own_at tid t'"] i by simp
  ultimately have "moved p tid vadd n K I mk E t [Logged u] t' []"
    using add [OF a] i inc pe by (simp add: moved_def)
  with t' show ?thesis by (auto simp: u)
qed

end

subsection \<open>A forwarded buffer\<close>

lemma merge_ranges_distinct:
  "foldR merge_range rs peers = Inr peers' \<Longrightarrow> distinct (um_keys peers) \<Longrightarrow> distinct (um_keys peers')"
  by (induction rs arbitrary: peers) (auto simp: merge_range_eq split: if_split_asm)

lemma merge_ranges_peers:
  assumes "distinct (map fst rs)" and "\<forall>r \<in> set rs. follows (known_ends peers) r" and "foldR merge_range rs peers = Inr peers'"
  shows "set (um_keys peers') \<subseteq> set (um_keys peers) \<union> fst ` set rs"
    and "linked my_id E r peers \<Longrightarrow> my_id \<notin> fst ` set rs \<Longrightarrow> linked my_id E r peers'"
proof -
  have m: "um_find k peers' = (if k \<in> fst ` set rs then um_find k peers' else um_find k peers)"
    "(k, st, en) \<in> set rs \<Longrightarrow> um_find k peers' = Some (merged_range peers (k, st, en))" for k st en
    using merge_ranges_ok [OF assms(1), of peers] assms(2,3) by (fastforce simp: contiguous_follows)+
  show "set (um_keys peers') \<subseteq> set (um_keys peers) \<union> fst ` set rs"
  proof
    fix k assume "k \<in> set (um_keys peers')"
    then show "k \<in> set (um_keys peers) \<union> fst ` set rs" using m(1) [of k] unfolding in_keys Un_iff by (auto split: if_split_asm)
  qed
  have keep: "\<exists>q'. um_find k peers' = Some q' \<and> ur_st q' = ur_st q" if "um_find k peers = Some q" for k q
  proof (cases "k \<in> fst ` set rs")
    case True
    then obtain st en where "(k, st, en) \<in> set rs" by auto
    from m(2) [OF this] that show ?thesis by (simp add: merged_range_def)
  qed (use m(1) [of k] that in simp)
  show "linked my_id E r peers \<Longrightarrow> my_id \<notin> fst ` set rs \<Longrightarrow> linked my_id E r peers'"
    unfolding linked_def using keep by (metis (no_types, lifting))
qed

lemma merged_range_span:
  assumes "\<forall>(m, q) \<in> set peers. span q" and "follows (known_ends peers) (m, st, en)"
    and "0 \<le> sint st" and "sint st \<le> sint en" and "sint en + 1 < 9223372036854775808"
  shows "span (merged_range peers (m, st, en)) \<and> active_range (merged_range peers (m, st, en))"
proof (cases "um_find m peers")
  case None
  with assms(3-5) show ?thesis by (simp add: merged_range_def span_def active_range_def word_sle_eq)
next
  case (Some q)
  have q: "span q" using assms(1) map_of_SomeD [OF Some] by auto
  moreover have "sint st = sint (ur_end q) + 1"
    using assms(2) Some q sint_inc [of "ur_end q"] by (auto simp: follows_def known_ends_def span_def)
  ultimately show ?thesis using assms(4,5) Some by (simp add: merged_range_def span_def active_range_def word_sle_eq)
qed

lemma marks_merge:
  assumes "marks_ok r peers us" and "marked b" and "distinct (map fst (read_ranges b))"
    and "\<forall>x \<in> set (read_ranges b). follows (known_ends peers) x"
    and "foldR merge_range (read_ranges b) peers = Inr peers'" and "distinct (um_keys peers')"
  shows "marks_ok r peers' us'"
proof -
  let ?rs = "read_ranges b"
  have m: "k \<notin> fst ` set ?rs \<Longrightarrow> um_find k peers' = um_find k peers"
    "(k, st, en) \<in> set ?rs \<Longrightarrow> um_find k peers' = Some (merged_range peers (k, st, en))" for k st en
    using merge_ranges_ok [OF assms(3), of peers] assms(4,5) by (fastforce simp: contiguous_follows)+
  have sp: "\<forall>(m, q) \<in> set peers. span q" using assms(1) by (simp add: marks_ok_def)
  have new: "span (merged_range peers x) \<and> active_range (merged_range peers x)" if "x \<in> set ?rs" for x
  proof -
    obtain m st en where x: "x = (m, st, en)" by (cases x)
    have "0 \<le> sint st" "sint st \<le> sint en" "sint en + 1 < 9223372036854775808"
      using that assms(2) unfolding x marked_def by blast+
    with that assms(4) show ?thesis unfolding x by (intro merged_range_span [OF sp]) blast+
  qed
  have "span q" if "(k, q) \<in> set peers'" for k q
  proof -
    have q: "um_find k peers' = Some q" using that assms(6) by (rule map_of_is_SomeI [rotated])
    show ?thesis
    proof (cases "k \<in> fst ` set ?rs")
      case True
      then obtain st en where "(k, st, en) \<in> set ?rs" by auto
      with m(2) q new show ?thesis by fastforce
    next
      case False
      then have "(k, q) \<in> set peers" using m(1) q map_of_SomeD by fastforce
      with sp show ?thesis by auto
    qed
  qed
  moreover obtain k st en where x: "(k, st, en) \<in> set ?rs" using assms(2) by (cases ?rs) (auto simp: marked_def)
  have "(k, merged_range peers (k, st, en)) \<in> set peers'" using m(2) [OF x] by (rule map_of_SomeD)
  ultimately show ?thesis using assms(1) new [OF x] unfolding marks_ok_def by auto
qed

context value_algebra
begin

lemma moved_forward:
  assumes "stream_setup p tid vadd n K I" and "stream_inv p tid n K I mk E t" and "traffic_ok n K I mk (Forwarded b)"
    and "stream_ok (known_ends (peers_at tid t)) [read_ranges b]"
  shows "\<exists>t' acts. prop_handle zs junk (traffic_event tid (Forwarded b)) p t = Inr (p, t', acts) \<and>
    moved p tid vadd n K I mk E t [Forwarded b] t' acts"
proof -
  note s = assms(1) [unfolded stream_setup_def] and v = stream_invD [OF assms(2)] and i = assms(2) [unfolded stream_inv_def]
  obtain a where a: "ub_rep a b" "a_usize a = n" and b: "fst ` set (read_updates b) \<subseteq> K" "fst ` set (read_ranges b) \<subseteq> I"
    using assms(3) by (auto simp: buf_ok_def)
  note rb = read_rep [OF a(1), unfolded a(2)]
  have rs: "distinct (map fst (read_ranges b))" "\<forall>r \<in> set (read_ranges b). follows (known_ends (peers_at tid t)) r"
    using assms(4) by simp_all
  then have co: "\<forall>r \<in> set (read_ranges b). contiguous (peers_at tid t) r" by (simp add: contiguous_follows)
  have run: "p_state p = P_RUN" "registered p tid vadd n" using s by simp_all
  obtain t' where t': "prop_handle zs junk (PUpdate (MUpdateBuffer \<lparr>pub_table_id = tid, pub_update_buffer_ptr = b\<rparr>)) p t = Inr (p, t', [])"
    and st: "\<forall>k. um_find k (store_at tid t') =
       (if deltas_for k (a_upds a) = [] then um_find k (store_at tid t)
        else Some (vapp vadd n (um_at (vzero n) k (store_at tid t)) (vsum vadd n (deltas_for k (a_upds a)))))"
    and pe: "foldR merge_range (read_ranges b) (peers_at tid t) = Inr (peers_at tid t')"
    and re: "values_ok n (store_at tid t')" "t_my_store t' = t_my_store t" "t_my_range t' = t_my_range t"
      "only_table tid t'" "\<exists>peers'. um_find tid (t_peers_range t') = Some peers'"
    using merge_forwarded [OF value_algebra_axioms run v(4) a v(1) rb(2) rs(1) co, of zs junk] v(3) by blast
  have same: "own_at tid t' = own_at tid t" "range_at tid t' = range_at tid t" "hands_over p t' tid = hands_over p t tid"
    using re(2,3) by (simp_all add: at_defs hands_over_def)
  have me: "p_my_id p \<notin> fst ` set (read_ranges b)" using s b(2) by auto
  note peers = merge_ranges_peers [OF rs pe]
  have ids: "set (um_keys (peers_at tid t')) \<subseteq> I \<inter> {m. \<not> m <s 0}"
  proof -
    have "fst ` set (read_ranges b) \<subseteq> I \<inter> {m. \<not> m <s 0}" using b(2) rb(3) by auto
    moreover have "set (um_keys (peers_at tid t)) \<subseteq> I \<inter> {m. \<not> m <s 0}" using i by blast
    ultimately show ?thesis using peers(1) by blast
  qed
  have keys: "set (um_keys (store_at tid t')) \<subseteq> K"
    using keys_add [OF st] b(1) [unfolded rb(1)] i by blast
  have find: "um_find tid (t_peers_range t') = Some (peers_at tid t')" using re(5) by (auto simp: peers_at_def um_at_def)
  have inv: "stream_inv p tid n K I mk E t'"
    unfolding stream_inv_def same
    using i re(1,4) find ids keys merge_ranges_distinct [OF pe] peers(2) [OF _ me, of E "range_at tid t"]
      marks_merge [OF _ _ rs pe, of "range_at tid t" "store_at tid t" "store_at tid t'"] assms(3) by auto
  have bal: "balances vadd n (store_at tid t) (read_updates b) [] (store_at tid t')"
    using balances_add [OF v(1) rb(4)] st rb(1) by simp
  have "moved p tid vadd n K I mk E t [Forwarded b] t' []"
    using inv bal balances_refl [OF v(2)] same merge_ranges_known [OF rs pe] by (simp add: moved_def)
  with t' show ?thesis by auto
qed

end

subsection \<open>The timer\<close>

lemma keys_card: "distinct (um_keys us) \<Longrightarrow> set (um_keys us) \<subseteq> K \<Longrightarrow> finite K \<Longrightarrow> length us \<le> card K"
  by (metis card_mono distinct_card length_map)

lemma sent_mem:
  "(m, st, en) \<in> set (active_ranges peers @ own_range my_id r) \<longleftrightarrow>
     (\<exists>q. (m, q) \<in> set peers \<and> active_range q \<and> st = ur_st q \<and> en = ur_end q) \<or>
     (m = my_id \<and> active_range r \<and> st = ur_st r \<and> en = ur_end r)"
  by (force simp: active_ranges_def own_range_def)

text \<open>What is sent continues what was sent before, and what is sent next will continue it.\<close>

lemma linked_sent:
  assumes "linked my_id E r peers" and "ids_ok my_id peers" and "sint (ur_st r) \<le> sint (ur_end r) + 1"
    and "sint (ur_end r) + 1 < 9223372036854775808"
  defines "rs \<equiv> active_ranges peers @ own_range my_id r"
  shows "stream_ok E [rs]"
    and "linked my_id (move_ends rs E) (r\<lparr>ur_st := ur_end r + 1\<rparr>) (map (\<lambda>(nid, r). (nid, flush_range r)) peers)"
proof -
  have dp: "distinct (um_keys peers)" and me: "my_id \<notin> set (um_keys peers)" using assms(2) by (auto simp: ids_ok_def)
  have mem: "(m, st, en) \<in> set rs \<longleftrightarrow> (\<exists>q. (m, q) \<in> set peers \<and> active_range q \<and> st = ur_st q \<and> en = ur_end q) \<or>
      (m = my_id \<and> active_range r \<and> st = ur_st r \<and> en = ur_end r)" for m st en
    unfolding rs_def by (rule sent_mem)
  have fst_active: "map fst (active_ranges peers) = map fst (filter (\<lambda>(nid, r). active_range r) peers)"
    by (auto simp: active_ranges_def)
  have dis: "distinct (map fst rs)"
    using dp me distinct_map_filter [OF dp] active_ranges_ids [of _ peers]
    unfolding rs_def map_append distinct_append fst_active by (auto simp: own_range_def)
  have peer: "um_find m peers = Some q \<and> m \<noteq> my_id" if "(m, q) \<in> set peers" for m q
    using that dp me by (force intro: map_of_is_SomeI)
  have "e + 1 = st" if "(m, st, en) \<in> set rs" and "E m = Some e" for m st en e
  proof -
    have "if m = my_id then ur_st r = e + 1 else \<exists>q. um_find m peers = Some q \<and> ur_st q = e + 1"
      using assms(1) that(2) by (simp add: linked_def)
    with that(1) peer [of m] show ?thesis unfolding mem by (auto split: if_split_asm)
  qed
  then have fol: "follows E x" if "x \<in> set rs" for x
    using that by (cases x) (auto simp: follows_def split: option.split)
  show "stream_ok E [rs]" using dis fol by simp
  have idle: "ur_end r + 1 = ur_st r" if "\<not> active_range r"
    using that assms(3) sint_inc [OF assms(4)] by (simp add: active_range_def word_sle_eq sint_inj_iff [symmetric])
  have find: "(\<exists>q. um_find m (map (\<lambda>(nid, r). (nid, flush_range r)) peers) = Some q \<and> P q) \<longleftrightarrow>
      (\<exists>q. um_find m peers = Some q \<and> P (flush_range q))" for m P
    by (induction peers) auto
  show "linked my_id (move_ends rs E) (r\<lparr>ur_st := ur_end r + 1\<rparr>) (map (\<lambda>(nid, r). (nid, flush_range r)) peers)"
    unfolding linked_def find
  proof (intro allI impI)
    fix m e assume e: "move_ends rs E m = Some e"
    show "if m = my_id then ur_st (r\<lparr>ur_st := ur_end r + 1\<rparr>) = e + 1
       else \<exists>q. um_find m peers = Some q \<and> ur_st (flush_range q) = e + 1"
    proof (cases "m \<in> fst ` set rs")
      case True
      then obtain st en where r: "(m, st, en) \<in> set rs" by auto
      with e move_ends_apply(1) [OF dis r] have "en = e" by simp
      with r peer [of m] show ?thesis unfolding mem by (auto simp: flush_range_def)
    next
      case False
      then have no: "(m, st, en) \<notin> set rs" for st en by force
      have "E m = Some e" using e move_ends_apply(2) [OF False] by simp
      with assms(1) have "if m = my_id then ur_st r = e + 1 else \<exists>q. um_find m peers = Some q \<and> ur_st q = e + 1"
        by (simp add: linked_def)
      moreover have "\<not> active_range q" if "um_find m peers = Some q" for q
        using no [of "ur_st q" "ur_end q"] map_of_SomeD [OF that] unfolding mem by blast
      moreover have "\<not> active_range r" if "m = my_id" using no that unfolding mem by blast
      ultimately show ?thesis using idle by (auto simp: flush_range_def split: if_split_asm)
    qed
  qed
qed


lemma marks_flush:
  assumes "marks_ok r peers us" and "sint (ur_st r) \<le> sint (ur_end r) + 1" and "sint (ur_end r) + 1 < 9223372036854775808"
  shows "marks_ok (r\<lparr>ur_st := ur_end r + 1\<rparr>) (map (\<lambda>(nid, r). (nid, flush_range r)) peers) []"
proof -
  have "span (flush_range q)" if "span q" for q
    using that sint_inc [of "ur_end q"] by (auto simp: span_def flush_range_def)
  then show ?thesis using assms sint_inc [OF assms(3)] by (fastforce simp: marks_ok_def)
qed

lemma marked_sent:
  assumes "marks_ok r peers us" and "us \<noteq> []" and "read_ranges b = active_ranges peers @ own_range my_id r"
    and "sint (ur_end r) + 1 < 9223372036854775808"
  shows "marked b"
proof -
  have mem: "(m, st, en) \<in> set (read_ranges b) \<longleftrightarrow> (\<exists>q. (m, q) \<in> set peers \<and> active_range q \<and> st = ur_st q \<and> en = ur_end q) \<or>
      (m = my_id \<and> active_range r \<and> st = ur_st r \<and> en = ur_end r)" for m st en
    unfolding assms(3) by (rule sent_mem)
  have "\<exists>x. x \<in> set (read_ranges b)" using assms(1,2) mem unfolding marks_ok_def by blast
  then have "read_ranges b \<noteq> []" by auto
  moreover have "0 \<le> sint st \<and> sint st \<le> sint en \<and> sint en + 1 < 9223372036854775808" if "(m, st, en) \<in> set (read_ranges b)" for m st en
    using that assms(1,4) unfolding mem by (auto simp: marks_ok_def span_def active_range_def word_sle_eq)
  ultimately show ?thesis by (auto simp: marked_def)
qed

lemma known_flush: "known_ends (map (\<lambda>(nid, r). (nid, flush_range r)) peers) = known_ends peers"
  by (rule ext, induction peers) (auto simp: known_ends_def flush_range_def)

lemma flush_nothing: "\<forall>(k, us) \<in> set es. us = [] \<Longrightarrow> foldR (flush_table zs junk p) es s = Inr s"
  by (induction es arbitrary: s) (auto simp: flush_table_def)

lemma store_found: "store_at tid t \<noteq> [] \<Longrightarrow> um_find tid (t_update_store t) = Some (store_at tid t)"
  by (auto simp: store_at_def um_at_def split: option.split_asm)

lemma only_table_empty: "only_table tid t \<Longrightarrow> store_at tid t = [] \<Longrightarrow> \<forall>(k, us) \<in> set (t_update_store t). us = []"
  using map_of_is_SomeI [of "t_update_store t" tid]
  by (fastforce simp: only_table_def store_at_def um_at_def)

context value_algebra
begin

lemma stream_ready:
  assumes "stream_setup p tid vadd n K I" and "stream_inv p tid n K I mk E t"
  shows "table_ready p t tid (store_at tid t)"
proof -
  note s = assms(1) [unfolded stream_setup_def] and v = stream_invD [OF assms(2)] and i = assms(2) [unfolded stream_inv_def]
  let ?us = "store_at tid t" and ?own = "own_at tid t" and ?peers = "peers_at tid t"
  have size: "table_update_size tid p = of_nat n" using s by (auto simp: registered_def table_update_size_def)
  have ids: "ids_ok (p_my_id p) ?peers" using s i by (auto simp: ids_ok_def)
  have "length ?us \<le> card K" "length ?own \<le> card K" "length ?peers \<le> card I"
    using s i by (auto intro!: keys_card simp: values_ok_def)
  then have fit: "fits n (length ?us) (Suc (length ?peers))" "fits n (length ?own) 1"
    using s by (auto intro: fits_mono)
  show ?thesis
    unfolding table_ready_def using size ids fit i values_ok_sized [OF v(1)] values_ok_sized [OF v(2)] by blast
qed

lemma fires_sends:
  assumes "stream_setup p tid vadd n K I" and "stream_inv p tid n K I mk E t" and "store_at tid t \<noteq> []"
  shows "\<exists>t' acts b. prop_handle zmq_ok junk (traffic_event tid Fires) p t = Inr (p, t', acts) \<and>
    flushed p t tid t' \<and> buffers_out tid acts = [b] \<and> sent_whole tid acts \<and> wire_ok n K (insert (p_my_id p) I) b \<and>
    read_updates b = store_at tid t \<and>
    read_ranges b = active_ranges (peers_at tid t) @ own_range (p_my_id p) (range_at tid t) \<and>
    all_updates (buffers_own tid acts) = (if hands_over p t tid then own_at tid t else [])"
proof -
  note s = assms(1) [unfolded stream_setup_def] and v = stream_invD [OF assms(2)] and i = assms(2) [unfolded stream_inv_def]
  let ?us = "store_at tid t" and ?own = "own_at tid t" and ?r = "range_at tid t" and ?peers = "peers_at tid t"
  let ?acks = "if hands_over p t tid then [] else [EMyUpdatesACK]"
  have ready: "table_ready p t tid ?us" by (rule stream_ready [OF assms(1,2)])
  define acts where "acts mb data = [ToTimer (timer_cmd p)] @ (if hands_over p t tid
      then [ToReceiver (MMyUpdates \<lparr>mu_table_id = tid, mu_update_buffer_ptr = mb\<rparr>)] else []) @
      [ToDownstream (WUpdateBuffer tid data)]" for mb data
  have ack: "if hands_over p t tid then [EMyUpdatesACK] = EMyUpdatesACK # ?acks else ?acks = [EMyUpdatesACK]" by simp
  have ds: "\<not> p_ds_id p <s 0" and run: "p_state p = P_RUN" using s by simp_all
  obtain mb b data t' a j where
    fl: "flush_table zmq_ok junk p (tid, ?us) (t, [EMyUpdatesACK], [ToTimer (timer_cmd p)]) = Inr (t', ?acks, acts mb data)"
    and own: "hands_over p t tid \<longrightarrow> (\<exists>am. ub_rep am mb \<and> a_upds am = ?own)"
    and im: "ub_image b = Inr data" and b: "cast_UpdateBuffer data = Inr b" "ub_rep a b" "a_upds a = ?us" "buffer_ranges b = Inr (sent_ranges p t tid)"
      "a_ranges a = sent_ranges p t tid @ free_slots j"
    and t': "flushed p t tid t'"
    using flush_table_ok [OF ready assms(3) ds ack, of junk "[ToTimer (timer_cmd p)]"]
    unfolding acts_def [symmetric] by blast
  have h: "prop_handle zmq_ok junk (traffic_event tid Fires) p t = Inr (p, t', acts mb data)"
    using flush_only [OF store_found [OF assms(3)], of zmq_ok junk p "(t, [EMyUpdatesACK], [ToTimer (timer_cmd p)])"] v(3) fl run
    by (simp add: handle_timer_def only_table_def)
  have bs: "buffers_out tid (acts mb data) = [b]"
    "buffers_own tid (acts mb data) = (if hands_over p t tid then [mb] else [])"
    using b(1) by (simp_all add: acts_def buffers_out_def buffers_own_def decode_def)
  have whole: "sent_whole tid (acts mb data)" using b(1) im by (simp add: acts_def sent_whole_def)
  have rd: "read_updates b = ?us" "read_ranges b = active_ranges ?peers @ own_range (p_my_id p) ?r"
    using read_rep(1) [OF b(2)] b(3,4) by (simp_all add: read_ranges_def sent_ranges_def)
  have "fst ` set (active_ranges ?peers) \<subseteq> set (um_keys ?peers)" using active_ranges_ids by blast
  moreover have "set (um_keys ?peers) \<subseteq> I" using i by blast
  ultimately have "fst ` set (active_ranges ?peers @ own_range (p_my_id p) ?r) \<subseteq> insert (p_my_id p) I"
    by (auto simp: own_range_def)
  moreover have us: "a_usize a = n" by (rule rep_usize [OF b(2,3) assms(3) v(1)])
  ultimately have "buf_ok n K (insert (p_my_id p) I) b" using b(2) i rd unfolding buf_ok_def by auto
  moreover have "distinct (map fst (a_upds a))" "a_ranges a = read_ranges b @ free_slots j"
    using v(1) b(3,5) rd(2) by (simp_all add: values_ok_def sent_ranges_def)
  ultimately have "wire_ok n K (insert (p_my_id p) I) b" using b(2) us unfolding wire_ok_def by blast
  moreover have "all_updates (buffers_own tid (acts mb data)) = (if hands_over p t tid then ?own else [])"
    using own read_rep(1) by (auto simp: bs)
  ultimately show ?thesis using h t' bs(1) whole rd by blast
qed

lemma fires_empty:
  assumes "stream_setup p tid vadd n K I" and "stream_inv p tid n K I mk E t" and "store_at tid t = []"
  shows "prop_handle zmq_ok junk (traffic_event tid Fires) p t = Inr (p, t, [ToTimer (timer_cmd p)]) \<and>
    moved p tid vadd n K I mk E t [Fires] t [ToTimer (timer_cmd p)]"
proof -
  have "p_state p = P_RUN" using assms(1) by (simp add: stream_setup_def)
  then have "prop_handle zmq_ok junk (traffic_event tid Fires) p t = Inr (p, t, [ToTimer (timer_cmd p)])"
    using flush_nothing [OF only_table_empty [OF stream_invD(3) [OF assms(2)] assms(3)]] by (simp add: handle_timer_def)
  moreover have "moved p tid vadd n K I mk E t [Fires] t [ToTimer (timer_cmd p)]"
    using moved_Nil [OF assms(2)] by (simp add: moved_def buffers_out_def buffers_own_def sent_whole_def)
  ultimately show ?thesis by blast
qed

lemma moved_fires:
  assumes "stream_setup p tid vadd n K I" and "stream_inv p tid n K I mk E t"
    and "sint (ur_end (range_at tid t)) + 1 < 9223372036854775808"
  shows "\<exists>t' acts. prop_handle zmq_ok junk (traffic_event tid Fires) p t = Inr (p, t', acts) \<and>
    moved p tid vadd n K I mk E t [Fires] t' acts \<and> store_at tid t' = []"
proof (cases "store_at tid t = []")
  case True
  then show ?thesis using fires_empty [OF assms(1,2)] by blast
next
  case False
  note s = assms(1) [unfolded stream_setup_def] and v = stream_invD [OF assms(2)] and i = assms(2) [unfolded stream_inv_def]
  let ?us = "store_at tid t" and ?own = "own_at tid t" and ?r = "range_at tid t" and ?peers = "peers_at tid t"
  obtain t' acts b where h: "prop_handle zmq_ok junk (traffic_event tid Fires) p t = Inr (p, t', acts)"
    and t': "flushed p t tid t'" and b: "buffers_out tid acts = [b]" "wire_ok n K (insert (p_my_id p) I) b"
    and whole: "sent_whole tid acts"
    and rd: "read_updates b = ?us" "read_ranges b = active_ranges ?peers @ own_range (p_my_id p) ?r"
    and own: "all_updates (buffers_own tid acts) = (if hands_over p t tid then ?own else [])"
    using fires_sends [OF assms(1,2) False, of junk] by blast
  have ids: "ids_ok (p_my_id p) ?peers" using s i by (auto simp: ids_ok_def)
  note sent = linked_sent [OF _ ids, of E ?r] i assms(3)
  have at: "store_at tid t' = []" "own_at tid t' = (if hands_over p t tid then [] else ?own)"
    "range_at tid t' = ?r\<lparr>ur_st := ur_end ?r + 1\<rparr>" "only_table tid t'"
    using t' only_table_put [OF v(3)] by (simp_all add: flushed_def store_at_def)
  have pe: "peers_at tid t' = map (\<lambda>(nid, r). (nid, flush_range r)) ?peers" using flushed_peers [OF t'] by simp
  have ho: "\<not> hands_over p t' tid" using at(2) by (simp add: hands_over_def)
  have keys: "um_keys (peers_at tid t') = um_keys ?peers" by (simp add: pe comp_def case_prod_unfold)
  have inv: "stream_inv p tid n K I mk (move_ends (read_ranges b) E) t'"
    unfolding stream_inv_def keys rd(2)
    using i at ho sent sint_inc [OF assms(3)] t' marks_flush [OF _ _ assms(3), of ?peers ?us] by (auto simp: pe flushed_def)
  have bo: "balances vadd n ?own [] (all_updates (buffers_own tid acts)) (own_at tid t')" if "table_loop tid p"
    using that balances_flush [OF v(2)] balances_refl [OF v(2)] unfolding own by (auto simp: at(2) hands_over_def)
  have so: "sized n (all_updates (buffers_own tid acts))" using values_ok_sized [OF v(2)] unfolding own by auto
  have "moved p tid vadd n K I mk E t [Fires] t' acts"
    unfolding moved_def b(1) using inv b(2) whole marked_sent [OF _ False rd(2) assms(3)] sent balances_flush [OF v(1)] bo so known_flush [of ?peers] at rd
    by (simp add: pe)
  with h at(1) show ?thesis by blast
qed

text \<open>A run over any traffic that is well-formed.\<close>

lemma stream_run:
  assumes "stream_setup p tid vadd n K I"
  shows "stream_inv p tid n K I mk E t \<Longrightarrow> \<forall>e \<in> set es. traffic_ok n K I mk e \<Longrightarrow>
    stream_ok (known_ends (peers_at tid t)) (map read_ranges (buffers_in es)) \<Longrightarrow>
    sint (ur_end (range_at tid t)) + int (length es) < 9223372036854775808 \<Longrightarrow>
    \<exists>t' acts. prop_run zmq_ok junk (map (traffic_event tid) es) p t = Inr (p, t', acts) \<and>
      moved p tid vadd n K I mk E t es t' acts \<and> (es \<noteq> [] \<and> last es = Fires \<longrightarrow> store_at tid t' = [])"
proof (induction es arbitrary: E t)
  case Nil
  then show ?case using moved_Nil by auto
next
  case (Cons e es)
  have room: "sint (ur_end (range_at tid t)) + 1 < 9223372036854775808" using Cons.prems(4) by simp
  have "\<exists>t1 acts. prop_handle zmq_ok junk (traffic_event tid e) p t = Inr (p, t1, acts) \<and>
      moved p tid vadd n K I mk E t [e] t1 acts \<and> (e = Fires \<longrightarrow> store_at tid t1 = [])"
  proof (cases e)
    case (Logged u)
    then show ?thesis using moved_log [OF assms Cons.prems(1) _ room] Cons.prems(2) by simp
  next
    case (Forwarded b)
    then show ?thesis using moved_forward [OF assms Cons.prems(1)] Cons.prems(2,3) by simp
  next
    case Fires
    then show ?thesis using moved_fires [OF assms Cons.prems(1) room] by blast
  qed
  then obtain t1 acts where h: "prop_handle zmq_ok junk (traffic_event tid e) p t = Inr (p, t1, acts)"
    and m: "moved p tid vadd n K I mk E t [e] t1 acts" and last: "e = Fires \<longrightarrow> store_at tid t1 = []" by blast
  let ?E = "fold move_ends (map read_ranges (buffers_out tid acts)) E"
  have inv: "stream_inv p tid n K I mk ?E t1" and r: "sint (ur_end (range_at tid t1)) \<le> sint (ur_end (range_at tid t)) + 1"
    and kn: "known_ends (peers_at tid t1) = fold move_ends (map read_ranges (buffers_in [e])) (known_ends (peers_at tid t))"
    using m by (simp_all add: moved_def)
  have str: "stream_ok (known_ends (peers_at tid t1)) (map read_ranges (buffers_in es))"
    using Cons.prems(3) unfolding kn by (cases e) simp_all
  have ok: "\<forall>e \<in> set es. traffic_ok n K I mk e" "\<forall>x \<in> set ([e] @ es). traffic_ok n K I mk x" using Cons.prems(2) by simp_all
  obtain t' acts' where run: "prop_run zmq_ok junk (map (traffic_event tid) es) p t1 = Inr (p, t', acts')"
    and m': "moved p tid vadd n K I mk ?E t1 es t' acts'" and last': "es \<noteq> [] \<and> last es = Fires \<longrightarrow> store_at tid t' = []"
    using Cons.IH [OF inv ok(1) str] r Cons.prems(4) by auto
  have "p_state p = P_RUN" using assms by (simp add: stream_setup_def)
  then have "prop_run zmq_ok junk (map (traffic_event tid) (e # es)) p t = Inr (p, t', acts @ acts')"
    using h run by (simp del: prop_handle.simps)
  moreover have "moved p tid vadd n K I mk E t (e # es) t' (acts @ acts')"
    using moved_trans [OF m m' Cons.prems(1) ok(2)] by simp
  moreover have "store_at tid t' = []" if "last (e # es) = Fires"
    using that last last' run by (cases "es = []") auto
  ultimately show ?case by blast
qed

end

section \<open>The thread from its start\<close>

lemma init_at:
  assumes "registered p tid vadd n"
  shows "store_at tid (prop_thr_init p) = []" "own_at tid (prop_thr_init p) = []"
    "range_at tid (prop_thr_init p) = empty_range" "um_find tid (t_peers_range (prop_thr_init p)) = Some []"
    "peers_at tid (prop_thr_init p) = []"
proof -
  have "tid \<in> set (um_keys (p_table_dir p))" using assms unfolding in_keys by (auto simp: registered_def)
  with find_map_keys [where k = tid and f = "\<lambda>_. [] :: (i32, UpdateRange) umap" and us = "p_table_dir p"]
    find_map_keys [where k = tid and f = "\<lambda>_. empty_range" and us = "p_table_dir p"]
  show "store_at tid (prop_thr_init p) = []" "own_at tid (prop_thr_init p) = []"
    "range_at tid (prop_thr_init p) = empty_range" "um_find tid (t_peers_range (prop_thr_init p)) = Some []"
    "peers_at tid (prop_thr_init p) = []"
    by (simp_all add: at_defs prop_thr_init_def um_at_def)
qed

lemma stream_inv_init: "registered p tid vadd n \<Longrightarrow> stream_inv p tid n' K I mk Map.empty (prop_thr_init p)"
  using init_at [of p tid vadd n]
  by (simp add: stream_inv_def only_table_def hands_over_def linked_def marks_ok_def empty_range_def)
     (simp add: prop_thr_init_def)

context value_algebra
begin

lemma stream_from_start:
  assumes "stream_setup p tid vadd n K I" and "\<forall>e \<in> set es. traffic_ok n K I mk e"
    and "stream_ok Map.empty (map read_ranges (buffers_in es))" and "length es < 9223372036854775808"
  shows "\<exists>t' acts. prop_run zmq_ok junk (map (traffic_event tid) es) p (prop_thr_init p) = Inr (p, t', acts) \<and>
    moved p tid vadd n K I mk Map.empty (prop_thr_init p) es t' acts \<and>
    (es \<noteq> [] \<and> last es = Fires \<longrightarrow> store_at tid t' = [])"
proof -
  have reg: "registered p tid vadd n" using assms(1) by (simp add: stream_setup_def)
  have "known_ends [] = Map.empty" by (rule ext) (simp add: known_ends_def)
  then show ?thesis
    using assms(3,4) init_at [OF reg]
    by (intro stream_run [OF assms(1) stream_inv_init [OF reg] assms(2)]) (simp_all add: empty_range_def)
qed

lemma started_balance:
  assumes "stream_setup p tid vadd n K I" and "moved p tid vadd n K I mk E (prop_thr_init p) es t' acts"
    and "store_at tid t' = []" and "\<forall>e \<in> set es. traffic_ok n K I mk e"
  shows "vsum vadd n (deltas_for k (all_updates (buffers_out tid acts))) = vsum vadd n (deltas_for k (came_in es))"
proof -
  have reg: "registered p tid vadd n" using assms(1) by (simp add: stream_setup_def)
  have so: "sized n (all_updates (buffers_out tid acts))" using assms(2) all_sized unfolding moved_def wire_ok_def by blast
  have "balances vadd n [] (came_in es) (all_updates (buffers_out tid acts)) []"
    using assms(2) unfolding moved_def init_at [OF reg] assms(3) by blast
  then show ?thesis
    using vadd_zero [OF vsum_deltas_length [OF came_in_sized [OF assms(4)], of k]] vadd_vzero [OF vsum_deltas_length [OF so, of k]]
    by (simp add: balances_def um_at_def)
qed

end

definition sample_run :: Propagator where
  "sample_run = (sample_prop 100 True)\<lparr>p_state := P_RUN\<rparr>"

definition sample_traffic :: "UpdateBuffer \<Rightarrow> traffic list" where
  "sample_traffic b = [Logged (10, [2, 0, 0, 0]), Forwarded b, Fires]"

lemma sample_stream:
  "\<exists>b. read_updates b = [(10, [1, 0, 0, 0])] \<and> read_ranges b = [(3, 0, 5), (8, 2, 6)] \<and> marked b \<and> buf_ok 4 {10} {3, 8} b"
proof -
  obtain a b where ab: "ub_rep a b" "a_usize a = 4" "a_ranges a = [(3, 0, 5), (8, 2, 6)]"
    "a_upds a = [(10, [1, 0, 0, 0])]" using sample_ranges by blast
  have "buffer_ranges b = Inr [(3, 0, 5), (8, 2, 6)]" using ab by (simp add: buffer_ranges_rep word_sless_alt)
  then have "read_ranges b = [(3, 0, 5), (8, 2, 6)]" by (simp add: read_ranges_def)
  with ab read_rep(1) [OF ab(1)] show ?thesis
    by (intro exI [of _ b]) (auto simp: buf_ok_def marked_def)
qed

lemma sample_setup: "stream_setup sample_run 5 IntAdd 4 {10} {3, 8}"
  by (simp add: stream_setup_def sample_run_def sample_simps registered_def fits_def)

lemma sample_traffic_ok:
  assumes "buf_ok 4 {10} {3, 8} b" and "read_ranges b = [(3, 0, 5), (8, 2, 6)]"
  shows "\<forall>e \<in> set (sample_traffic b). traffic_ok 4 {10} {3, 8} False e"
    and "stream_ok Map.empty (map read_ranges (buffers_in (sample_traffic b)))" and "length (sample_traffic b) < 9223372036854775808"
  using assms by (simp_all add: sample_traffic_def follows_def)





end
