(* ===== verification/Chain.thy ===== *)
theory Chain
  imports Prop_Stream
begin

text \<open>
  A chain of nodes of any length: the propagator of each node sends to the receiver of the next. In
  every node the propagator thread reads the logs of its applications, the buffers its receiver
  passes on and the timer in any order. What leaves the chain are the increments of all nodes, and
  every table gets the increments of the nodes before it, each exactly once.
\<close>

section \<open>One node\<close>

text \<open>
  The order in which the propagator thread reads: a log, the next buffer of its receiver, the timer.
  At the end it reads the buffers that are left, and the timer fires once more.
\<close>

datatype slot = Increment "i64 \<times> bytes" | Take | Fire

fun weave :: "slot list \<Rightarrow> UpdateBuffer list \<Rightarrow> traffic list" where
  "weave [] bs = map Forwarded bs @ [Fires]"
| "weave (Increment u # ss) bs = Logged u # weave ss bs"
| "weave (Take # ss) [] = weave ss []"
| "weave (Take # ss) (b # bs) = Forwarded b # weave ss bs"
| "weave (Fire # ss) bs = Fires # weave ss bs"

fun increments :: "slot list \<Rightarrow> (i64 \<times> bytes) list" where
  "increments [] = []"
| "increments (Increment u # ss) = u # increments ss"
| "increments (_ # ss) = increments ss"

fun passed_on :: "i32 \<Rightarrow> recv_act list \<Rightarrow> UpdateBuffer list" where
  "passed_on tid [] = []"
| "passed_on tid (ToPropagator (MUpdateBuffer m) # acts) =
     (if pub_table_id m = tid then [pub_update_buffer_ptr m] else []) @ passed_on tid acts"
| "passed_on tid (_ # acts) = passed_on tid acts"

text \<open>
  The node receives the messages \<open>datas\<close>; what it sends is returned. A running receiver thread does not wait for the
  propagator thread, and the queue between them keeps its order, so it does not matter which
  of the two moves first; the schedule \<open>ss\<close> says when the propagator thread reads what it is passed.
\<close>

definition station_run :: "(nat \<Rightarrow> byte) \<Rightarrow> i32 \<Rightarrow> slot list \<Rightarrow> bytes list \<Rightarrow> node \<Rightarrow> (node \<times> bytes list) res" where
  "station_run junk tid ss datas N =
     bindR (recv_run zmq_ok (map (\<lambda>data. RWire (WUpdateBuffer tid data)) datas) (nd_r N) (nd_u N) (nd_heap N)) (\<lambda>(r, u, heap, racts).
     bindR (prop_run zmq_ok junk (map (traffic_event tid) (weave ss (passed_on tid racts))) (nd_p N) (nd_t N)) (\<lambda>(p, t, acts).
     Inr (N\<lparr>nd_p := p, nd_t := t, nd_r := r, nd_u := u, nd_heap := heap\<rparr>, map snd (sent_buffers acts))))"

fun chain_run :: "(nat \<Rightarrow> byte) \<Rightarrow> i32 \<Rightarrow> (node \<times> slot list) list \<Rightarrow> bytes list \<Rightarrow> (node list \<times> bytes list) res" where
  "chain_run junk tid [] datas = Inr ([], datas)"
| "chain_run junk tid ((N, ss) # rest) datas =
     bindR (station_run junk tid ss datas N) (\<lambda>(N, datas).
     bindR (chain_run junk tid rest datas) (\<lambda>(Ns, datas). Inr (N # Ns, datas)))"

lemma passed_on_append [simp]: "passed_on tid (xs @ ys) = passed_on tid xs @ passed_on tid ys"
  by (induction xs rule: passed_on.induct) auto

lemma weave_props:
  "buffers_in (weave ss bs) = bs" "weave ss bs \<noteq> []" "last (weave ss bs) = Fires"
  "length (weave ss bs) \<le> length ss + length bs + 1"
  "mset (came_in (weave ss bs)) = mset (increments ss @ all_updates bs)"
proof -
  have "buffers_in (map Forwarded bs) = bs" "came_in (map Forwarded bs) = all_updates bs" for bs
    by (induction bs) auto
  then have "buffers_in (weave ss bs) = bs \<and> weave ss bs \<noteq> [] \<and> last (weave ss bs) = Fires \<and>
      length (weave ss bs) \<le> length ss + length bs + 1 \<and> mset (came_in (weave ss bs)) = mset (increments ss @ all_updates bs)"
    by (induction ss bs rule: weave.induct) auto
  then show "buffers_in (weave ss bs) = bs" "weave ss bs \<noteq> []" "last (weave ss bs) = Fires"
    "length (weave ss bs) \<le> length ss + length bs + 1"
    "mset (came_in (weave ss bs)) = mset (increments ss @ all_updates bs)" by blast+
qed

lemma weave_ok:
  "\<forall>u \<in> set (increments ss). length (snd u) = n \<and> fst u \<in> K \<Longrightarrow> \<forall>b \<in> set bs. buf_ok n K I b \<and> marked b \<Longrightarrow>
     \<forall>e \<in> set (weave ss bs). traffic_ok n K I True e"
  by (induction ss bs rule: weave.induct) auto

lemma deltas_mset: "mset us = mset us' \<Longrightarrow> mset (deltas_for k us) = mset (deltas_for k us')"
  by (simp add: deltas_for_def)

section \<open>The receiver of a node\<close>

text \<open>Messages that carry the buffers \<open>bs\<close>.\<close>

definition carries :: "bytes list \<Rightarrow> UpdateBuffer list \<Rightarrow> bool" where
  "carries datas bs = list_all2 (\<lambda>data b. ub_image b = Inr data) datas bs"

definition recv_ready :: "value_fn \<Rightarrow> nat \<Rightarrow> i32 \<Rightarrow> Receiver \<Rightarrow> tables \<Rightarrow> bool" where
  "recv_ready vadd n tid r heap \<longleftrightarrow> r_state r = R_RUN \<and> um_find tid (r_table_dir r) = Some tid \<and> \<not> r_my_id r <s 0 \<and>
     (\<exists>it. heap tid = Some it \<and> table_ok vadd n it \<and> it_apply_updates it \<and> it_forward_updates it)"

text \<open>The value of a key in the table of a node.\<close>

definition heap_val :: "nat \<Rightarrow> i32 \<Rightarrow> i64 \<Rightarrow> tables \<Rightarrow> bytes" where
  "heap_val n tid k heap = (case heap tid of None \<Rightarrow> vzero n | Some it \<Rightarrow> stored n k it)"

definition same_content :: "UpdateBuffer \<Rightarrow> UpdateBuffer \<Rightarrow> bool" where
  "same_content b fb \<longleftrightarrow> read_updates fb = read_updates b \<and> read_ranges fb = read_ranges b"

lemma same_marked: "same_content b fb \<Longrightarrow> marked b \<Longrightarrow> marked fb"
  by (simp add: same_content_def marked_def)

lemma same_contents: "list_all2 same_content bs fbs \<Longrightarrow> map read_ranges fbs = map read_ranges bs \<and> all_updates fbs = all_updates bs"
  by (induction rule: list_all2_induct) (auto simp: same_content_def)

context value_algebra
begin

lemma recv_one:
  assumes "recv_ready vadd n tid r heap" and "ub_image b = Inr data" and "wire_ok n K I b" and "marked b" and "r_my_id r \<notin> I"
  shows "\<exists>heap' racts fb. recv_handle zmq_ok (RWire (WUpdateBuffer tid data)) r u heap = Inr (r, u, heap', racts) \<and>
    passed_on tid racts = [fb] \<and> same_content b fb \<and> buf_ok n K I fb \<and> marked fb \<and> recv_ready vadd n tid r heap' \<and>
    (\<forall>k. heap_val n tid k heap' = vapp vadd n (heap_val n tid k heap) (vsum vadd n (deltas_for k (read_updates b))))"
proof -
  from assms(1) obtain it where r: "r_state r = R_RUN" "um_find tid (r_table_dir r) = Some tid" "\<not> r_my_id r <s 0"
    and it: "heap tid = Some it" "table_ok vadd n it" "it_apply_updates it" "it_forward_updates it"
    by (auto simp: recv_ready_def)
  from assms(3) obtain a j where a: "ub_rep a b" "distinct (map fst (a_upds a))" "a_ranges a = read_ranges b @ free_slots j" "a_usize a = n"
    and b: "buf_ok n K I b" by (auto simp: wire_ok_def)
  note rb = read_rep [OF a(1)]
  have us: "used_ranges a = read_ranges b" using takeWhile_used_free [OF rb(3)] by (simp add: used_ranges_def a(3))
  have ne: "used_ranges a \<noteq> []" using assms(4) us by (simp add: marked_def)
  have "r_my_id r \<notin> fst ` set (read_ranges b)" using b assms(5) by (auto simp: buf_ok_def)
  then have my: "r_my_id r \<notin> fst ` set (a_ranges a)" using r(3) unfolding a(3) by auto
  obtain fb cb it' i where h: "recv_handle zmq_ok (RWire (WUpdateBuffer tid data)) r u heap =
      Inr (r, u, heap(tid \<mapsto> it'), recv_acts it tid fb cb)"
    and fb: "ub_rep (a\<lparr>a_riter := i\<rparr>) fb" and it': "table_ok vadd n it'" "it' = it\<lparr>it_storage := it_storage it'\<rparr>"
    and st: "\<forall>k. stored n k it' = vapp vadd n (stored n k it) (vsum vadd n (deltas_for k (a_upds a)))"
    using foreign_buffer_applied [where heap = heap and itable = tid and u = u,
        OF r(1,2) it(1-3) a(1) assms(2) a(4,2) ne my r(3)] by blast
  have content: "same_content b fb"
    using rb(1) read_rep(1) [OF fb] us buffer_ranges_rep [OF fb] by (simp add: same_content_def read_ranges_def used_ranges_def)
  have "buf_ok n K I fb" using b fb a(4) content by (force simp: buf_ok_def same_content_def)
  moreover have "passed_on tid (recv_acts it tid fb cb) = [fb]" using it(4) by (simp add: recv_acts_def)
  moreover have "recv_ready vadd n tid r (heap(tid \<mapsto> it'))"
  proof -
    have "it_apply_updates it'" "it_forward_updates it'" using it(3,4) by (subst it'(2), simp)+
    with r it'(1) show ?thesis by (simp add: recv_ready_def)
  qed
  moreover have "heap_val n tid k (heap(tid \<mapsto> it')) = vapp vadd n (heap_val n tid k heap) (vsum vadd n (deltas_for k (read_updates b)))" for k
    using st it(1) rb(1) by (simp add: heap_val_def)
  ultimately show ?thesis using h content same_marked [OF content assms(4)] by blast
qed

lemma recv_stream:
  assumes "recv_ready vadd n tid r heap" and "carries datas bs" and "\<forall>b \<in> set bs. wire_ok n K I b \<and> marked b" and "r_my_id r \<notin> I"
  shows "\<exists>heap' racts. recv_run zmq_ok (map (\<lambda>data. RWire (WUpdateBuffer tid data)) datas) r u heap = Inr (r, u, heap', racts) \<and>
    list_all2 same_content bs (passed_on tid racts) \<and> (\<forall>fb \<in> set (passed_on tid racts). buf_ok n K I fb \<and> marked fb) \<and>
    recv_ready vadd n tid r heap' \<and>
    (\<forall>k. heap_val n tid k heap' = vapp vadd n (heap_val n tid k heap) (vsum vadd n (deltas_for k (all_updates bs))))"
  using assms(2,1,3) unfolding carries_def
proof (induction arbitrary: heap rule: list_all2_induct)
  case Nil
  have "length (heap_val n tid k heap) = n" for k
    using Nil.prems(1) stored_length by (auto simp: recv_ready_def heap_val_def)
  with Nil.prems(1) vadd_vzero show ?case by simp
next
  case (Cons data datas b bs)
  have ok: "wire_ok n K I b" "marked b" "\<forall>b \<in> set bs. wire_ok n K I b \<and> marked b" using Cons.prems(2) by simp_all
  from recv_one [OF Cons.prems(1) Cons.hyps(1) ok(1,2) assms(4), of u] obtain heap1 racts1 fb where
    1: "recv_handle zmq_ok (RWire (WUpdateBuffer tid data)) r u heap = Inr (r, u, heap1, racts1)"
    "passed_on tid racts1 = [fb]" "same_content b fb" "buf_ok n K I fb \<and> marked fb" "recv_ready vadd n tid r heap1"
    "\<forall>k. heap_val n tid k heap1 = vapp vadd n (heap_val n tid k heap) (vsum vadd n (deltas_for k (read_updates b)))" by blast
  from Cons.IH [OF 1(5) ok(3)] obtain heap' racts where
    2: "recv_run zmq_ok (map (\<lambda>data. RWire (WUpdateBuffer tid data)) datas) r u heap1 = Inr (r, u, heap', racts)"
    "list_all2 same_content bs (passed_on tid racts)" "\<forall>fb \<in> set (passed_on tid racts). buf_ok n K I fb \<and> marked fb"
    "recv_ready vadd n tid r heap'"
    "\<forall>k. heap_val n tid k heap' = vapp vadd n (heap_val n tid k heap1) (vsum vadd n (deltas_for k (all_updates bs)))" by blast
  have run: "r_state r = R_RUN" using Cons.prems(1) by (simp add: recv_ready_def)
  have len: "length (heap_val n tid k heap) = n" for k
    using Cons.prems(1) stored_length by (auto simp: recv_ready_def heap_val_def)
  have sz: "sized n (read_updates b)" "sized n (all_updates bs)"
    using ok all_sized [of bs] buf_ok_sized [of n K I b] unfolding wire_ok_def by blast+
  have "heap_val n tid k heap' = vapp vadd n (heap_val n tid k heap) (vsum vadd n (deltas_for k (all_updates (b # bs))))" for k
    using 1(6) 2(5) vadd_assoc [OF len vsum_deltas_length [OF sz(1)] vsum_deltas_length [OF sz(2)]] vsum_deltas_append [OF sz]
    by simp
  moreover have "recv_run zmq_ok (map (\<lambda>data. RWire (WUpdateBuffer tid data)) (data # datas)) r u heap = Inr (r, u, heap', racts1 @ racts)"
    using 1(1) 2(1) run by (simp del: recv_handle.simps)
  ultimately show ?case using 1 2 by (intro exI [of _ heap'] exI [of _ "racts1 @ racts"]) auto
qed

end

section \<open>The chain\<close>

text \<open>A node whose threads have just started; the table is not sent round a ring.\<close>

definition station_ready :: "value_fn \<Rightarrow> nat \<Rightarrow> i32 \<Rightarrow> node \<Rightarrow> bool" where
  "station_ready vadd n tid N \<longleftrightarrow> nd_t N = prop_thr_init (nd_p N) \<and>
     p_state (nd_p N) = P_RUN \<and> 0 <s p_nanosec (nd_p N) \<and> \<not> p_ds_id (nd_p N) <s 0 \<and> registered (nd_p N) tid vadd n \<and>
     \<not> table_loop tid (nd_p N) \<and> r_my_id (nd_r N) = p_my_id (nd_p N) \<and> recv_ready vadd n tid (nd_r N) (nd_heap N)"

abbreviation nd_id :: "node \<Rightarrow> i32" where
  "nd_id N \<equiv> p_my_id (nd_p N)"

text \<open>The messages that reach a node: marked buffers of the nodes \<open>I\<close> that add up to the increments \<open>L\<close>.\<close>

definition arriving :: "value_fn \<Rightarrow> nat \<Rightarrow> i64 set \<Rightarrow> i32 set \<Rightarrow> (i64 \<times> bytes) list \<Rightarrow> nat \<Rightarrow> bytes list \<Rightarrow> bool" where
  "arriving vadd n K I L c datas \<longleftrightarrow> (\<exists>bs. carries datas bs \<and> bs = concat (map decode datas) \<and>
     (\<forall>b \<in> set bs. wire_ok n K I b \<and> marked b) \<and> stream_ok Map.empty (map read_ranges bs) \<and> length bs \<le> c \<and>
     (\<forall>k. vsum vadd n (deltas_for k (all_updates bs)) = vsum vadd n (deltas_for k L)))"

lemma sent_carried:
  assumes "sent_whole tid acts"
  shows "carries (map snd (sent_buffers acts)) (buffers_out tid acts)"
    and "buffers_out tid acts = concat (map decode (map snd (sent_buffers acts)))"
proof -
  have "list_all2 (\<lambda>data b. ub_image b = Inr data) (map snd xs) (concat (map (decode \<circ> snd) xs)) \<and> filter (\<lambda>x. fst x = tid) xs = xs"
    if "\<forall>(i, data) \<in> set xs. i = tid \<and> (\<exists>b. cast_UpdateBuffer data = Inr b \<and> ub_image b = Inr data)" for xs :: "(i32 \<times> bytes) list"
    using that by (induction xs) (auto simp: decode_def)
  with assms show "carries (map snd (sent_buffers acts)) (buffers_out tid acts)"
    "buffers_out tid acts = concat (map decode (map snd (sent_buffers acts)))"
    by (simp_all add: carries_def buffers_out_def sent_whole_def)
qed

context value_algebra
begin

lemma weave_sum:
  assumes "sized n (increments ss)" and "sized n (all_updates bs)"
  shows "vsum vadd n (deltas_for k (came_in (weave ss bs))) =
    vapp vadd n (vsum vadd n (deltas_for k (all_updates bs))) (vsum vadd n (deltas_for k (increments ss)))"
proof -
  have m: "mset (deltas_for k (all_updates bs @ increments ss)) = mset (deltas_for k (came_in (weave ss bs)))"
    by (rule deltas_mset) (simp add: weave_props(5))
  have "sized n (all_updates bs @ increments ss)" using assms by (simp only: set_append ball_Un simp_thms)
  then show ?thesis
    using vsum_perm [OF m deltas_for_length] vsum_deltas_append [OF assms(2,1), of k] by metis
qed

lemma woven_out:
  assumes "stream_setup p tid vadd n K I" and "\<forall>u \<in> set (increments ss). length (snd u) = n \<and> fst u \<in> K"
    and "\<forall>b \<in> set fbs. buf_ok n K I b \<and> marked b" and "sized n L"
    and "\<forall>k. vsum vadd n (deltas_for k (all_updates fbs)) = vsum vadd n (deltas_for k L)"
    and "moved p tid vadd n K I True Map.empty (prop_thr_init p) (weave ss fbs) t' acts" and "store_at tid t' = []"
    and "length (weave ss fbs) \<le> c"
  shows "arriving vadd n K (insert (p_my_id p) I) (L @ increments ss) c (map snd (sent_buffers acts))"
proof -
  have out: "\<forall>b \<in> set (buffers_out tid acts). wire_ok n K (insert (p_my_id p) I) b \<and> marked b"
    "stream_ok Map.empty (map read_ranges (buffers_out tid acts))" "sent_whole tid acts" "length (buffers_out tid acts) \<le> length (weave ss fbs)"
    using assms(6) by (simp_all add: moved_def)
  have inc: "sized n (increments ss)" using assms(2) by blast
  have fbs: "sized n (all_updates fbs)" and so: "sized n (all_updates (buffers_out tid acts))"
    using assms(3) out(1) all_sized unfolding wire_ok_def by blast+
  have "vsum vadd n (deltas_for k (all_updates (buffers_out tid acts))) = vsum vadd n (deltas_for k (L @ increments ss))" for k
  proof -
    have "vsum vadd n (deltas_for k (all_updates (buffers_out tid acts))) = vsum vadd n (deltas_for k (came_in (weave ss fbs)))"
      using started_balance [OF assms(1,6,7) weave_ok [OF assms(2,3)]] .
    also have "\<dots> = vsum vadd n (deltas_for k (L @ increments ss))"
      using weave_sum [OF inc fbs, of k] assms(5) unfolding vsum_deltas_append [OF assms(4) inc] by simp
    finally show ?thesis .
  qed
  then show ?thesis
    unfolding arriving_def using sent_carried [OF out(3)] out(1,2,4) assms(8)
    by (intro exI [of _ "buffers_out tid acts"]) auto
qed

lemma station_ok:
  assumes "0 < n" and "station_ready vadd n tid N" and "\<forall>u \<in> set (increments ss). length (snd u) = n \<and> fst u \<in> K"
    and "arriving vadd n K I L c datas" and "sized n L" and "nd_id N \<notin> I" and "finite K" and "finite I"
    and "fits n (card K) (Suc (card I))" and "c + length ss + 1 < 9223372036854775808"
  shows "\<exists>N' out. station_run junk tid ss datas N = Inr (N', out) \<and>
    arriving vadd n K (insert (nd_id N) I) (L @ increments ss) (c + length ss + 1) out \<and>
    (\<forall>k. node_val n tid k N' = vapp vadd n (node_val n tid k N) (vsum vadd n (deltas_for k L)))"
proof -
  let ?p = "nd_p N"
  note s = assms(2) [unfolded station_ready_def]
  from assms(4) obtain bs where bs: "carries datas bs" "\<forall>b \<in> set bs. wire_ok n K I b \<and> marked b"
    "stream_ok Map.empty (map read_ranges bs)" "length bs \<le> c"
    and sum: "\<forall>k. vsum vadd n (deltas_for k (all_updates bs)) = vsum vadd n (deltas_for k L)"
    by (auto simp: arriving_def)
  have rr: "recv_ready vadd n tid (nd_r N) (nd_heap N)" and my: "r_my_id (nd_r N) \<notin> I" "\<not> p_my_id ?p <s 0"
    using s assms(6) by (auto simp: recv_ready_def)
  obtain heap' racts where rv: "recv_run zmq_ok (map (\<lambda>data. RWire (WUpdateBuffer tid data)) datas) (nd_r N) (nd_u N) (nd_heap N) =
      Inr (nd_r N, nd_u N, heap', racts)"
    and same: "list_all2 same_content bs (passed_on tid racts)" and ok: "\<forall>fb \<in> set (passed_on tid racts). buf_ok n K I fb \<and> marked fb"
    and val: "\<forall>k. heap_val n tid k heap' = vapp vadd n (heap_val n tid k (nd_heap N)) (vsum vadd n (deltas_for k (all_updates bs)))"
    using recv_stream [OF rr bs(1,2) my(1), of "nd_u N"] by blast
  let ?fbs = "passed_on tid racts" and ?es = "weave ss (passed_on tid racts)"
  have eq: "map read_ranges ?fbs = map read_ranges bs" "all_updates ?fbs = all_updates bs" "length ?fbs = length bs"
    using same_contents [OF same] same by (auto dest: list_all2_lengthD)
  have cfg: "stream_setup ?p tid vadd n K I" using s assms(1,6-9) my(2) by (simp add: stream_setup_def)
  have len: "length ?es \<le> c + length ss + 1" using weave_props(4) [of ss ?fbs] eq(3) bs(4) by linarith
  obtain t' acts where pr: "prop_run zmq_ok junk (map (traffic_event tid) ?es) ?p (nd_t N) = Inr (?p, t', acts)"
    and m: "moved ?p tid vadd n K I True Map.empty (prop_thr_init ?p) ?es t' acts" and last: "store_at tid t' = []"
    using stream_from_start [OF cfg weave_ok [OF assms(3) ok], of junk] weave_props(1-3) eq(1) bs(3) len assms(10) s by auto
  have "arriving vadd n K (insert (nd_id N) I) (L @ increments ss) (c + length ss + 1) (map snd (sent_buffers acts))"
    by (rule woven_out [OF cfg assms(3) ok assms(5) _ m last len]) (simp add: eq(2) sum)
  moreover have "station_run junk tid ss datas N =
      Inr (N\<lparr>nd_p := ?p, nd_t := t', nd_r := nd_r N, nd_u := nd_u N, nd_heap := heap'\<rparr>, map snd (sent_buffers acts))"
    using rv pr by (simp add: station_run_def)
  ultimately show ?thesis using val sum by (auto simp: node_val_def heap_val_def)
qed

lemma chain_ok:
  assumes "0 < n" and "finite K"
  shows "\<forall>(N, ss) \<in> set sts. station_ready vadd n tid N \<and> (\<forall>u \<in> set (increments ss). length (snd u) = n \<and> fst u \<in> K) \<Longrightarrow>
    arriving vadd n K I L c datas \<Longrightarrow> sized n L \<Longrightarrow> distinct (map (\<lambda>st. nd_id (fst st)) sts) \<Longrightarrow> set (map (\<lambda>st. nd_id (fst st)) sts) \<inter> I = {} \<Longrightarrow>
    finite I \<Longrightarrow> fits n (card K) (card I + length sts) \<Longrightarrow> c + sum_list (map (\<lambda>(N, ss). length ss + 1) sts) < 9223372036854775808 \<Longrightarrow>
    \<exists>Ns out. chain_run junk tid sts datas = Inr (Ns, out) \<and> length Ns = length sts \<and>
      (\<forall>k. vsum vadd n (deltas_for k (all_updates (concat (map decode out)))) = vsum vadd n (deltas_for k (L @ concat (map (\<lambda>st. increments (snd st)) sts)))) \<and>
      (\<forall>i < length sts. \<forall>k. node_val n tid k (Ns ! i) =
         vapp vadd n (node_val n tid k (fst (sts ! i))) (vsum vadd n (deltas_for k (L @ concat (map (\<lambda>st. increments (snd st)) (take i sts))))))"
proof (induction sts arbitrary: I L c datas)
  case Nil
  then show ?case by (auto simp: arriving_def)
next
  case (Cons st sts)
  obtain N ss where st: "st = (N, ss)" by (cases st)
  let ?I = "insert (nd_id N) I"
  have hd: "station_ready vadd n tid N" "\<forall>u \<in> set (increments ss). length (snd u) = n \<and> fst u \<in> K" "nd_id N \<notin> I"
    "fits n (card K) (Suc (card I))" "c + length ss + 1 < 9223372036854775808"
    using Cons.prems(1,5,8) fits_mono [OF Cons.prems(7), of "card K" "Suc (card I)"] by (auto simp: st)
  obtain N' out where 1: "station_run junk tid ss datas N = Inr (N', out)"
    "arriving vadd n K ?I (L @ increments ss) (c + length ss + 1) out"
    "\<forall>k. node_val n tid k N' = vapp vadd n (node_val n tid k N) (vsum vadd n (deltas_for k L))"
    using station_ok [OF assms(1) hd(1,2) Cons.prems(2,3) hd(3) assms(2) Cons.prems(6) hd(4,5), of junk] by blast
  have "\<forall>(N, ss) \<in> set sts. station_ready vadd n tid N \<and> (\<forall>u \<in> set (increments ss). length (snd u) = n \<and> fst u \<in> K)"
    using Cons.prems(1) by simp
  moreover have "sized n (L @ increments ss)" using Cons.prems(3) hd(2) by (simp only: set_append ball_Un simp_thms) blast
  moreover have "distinct (map (\<lambda>st. nd_id (fst st)) sts)" "set (map (\<lambda>st. nd_id (fst st)) sts) \<inter> ?I = {}" using Cons.prems(4,5) by (auto simp: st comp_def)
  moreover have "finite ?I" using Cons.prems(6) by simp
  moreover have "fits n (card K) (card ?I + length sts)" using Cons.prems(6,7) hd(3) by simp
  moreover have "c + length ss + 1 + sum_list (map (\<lambda>(N, ss). length ss + 1) sts) < 9223372036854775808" using Cons.prems(8) by (simp add: st)
  ultimately obtain Ns out' where 2: "chain_run junk tid sts out = Inr (Ns, out')" "length Ns = length sts"
    "\<forall>k. vsum vadd n (deltas_for k (all_updates (concat (map decode out')))) =
       vsum vadd n (deltas_for k ((L @ increments ss) @ concat (map (\<lambda>st. increments (snd st)) sts)))"
    "\<forall>i < length sts. \<forall>k. node_val n tid k (Ns ! i) =
       vapp vadd n (node_val n tid k (fst (sts ! i))) (vsum vadd n (deltas_for k ((L @ increments ss) @ concat (map (\<lambda>st. increments (snd st)) (take i sts)))))"
    using Cons.IH [OF _ 1(2)] by blast
  have "node_val n tid k ((N' # Ns) ! i) = vapp vadd n (node_val n tid k (fst ((st # sts) ! i)))
      (vsum vadd n (deltas_for k (L @ concat (map (\<lambda>st. increments (snd st)) (take i (st # sts))))))" if "i < length (st # sts)" for i k
    using that 1(3) 2(4) by (cases i) (simp_all add: st)
  with 1(1) 2(1-3) show ?case by (intro exI [of _ "N' # Ns"] exI [of _ out']) (simp add: st)
qed

end

text \<open>
  C2: along a chain of nodes of any length, each of which sends to the next, with any increments at every node
  and any order in which the propagator threads read logs, forwarded buffers and timer events, every
  check of the code succeeds, the buffers that leave the chain add up, for every key, to exactly the
  increments of all nodes, and the receiver of every node has added to its table exactly the
  increments of the nodes before it.
\<close>

theorem chain_delivers:
  assumes "value_algebra vadd vsub n" and "0 < n" and "finite K"
    and "\<forall>(N, ss) \<in> set sts. station_ready vadd n tid N \<and> (\<forall>u \<in> set (increments ss). length (snd u) = n \<and> fst u \<in> K)"
    and "distinct (map (\<lambda>st. nd_id (fst st)) sts)" and "fits n (card K) (length sts)"
    and "sum_list (map (\<lambda>(N, ss). length ss + 1) sts) < 9223372036854775808"
  shows "\<exists>Ns out. chain_run junk tid sts [] = Inr (Ns, out) \<and> length Ns = length sts \<and>
    (\<forall>k. vsum vadd n (deltas_for k (all_updates (concat (map decode out)))) =
       vsum vadd n (deltas_for k (concat (map (\<lambda>st. increments (snd st)) sts)))) \<and>
    (\<forall>i < length sts. \<forall>k. node_val n tid k (Ns ! i) =
       vapp vadd n (node_val n tid k (fst (sts ! i))) (vsum vadd n (deltas_for k (concat (map (\<lambda>st. increments (snd st)) (take i sts))))))"
proof -
  have "arriving vadd n K {} [] 0 []" by (simp add: arriving_def carries_def)
  from value_algebra.chain_ok [OF assms(1-4) this _ assms(5)] assms(6,7) show ?thesis by simp
qed

definition sample_station :: "i32 \<Rightarrow> node" where
  "sample_station me = (sample_ring_node me)\<lparr>nd_p := (sample_prop 100 False)\<lparr>p_state := P_RUN,
     p_thrinfo := (p_thrinfo (sample_prop 100 False))\<lparr>pt_my_id := me\<rparr>\<rparr>,
     nd_t := prop_thr_init ((sample_prop 100 False)\<lparr>p_state := P_RUN,
     p_thrinfo := (p_thrinfo (sample_prop 100 False))\<lparr>pt_my_id := me\<rparr>\<rparr>)\<rparr>"

lemma sample_station_ready:
  assumes "\<not> me <s 0"
  shows "station_ready IntAdd 4 5 (sample_station me)" and "nd_id (sample_station me) = me"
    and "node_val 4 5 k (sample_station me) = vzero 4"
  using assms
  by (simp_all add: station_ready_def recv_ready_def sample_station_def sample_ring_node_def sample_simps registered_def
      table_loop_def sample_recv_simps node_val_def stored_def)

theorem chain_delivers_witness:
  "\<exists>Ns out. chain_run (\<lambda>_. 0) 5 [(sample_station 1, [Increment (7, [2, 0, 0, 0]), Fire]), (sample_station 2, [Fire, Take, Increment (7, [3, 0, 0, 0])]),
       (sample_station 3, [])] [] = Inr (Ns, out) \<and>
     vsum IntAdd 4 (deltas_for 7 (all_updates (concat (map decode out)))) = [5, 0, 0, 0] \<and>
     node_val 4 5 7 (Ns ! 1) = [2, 0, 0, 0] \<and> node_val 4 5 7 (Ns ! 2) = [5, 0, 0, 0]"
proof -
  let ?sts = "[(sample_station 1, [Increment (7, [2, 0, 0, 0]), Fire]), (sample_station 2, [Fire, Take, Increment (7, [3, 0, 0, 0])]),
       (sample_station 3, [])]"
  have ids: "\<not> 1 <s (0 :: i32)" "\<not> 2 <s (0 :: i32)" "\<not> 3 <s (0 :: i32)" by (simp_all add: word_sless_alt)
  note ready = sample_station_ready [OF ids(1)] sample_station_ready [OF ids(2)] sample_station_ready [OF ids(3)]
  have sums: "vapp IntAdd 4 (vzero 4) (vsum IntAdd 4 [[2, 0, 0, 0]]) = [2, 0, 0, 0]"
    "vapp IntAdd 4 (vzero 4) [5, 0, 0, 0] = [5, 0, 0, 0]"
    "vsum IntAdd 4 [[2, 0, 0, 0], [3, 0, 0, 0]] = [5, 0, 0, 0]" by code_simp+
  have "\<exists>Ns out. chain_run (\<lambda>_. 0) 5 ?sts [] = Inr (Ns, out) \<and> length Ns = length ?sts \<and>
    (\<forall>k. vsum IntAdd 4 (deltas_for k (all_updates (concat (map decode out)))) =
       vsum IntAdd 4 (deltas_for k (concat (map (\<lambda>st. increments (snd st)) ?sts)))) \<and>
    (\<forall>i < length ?sts. \<forall>k. node_val 4 5 k (Ns ! i) =
       vapp IntAdd 4 (node_val 4 5 k (fst (?sts ! i))) (vsum IntAdd 4 (deltas_for k (concat (map (\<lambda>st. increments (snd st)) (take i ?sts))))))"
    by (rule chain_delivers [OF int_value.value_algebra_axioms, where K = "{7}"]) (simp_all add: ready fits_def)
  then obtain Ns out where r: "chain_run (\<lambda>_. 0) 5 ?sts [] = Inr (Ns, out)"
    and o: "\<forall>k. vsum IntAdd 4 (deltas_for k (all_updates (concat (map decode out)))) =
       vsum IntAdd 4 (deltas_for k (concat (map (\<lambda>st. increments (snd st)) ?sts)))"
    and v: "\<forall>i < length ?sts. \<forall>k. node_val 4 5 k (Ns ! i) =
       vapp IntAdd 4 (node_val 4 5 k (fst (?sts ! i))) (vsum IntAdd 4 (deltas_for k (concat (map (\<lambda>st. increments (snd st)) (take i ?sts)))))"
    by (elim exE conjE)
  have "node_val 4 5 7 (Ns ! 1) = [2, 0, 0, 0]" using spec [OF v, of 1] by (simp add: ready sums)
  moreover have "node_val 4 5 7 (Ns ! 2) = [5, 0, 0, 0]" using spec [OF v, of 2] by (simp add: ready sums numeral_2_eq_2)
  moreover have "vsum IntAdd 4 (deltas_for 7 (all_updates (concat (map decode out)))) = [5, 0, 0, 0]"
    unfolding spec [OF o, of 7] by (simp add: sums)
  ultimately show ?thesis using r by (intro exI [of _ Ns] exI [of _ out] conjI)
qed

end
