(* ===== verification/Shutdown_Link.thy ===== *)
theory Shutdown_Link
  imports Ring
begin

text \<open>
  The connection between the propagators of the upstream nodes and the receiver they send to, as a
  system of threads that take their steps in any order. A propagator's messages reach the
  receiver in the order they were sent; what the receiver publishes reaches every propagator. The
  events the rest of the system causes - increments, forwarded buffers, the timer, messages of the
  paired threads - come at any time.
\<close>

section \<open>The system\<close>

record link =
  lk_p :: "i32 \<Rightarrow> Propagator"
  lk_t :: "i32 \<Rightarrow> prop_thr"
  lk_wire :: "i32 \<Rightarrow> receiver_wire_msg list"
  lk_sub :: "i32 \<Rightarrow> PropRecvMsgType list"
  lk_r :: Receiver
  lk_u :: recv_thr
  lk_heap :: tables

fun published :: "recv_act list \<Rightarrow> PropRecvMsgType list" where
  "published [] = []"
| "published (Publish m # acts) = m # published acts"
| "published (_ # acts) = published acts"

fun is_term_event :: "prop_event \<Rightarrow> bool" where
  "is_term_event (PTerm m) = True"
| "is_term_event _ = False"

text \<open>\<open>S\<close> is the set of the upstream nodes. A thread that has ended takes no step.\<close>

inductive link_step :: "zmq_lib \<Rightarrow> i32 set \<Rightarrow> link \<Rightarrow> link \<Rightarrow> bool" for zs S where
  prop_event: "i \<in> S \<Longrightarrow> p_state (lk_p s i) \<noteq> P_TERM \<Longrightarrow> \<not> is_term_event e \<Longrightarrow>
     prop_handle zs junk e (lk_p s i) (lk_t s i) = Inr (p', t', acts) \<Longrightarrow>
     link_step zs S s (s\<lparr>lk_p := (lk_p s)(i := p'), lk_t := (lk_t s)(i := t'),
       lk_wire := (lk_wire s)(i := lk_wire s i @ to_downstream acts)\<rparr>)"
| prop_sub: "i \<in> S \<Longrightarrow> p_state (lk_p s i) \<noteq> P_TERM \<Longrightarrow> lk_sub s i = m # ms \<Longrightarrow>
     prop_handle zs junk (PTerm m) (lk_p s i) (lk_t s i) = Inr (p', t', acts) \<Longrightarrow>
     link_step zs S s (s\<lparr>lk_p := (lk_p s)(i := p'), lk_t := (lk_t s)(i := t'),
       lk_wire := (lk_wire s)(i := lk_wire s i @ to_downstream acts), lk_sub := (lk_sub s)(i := ms)\<rparr>)"
| recv_wire: "i \<in> S \<Longrightarrow> r_state (lk_r s) \<noteq> R_TERM \<Longrightarrow> lk_wire s i = m # ms \<Longrightarrow>
     recv_handle zs (RWire m) (lk_r s) (lk_u s) (lk_heap s) = Inr (r', u', heap', acts) \<Longrightarrow>
     link_step zs S s (s\<lparr>lk_r := r', lk_u := u', lk_heap := heap', lk_wire := (lk_wire s)(i := ms),
       lk_sub := (\<lambda>i. lk_sub s i @ published acts)\<rparr>)"
| recv_internal: "r_state (lk_r s) \<noteq> R_TERM \<Longrightarrow>
     recv_handle zs (RInternal m) (lk_r s) (lk_u s) (lk_heap s) = Inr (r', u', heap', acts) \<Longrightarrow>
     link_step zs S s (s\<lparr>lk_r := r', lk_u := u', lk_heap := heap', lk_sub := (\<lambda>i. lk_sub s i @ published acts)\<rparr>)"

text \<open>After the handshakes: everything runs, and the receiver knows its propagators.\<close>

definition link_start :: "i32 set \<Rightarrow> link \<Rightarrow> bool" where
  "link_start S s \<longleftrightarrow>
     (\<forall>i \<in> S. p_state (lk_p s i) = P_RUN \<and> prop_inv (lk_p s i) (lk_t s i) \<and> p_my_id (lk_p s i) = i \<and> lk_wire s i = [] \<and>
        known i (lk_u s)) \<and>
     r_state (lk_r s) = R_RUN \<and> recv_inv (lk_r s) (lk_u s) \<and> (\<forall>i. \<not> acked i (lk_u s)) \<and>
     distinct (um_keys (u_peer_prop_info (lk_u s)))"

section \<open>The invariant\<close>

fun is_buffer :: "receiver_wire_msg \<Rightarrow> bool" where
  "is_buffer (WUpdateBuffer tid data) = True"
| "is_buffer _ = False"

fun is_ack :: "receiver_wire_msg \<Rightarrow> bool" where
  "is_ack (WTerminateAck nid) = True"
| "is_ack _ = False"

text \<open>No buffer comes after an acknowledgement.\<close>

fun acks_last :: "receiver_wire_msg list \<Rightarrow> bool" where
  "acks_last [] = True"
| "acks_last (m # ms) = ((is_ack m \<longrightarrow> (\<forall>x \<in> set ms. \<not> is_buffer x)) \<and> acks_last ms)"

lemma acks_last_append:
  "acks_last (xs @ ys) \<longleftrightarrow> acks_last xs \<and> acks_last ys \<and>
     ((\<exists>x \<in> set xs. is_ack x) \<longrightarrow> (\<forall>y \<in> set ys. \<not> is_buffer y))"
  by (induction xs) auto

text \<open>The state of one propagator and the messages it has on the way.\<close>

definition sender_inv :: "i32 \<Rightarrow> Propagator \<Rightarrow> prop_thr \<Rightarrow> receiver_wire_msg list \<Rightarrow> recv_thr \<Rightarrow> bool" where
  "sender_inv i p t wire u \<longleftrightarrow>
     p_state p \<noteq> P_INIT \<and> prop_inv p t \<and> p_my_id p = i \<and> known i u \<and> acks_last wire \<and>
     (\<forall>n. WTerminateAck n \<in> set wire \<longrightarrow> n = i) \<and>
     ((\<exists>m \<in> set wire. is_ack m) \<or> acked i u \<longrightarrow> p_state p \<noteq> P_RUN) \<and>
     (acked i u \<longrightarrow> (\<forall>m \<in> set wire. \<not> is_buffer m))"

definition link_inv :: "i32 set \<Rightarrow> link \<Rightarrow> bool" where
  "link_inv S s \<longleftrightarrow>
     (\<forall>i \<in> S. sender_inv i (lk_p s i) (lk_t s i) (lk_wire s i) (lk_u s)) \<and>
     r_state (lk_r s) \<noteq> R_INIT \<and> recv_inv (lk_r s) (lk_u s) \<and> distinct (um_keys (u_peer_prop_info (lk_u s)))"

lemma start_inv: "link_start S s \<Longrightarrow> link_inv S s"
  by (auto simp: link_start_def link_inv_def sender_inv_def)

lemma to_downstream_mem: "m \<in> set (to_downstream acts) \<longleftrightarrow> ToDownstream m \<in> set acts"
  by (induction acts rule: to_downstream.induct) auto

lemma ack_has_my_id:
  assumes "prop_handle zs junk e p t = Inr (p', t', acts)" and "prop_inv p t" and "running p"
    and "ToDownstream (WTerminateAck n) \<in> set acts"
  shows "n = p_my_id p"
proof (cases e)
  case (PTimer m acks)
  show ?thesis
  proof (cases "p_state p = P_RUN")
    case True
    with PTimer assms(1,4) handle_timer_run(2) [of zs junk acks m p t p' t' acts] show ?thesis by fastforce
  next
    case False
    with PTimer assms handle_timer_quiet(1) [of zs junk acks m p t p' t' acts] show ?thesis
      by (auto simp: prop_inv_def)
  qed
next
  case (PUpdate m)
  with assms(1) have h: "handle_update_msg zs m p t = Inr (p', t', acts)" by simp
  then show ?thesis
  proof (cases rule: handle_update_msg_cases)
    case terminate
    with h assms(4) show ?thesis
      by (auto simp: handle_internal_terminate_def send_term_ack_def Let_def bindR_Inr_iff split: if_split_asm)
  qed (use assms(4) in auto)
next
  case (PTerm m)
  with assms(1) have "handle_term_sub zs m p t = Inr (p', t', acts)" by simp
  then show ?thesis by (cases rule: handle_term_sub_cases) (use assms(4) in auto)
qed

lemma sender_step:
  assumes "prop_handle zs junk e p t = Inr (p', t', acts)" and "p_state p \<noteq> P_TERM"
    and "sender_inv i p t wire u"
  shows "sender_inv i p' t' (wire @ to_downstream acts) u"
proof -
  have inv: "p_state p \<noteq> P_INIT" "prop_inv p t" "p_my_id p = i" using assms(3) by (auto simp: sender_inv_def)
  then have run: "running p" using assms(2) running_ended by blast
  note st = prop_handle_step [OF assms(1) run inv(2)]
  have init: "p_state p' \<noteq> P_INIT" by (rule rank_started [OF st(2) run])
  let ?new = "to_downstream acts"
  have buf: "\<exists>a \<in> set acts. sends_buffer a" if "\<exists>m \<in> set ?new. is_buffer m"
    using that by (metis is_buffer.elims(2) sends_buffer.simps(1) to_downstream_mem)
  have ack: "\<exists>a \<in> set acts. sends_term_ack a" if "\<exists>m \<in> set ?new. is_ack m"
    using that by (metis is_ack.elims(2) sends_term_ack.simps(1) to_downstream_mem)
  have new_last: "acks_last ?new"
  proof (cases "\<exists>m \<in> set ?new. is_ack m")
    case True
    with ack st(4) buf have none: "\<forall>m \<in> set ?new. \<not> is_buffer m" by blast
    have "acks_last ms" if "\<forall>m \<in> set ms. \<not> is_buffer m" for ms using that by (induction ms) auto
    with none show ?thesis by blast
  next
    case False
    have "acks_last ms" if "\<forall>m \<in> set ms. \<not> is_ack m" for ms using that by (induction ms) auto
    with False show ?thesis by blast
  qed
  have rank: "p_state p' \<noteq> P_RUN" if "p_state p \<noteq> P_RUN"
    using st(2) that inv(1) by (cases "p_state p"; cases "p_state p'") auto
  have quiet: "\<forall>m \<in> set ?new. \<not> is_buffer m" if "p_state p \<noteq> P_RUN" using st(3) [OF that] buf by blast
  have ids: "n = i" if "WTerminateAck n \<in> set ?new" for n
    using ack_has_my_id [OF assms(1) inv(2) run] that inv(3) by (auto simp: to_downstream_mem)
  have "acks_last (wire @ ?new)"
    unfolding acks_last_append using assms(3) new_last quiet by (auto simp: sender_inv_def)
  moreover have "p_state p' \<noteq> P_RUN" if "(\<exists>m \<in> set (wire @ ?new). is_ack m) \<or> acked i u"
    using that assms(3) rank ack st(4) by (auto simp: sender_inv_def)
  ultimately show ?thesis
    using assms(3) init st(1,5) ids quiet by (auto simp: sender_inv_def)
qed

text \<open>What a message does to the receiver's table of propagators.\<close>

lemma recv_handle_peers:
  assumes "recv_handle zs e r u heap = Inr (r', u', heap', acts)"
  shows "acked nid u' = (acked nid u \<or> e = RWire (WTerminateAck nid))"
    and "known nid u' = (known nid u \<or> e = RWire (WTerminateAck nid))"
    and "distinct (um_keys (u_peer_prop_info u)) \<Longrightarrow> distinct (um_keys (u_peer_prop_info u'))"
proof -
  have "acked nid u' = (acked nid u \<or> e = RWire (WTerminateAck nid)) \<and>
    known nid u' = (known nid u \<or> e = RWire (WTerminateAck nid)) \<and>
    (distinct (um_keys (u_peer_prop_info u)) \<longrightarrow> distinct (um_keys (u_peer_prop_info u')))"
  proof (cases e)
    case (RInternal m)
    show ?thesis
    proof (cases m)
      case (RPlain ty)
      with RInternal assms show ?thesis
        by (cases ty) (auto simp: handle_self_terminate_def handle_pair_terminate_def Let_def bindR_Inr_iff
            known_def acked_def split: if_splits)
    qed (use RInternal assms in \<open>auto simp: handle_my_updates_def Let_def bindR_Inr_iff known_def acked_def split: if_splits\<close>)
  next
    case (RWire m)
    show ?thesis
    proof (cases m)
      case (WUpdateBuffer tid data)
      with RWire assms have "handle_recv_buffer zs tid data r u heap = Inr (r', u', heap', acts)" by simp
      from handle_recv_buffer_frame(2) [OF this] RWire WUpdateBuffer show ?thesis
        by (auto simp: known_def acked_def)
    next
      case (WTerminateAck n)
      with RWire assms show ?thesis
        by (auto simp: handle_term_ack_def Let_def acked_def known_def split: if_splits)
    qed (use RWire assms in \<open>simp_all split: if_splits\<close>)
  qed
  then show "acked nid u' = (acked nid u \<or> e = RWire (WTerminateAck nid))"
    "known nid u' = (known nid u \<or> e = RWire (WTerminateAck nid))"
    "distinct (um_keys (u_peer_prop_info u)) \<Longrightarrow> distinct (um_keys (u_peer_prop_info u'))" by blast+
qed

lemma receiver_keeps:
  assumes "recv_handle zs e (lk_r s) (lk_u s) (lk_heap s) = Inr (r', u', heap', acts)"
    and "r_state (lk_r s) \<noteq> R_TERM" and "link_inv S s"
  shows "r_state r' \<noteq> R_INIT \<and> recv_inv r' u' \<and> distinct (um_keys (u_peer_prop_info u'))"
proof -
  have inv: "recv_inv (lk_r s) (lk_u s)" "r_state (lk_r s) \<noteq> R_INIT" "distinct (um_keys (u_peer_prop_info (lk_u s)))"
    using assms(3) by (auto simp: link_inv_def)
  have st: "r_state (lk_r s) = R_RUN \<or> r_state (lk_r s) = R_TERM_SELF"
    using inv(2) assms(2) by (cases "r_state (lk_r s)") auto
  note step = recv_handle_step [OF assms(1) st inv(1)]
  show ?thesis
    using step(1) recv_rank_running [OF step(2) st] recv_handle_peers(3) [OF assms(1) inv(3)] by blast
qed

lemma sender_pop:
  assumes "sender_inv i p t (m # ms) u"
    and "acked i u' = (acked i u \<or> m = WTerminateAck i)" and "known i u' = (known i u \<or> m = WTerminateAck i)"
  shows "sender_inv i p t ms u'"
proof (cases "m = WTerminateAck i")
  case True
  with assms show ?thesis by (simp add: sender_inv_def)
next
  case False
  then have "\<not> is_ack m" using assms(1) by (cases m) (auto simp: sender_inv_def)
  with False assms show ?thesis by (simp add: sender_inv_def)
qed

lemma link_step_inv: "link_step zs S s s' \<Longrightarrow> link_inv S s \<Longrightarrow> link_inv S s'"
proof (induction rule: link_step.induct)
  case (prop_event i s e junk p' t' acts)
  then have "sender_inv i p' t' (lk_wire s i @ to_downstream acts) (lk_u s)"
    by (intro sender_step [OF prop_event(4)]) (auto simp: link_inv_def)
  with prop_event.prems show ?case by (simp add: link_inv_def)
next
  case (prop_sub i s m ms junk p' t' acts)
  then have "sender_inv i p' t' (lk_wire s i @ to_downstream acts) (lk_u s)"
    by (intro sender_step [OF prop_sub(4)]) (auto simp: link_inv_def)
  with prop_sub.prems show ?case by (simp add: link_inv_def)
next
  case (recv_wire i s m ms r' u' heap' acts)
  have rest: "r_state r' \<noteq> R_INIT \<and> recv_inv r' u' \<and> distinct (um_keys (u_peer_prop_info u'))"
    by (rule receiver_keeps [OF recv_wire(4,2) recv_wire.prems])
  have si: "sender_inv j (lk_p s j) (lk_t s j) (lk_wire s j) (lk_u s)" if "j \<in> S" for j
    using recv_wire.prems that by (auto simp: link_inv_def)
  note peers = recv_handle_peers(1,2) [OF recv_wire(4)]
  have mine: "n = i" if "m = WTerminateAck n" for n
    using si [OF recv_wire(1)] recv_wire(3) that by (auto simp: sender_inv_def)
  have "sender_inv j (lk_p s j) (lk_t s j) (((lk_wire s)(i := ms)) j) u'" if "j \<in> S" for j
  proof (cases "j = i")
    case True
    have "sender_inv i (lk_p s i) (lk_t s i) (m # ms) (lk_u s)" using si [OF recv_wire(1)] recv_wire(3) by simp
    from sender_pop [OF this] peers [of i] True show ?thesis by simp
  next
    case False
    then have "m \<noteq> WTerminateAck j" using mine by blast
    with si [OF that] peers [of j] False show ?thesis by (simp add: sender_inv_def)
  qed
  with rest show ?case by (simp add: link_inv_def)
next
  case (recv_internal s m r' u' heap' acts)
  have "r_state r' \<noteq> R_INIT \<and> recv_inv r' u' \<and> distinct (um_keys (u_peer_prop_info u'))"
    by (rule receiver_keeps [OF recv_internal(2,1) recv_internal.prems])
  with recv_internal.prems recv_handle_peers(1,2) [OF recv_internal(2)] show ?case
    by (simp add: link_inv_def sender_inv_def)
qed

interpretation link: step_invariant "link_step zs S" "link_inv S" for zs S
  by unfold_locales (rule link_step_inv)

lemma ended_all_acked:
  assumes "link_inv S s" and "r_state (lk_r s) = R_TERM" and "i \<in> S"
  shows "acked i (lk_u s)"
proof -
  have "recv_may_exit (lk_u s)" "distinct (um_keys (u_peer_prop_info (lk_u s)))" "known i (lk_u s)"
    using assms by (auto simp: link_inv_def recv_inv_def sender_inv_def)
  then show ?thesis using all_acked_iff by (auto simp: recv_may_exit_def)
qed

section \<open>Property\<close>

text \<open>
  C4: no update is lost to a receiver that has ended. Whatever the order in which the threads take
  their steps and the application causes events, when the receiver has reached TERM every upstream
  propagator has left RUN, and none has an update buffer on the way.
\<close>

theorem no_update_after_receiver_end:
  assumes "link_start S s" and "(link_step zs S)\<^sup>*\<^sup>* s s'" and "r_state (lk_r s') = R_TERM"
  shows "\<forall>i \<in> S. p_state (lk_p s' i) \<noteq> P_RUN \<and> (\<forall>m \<in> set (lk_wire s' i). \<not> is_buffer m)"
proof
  fix i assume i: "i \<in> S"
  have inv: "link_inv S s'" by (rule link.reach_inv [OF assms(2) start_inv [OF assms(1)]])
  with i have "sender_inv i (lk_p s' i) (lk_t s' i) (lk_wire s' i) (lk_u s')" by (simp add: link_inv_def)
  with ended_all_acked [OF inv assms(3) i]
  show "p_state (lk_p s' i) \<noteq> P_RUN \<and> (\<forall>m \<in> set (lk_wire s' i). \<not> is_buffer m)" by (simp add: sender_inv_def)
qed

text \<open>One upstream node and one receiver, shut down.\<close>

definition sample_link :: "prop_thr \<Rightarrow> Propagator \<Rightarrow> link" where
  "sample_link t p = \<lparr>lk_p = \<lambda>_. p, lk_t = \<lambda>_. t, lk_wire = \<lambda>_. [], lk_sub = \<lambda>_. [], lk_r = sample_recv 2 1,
     lk_u = recv_thr_init\<lparr>u_peer_prop_info := [(1, \<lparr>ppi_has_started = True, ppi_has_replied_termination = False\<rparr>)]\<rparr>,
     lk_heap = Map.empty\<rparr>"

theorem no_update_after_receiver_end_witness:
  "\<exists>t p s'. link_start {1} (sample_link t p) \<and> (link_step zmq_ok {1})\<^sup>*\<^sup>* (sample_link t p) s' \<and>
     r_state (lk_r s') = R_TERM \<and> p_state (lk_p s' 1) \<noteq> P_RUN"
proof -
  let ?t = "prop_thr_init (sample_prop 100 True)"
  obtain p where s: "prop_thr_start zmq_ok ''7'' [EPRInit] [PropInitACK, PropInitACK, PropStart] (sample_prop 100 True) =
     Inr (p, ?t, [WInit 1, WInitAckAck 1], [])"
    and p: "p = set_timer_endps ''7'' (sample_prop 100 True)\<lparr>p_state := P_RUN\<rparr>"
    using sample_thr_start by blast
  let ?s = "sample_link ?t p"
  have start: "link_start {1} ?s"
    using prop_thr_start_inv [OF s]
    by (simp add: link_start_def sample_link_def sample_recv_simps recv_inv_def recv_thr_init_def known_def acked_def p
        sample_simps)
  have ph: "\<exists>t1 p2 t2 acts. prop_handle zmq_ok (\<lambda>_. 0) (PTerm EPRTerminate) p ?t = Inr (p, t1, []) \<and>
      prop_handle zmq_ok (\<lambda>_. 0) (PUpdate (MPlain EPInternalTerminate)) p t1 = Inr (p2, t2, acts) \<and>
      to_downstream acts = [WTerminateAck 1]"
    by (simp add: p sample_simps)
  have rh: "\<exists>r1 u1 u2 r3 u3 acts2 acts3. recv_handle zmq_ok (RInternal (RPlain ERInternalTerminate)) (lk_r ?s) (lk_u ?s) (lk_heap ?s) =
        Inr (r1, u1, Map.empty, [Publish EPRTerminate]) \<and>
      recv_handle zmq_ok (RInternal (RPlain EPRInternalTerminate)) r1 u1 Map.empty = Inr (r1, u2, Map.empty, acts2) \<and>
      recv_handle zmq_ok (RWire (WTerminateAck 1)) r1 u2 Map.empty = Inr (r3, u3, Map.empty, acts3) \<and>
      r_state r1 = R_TERM_SELF \<and> r_state r3 = R_TERM"
    by (simp add: handle_self_terminate_def handle_pair_terminate_def handle_term_ack_def sample_recv_simps sample_link_def
        word_sless_alt recv_thr_init_def recv_exit_if_done_def recv_may_exit_def Let_def um_at_def)
  obtain t1 p2 t2 acts where ph1: "prop_handle zmq_ok (\<lambda>_. 0) (PTerm EPRTerminate) p ?t = Inr (p, t1, [])"
    and ph2: "prop_handle zmq_ok (\<lambda>_. 0) (PUpdate (MPlain EPInternalTerminate)) p t1 = Inr (p2, t2, acts)"
    and out: "to_downstream acts = [WTerminateAck 1]" using ph by blast
  obtain r1 u1 u2 r3 u3 acts2 acts3 where
    rh1: "recv_handle zmq_ok (RInternal (RPlain ERInternalTerminate)) (lk_r ?s) (lk_u ?s) (lk_heap ?s) =
        Inr (r1, u1, Map.empty, [Publish EPRTerminate])"
    and rh2: "recv_handle zmq_ok (RInternal (RPlain EPRInternalTerminate)) r1 u1 Map.empty = Inr (r1, u2, Map.empty, acts2)"
    and rh3: "recv_handle zmq_ok (RWire (WTerminateAck 1)) r1 u2 Map.empty = Inr (r3, u3, Map.empty, acts3)"
    and r: "r_state r1 = R_TERM_SELF" "r_state r3 = R_TERM" using rh by blast
  have fresh: "lk_p ?s = (\<lambda>_. p)" "lk_t ?s = (\<lambda>_. ?t)" "lk_wire ?s = (\<lambda>_. [])" "lk_sub ?s = (\<lambda>_. [])"
    "r_state (lk_r ?s) = R_RUN" by (simp_all add: sample_link_def sample_recv_simps)
  have run: "p_state p = P_RUN" by (simp add: p)
  define s1 where "s1 = ?s\<lparr>lk_r := r1, lk_u := u1, lk_heap := Map.empty, lk_sub := (\<lambda>i. lk_sub ?s i @ published [Publish EPRTerminate])\<rparr>"
  have 1: "link_step zmq_ok {1} ?s s1"
    unfolding s1_def by (rule recv_internal [OF _ rh1]) (simp add: fresh)
  define s2 where "s2 = s1\<lparr>lk_p := (lk_p s1)(1 := p), lk_t := (lk_t s1)(1 := t1),
    lk_wire := (lk_wire s1)(1 := lk_wire s1 1 @ to_downstream []), lk_sub := (lk_sub s1)(1 := [])\<rparr>"
  have 2: "link_step zmq_ok {1} s1 s2"
    unfolding s2_def by (rule prop_sub [where m = EPRTerminate and junk = "\<lambda>_. 0"])
      (use ph1 run in \<open>simp_all add: s1_def fresh del: prop_handle.simps\<close>)
  define s3 where "s3 = s2\<lparr>lk_p := (lk_p s2)(1 := p2), lk_t := (lk_t s2)(1 := t2),
    lk_wire := (lk_wire s2)(1 := lk_wire s2 1 @ to_downstream acts)\<rparr>"
  have 3: "link_step zmq_ok {1} s2 s3"
    unfolding s3_def by (rule prop_event [where e = "PUpdate (MPlain EPInternalTerminate)" and junk = "\<lambda>_. 0"])
      (use ph2 run in \<open>simp_all add: s1_def s2_def fresh del: prop_handle.simps\<close>)
  define s4 where "s4 = s3\<lparr>lk_r := r1, lk_u := u2, lk_heap := Map.empty, lk_sub := (\<lambda>i. lk_sub s3 i @ published acts2)\<rparr>"
  have 4: "link_step zmq_ok {1} s3 s4"
    unfolding s4_def by (rule recv_internal [where m = "RPlain EPRInternalTerminate"])
      (use rh2 r in \<open>simp_all add: s1_def s2_def s3_def del: recv_handle.simps\<close>)
  define s5 where "s5 = s4\<lparr>lk_r := r3, lk_u := u3, lk_heap := Map.empty, lk_wire := (lk_wire s4)(1 := []),
    lk_sub := (\<lambda>i. lk_sub s4 i @ published acts3)\<rparr>"
  have 5: "link_step zmq_ok {1} s4 s5"
    unfolding s5_def by (rule recv_wire [where m = "WTerminateAck 1"])
      (use rh3 r out in \<open>simp_all add: s1_def s2_def s3_def s4_def fresh del: recv_handle.simps\<close>)
  have steps: "(link_step zmq_ok {1})\<^sup>*\<^sup>* ?s s5"
    using 1 2 3 4 5 by (meson r_into_rtranclp rtranclp_trans)
  have ended: "r_state (lk_r s5) = R_TERM" using r by (simp add: s5_def)
  from no_update_after_receiver_end [OF start steps ended] start steps ended show ?thesis by blast
qed

end
