(* ===== verification/Handshake.thy ===== *)
theory Handshake
  imports Shutdown_Link
begin

text \<open>
  The handshake of a receiver with its upstream propagators: each propagator sends one
  \<open>PropInit\<close>, the receiver publishes \<open>PropInitACK\<close> until it has as many answers as it expects, and
  then \<open>PropStart\<close>. A propagator may miss the first of the published messages.
\<close>

section \<open>The receiver\<close>

lemma recv_prop_inits_ok:
  "\<exists>peers'. recv_prop_inits (length ns) (map WInit ns) peers = Inr (peers', []) \<and>
     (\<forall>i. um_find i peers' = (if i \<in> set ns then Some \<lparr>ppi_has_started = True, ppi_has_replied_termination = False\<rparr>
        else um_find i peers)) \<and>
     (distinct (um_keys peers) \<longrightarrow> distinct (um_keys peers'))"
proof (induction ns arbitrary: peers)
  case (Cons i ns)
  show ?case
    using Cons.IH [of "um_put i \<lparr>ppi_has_started = True, ppi_has_replied_termination = False\<rparr> peers"] by auto
qed simp

lemma recv_ackacks_ok:
  "c + length ms \<le> e \<Longrightarrow> e < 2147483648 \<Longrightarrow>
   recv_ackacks (of_nat e) (of_nat c) (map WInitAckAck ms) = Inr (of_nat (c + length ms), [])"
proof (induction ms arbitrary: c)
  case (Cons i ms)
  have suc: "of_nat c + 1 = (of_nat (Suc c) :: i32)" by simp
  have "(of_nat (Suc c) :: i32) = of_nat e \<longleftrightarrow> Suc c = e"
    using Cons.prems by (intro of_nat_eq_i32) auto
  with Cons.IH [of "Suc c"] Cons.prems show ?case
    by (cases "Suc c = e") (simp_all only: list.map recv_ackacks.simps receiver_wire_msg.case suc if_True if_False, auto)
qed simp

lemma of_nat_sless: "c < 2147483648 \<Longrightarrow> e < 2147483648 \<Longrightarrow> of_nat c <s (of_nat e :: i32) \<longleftrightarrow> c < e"
  by (simp add: word_sless_alt)

lemma publish_init_acks_ok:
  "concat arrivals = map WInitAckAck ms \<Longrightarrow> c + length ms = e \<Longrightarrow> e < 2147483648 \<Longrightarrow>
   \<exists>k. publish_init_acks zmq_ok (of_nat e) (of_nat c) arrivals [] = Inr (replicate k (Publish PropInitACK), []) \<and>
     k \<le> length arrivals \<and> (c < e \<longrightarrow> 0 < k)"
proof (induction arrivals arbitrary: c ms)
  case Nil
  then show ?case by simp
next
  case (Cons arrived arrivals)
  show ?case
  proof (cases "c < e")
    case True
    obtain ms1 ms2 where ms: "ms = ms1 @ ms2" "arrived = map WInitAckAck ms1" "concat arrivals = map WInitAckAck ms2"
      using Cons.prems(1) by (auto simp: append_eq_map_conv)
    have "recv_ackacks (of_nat e) (of_nat c) arrived = Inr (of_nat (c + length ms1), [])"
      unfolding ms by (rule recv_ackacks_ok) (use Cons.prems ms in auto)
    moreover obtain k where "publish_init_acks zmq_ok (of_nat e) (of_nat (c + length ms1)) arrivals [] =
        Inr (replicate k (Publish PropInitACK), [])" "k \<le> length arrivals"
      using Cons.IH [OF ms(3), of "c + length ms1"] Cons.prems(2,3) ms(1) by auto
    moreover have "of_nat c <s (of_nat e :: i32)" using True Cons.prems(3) by (simp add: of_nat_sless)
    ultimately show ?thesis by (intro exI [of _ "Suc k"]) simp
  next
    case False
    with Cons.prems have "ms = []" "c = e" by auto
    with Cons.prems show ?thesis by (intro exI [of _ 0]) (simp add: word_sless_alt)
  qed
qed

lemma recv_start_ok:
  assumes "0 <s r_num_expected r" and "distinct ns" and "length ns = nat (sint (r_num_expected r))"
    and "mset ms = mset ns" and "concat arrivals = map WInitAckAck ms"
  shows "\<exists>u k. recv_thr_start zmq_ok (map WInit ns) arrivals r =
      Inr (r\<lparr>r_state := R_RUN\<rparr>, u, ToPair EPRInit # replicate k (Publish PropInitACK) @ [Publish PropStart], []) \<and>
    0 < k \<and> (\<forall>i. known i u \<longleftrightarrow> i \<in> set ns) \<and> (\<forall>i. \<not> acked i u) \<and> distinct (um_keys (u_peer_prop_info u))"
proof -
  let ?e = "nat (sint (r_num_expected r))"
  have e: "of_nat ?e = r_num_expected r" "?e < 2147483648" "0 < ?e"
    using assms(1) sint_i32_range [of "r_num_expected r"] by (auto simp: word_sless_alt sint_inj_iff [symmetric])
  have "length ms = ?e" using assms(3,4) by (metis size_mset)
  then obtain k where k: "publish_init_acks zmq_ok (r_num_expected r) 0 arrivals [] = Inr (replicate k (Publish PropInitACK), [])"
    "0 < k" using publish_init_acks_ok [OF assms(5), of 0 ?e] e by auto
  obtain peers where p: "recv_prop_inits ?e (map WInit ns) [] = Inr (peers, [])"
    "\<forall>i. um_find i peers = (if i \<in> set ns then Some \<lparr>ppi_has_started = True, ppi_has_replied_termination = False\<rparr> else None)"
    "distinct (um_keys peers)"
    using recv_prop_inits_ok [of ns "[]"] assms(3) by auto
  let ?u = "recv_thr_init\<lparr>u_peer_prop_info := peers\<rparr>"
  have "recv_thr_start zmq_ok (map WInit ns) arrivals r =
      Inr (r\<lparr>r_state := R_RUN\<rparr>, ?u, ToPair EPRInit # replicate k (Publish PropInitACK) @ [Publish PropStart], [])"
    using assms(1) k(1) p(1) by (simp add: recv_thr_start_def recv_handshake_def)
  moreover have "known i ?u \<longleftrightarrow> i \<in> set ns" "\<not> acked i ?u" for i
    using p(2) by (simp_all add: known_def acked_def)
  ultimately show ?thesis using k(2) p(3) by (intro exI [of _ ?u] exI [of _ k]) simp
qed

section \<open>The propagators\<close>

lemma await_prop_start_ok: "await_prop_start (replicate k PropInitACK @ [PropStart]) = Inr []"
  by (induction k) auto

lemma prop_start_ok:
  assumes "j < k" and "\<not> p_ds_id p <s 0"
  shows "\<exists>p' t. prop_thr_start zmq_ok tid [EPRInit] (drop j (replicate k PropInitACK @ [PropStart])) p =
    Inr (p', t, [WInit (p_my_id p), WInitAckAck (p_my_id p)], []) \<and> p_state p' = P_RUN \<and> prop_inv p' t \<and> p_my_id p' = p_my_id p"
proof -
  obtain l where "k - j = Suc l" using assms(1) by (metis Suc_diff_Suc)
  then have d: "drop j (replicate k PropInitACK @ [PropStart]) = PropInitACK # replicate l PropInitACK @ [PropStart]"
    using assms(1) by simp
  have "prop_thr_start zmq_ok tid [EPRInit] (drop j (replicate k PropInitACK @ [PropStart])) p =
    Inr ((set_timer_endps tid p)\<lparr>p_state := P_RUN\<rparr>, prop_thr_init p, [WInit (p_my_id p), WInitAckAck (p_my_id p)], [])"
    unfolding d using assms(2) by (simp add: prop_thr_start_def prop_handshake_def set_timer_endps_def await_prop_start_ok)
  with prop_thr_start_inv [OF this] show ?thesis by auto
qed

section \<open>Property\<close>

text \<open>
  C10: the handshake succeeds. Whatever rounds the answers of the propagators arrive in, and however many of
  the first acknowledgements each propagator misses, the receiver and all its propagators
  reach RUN with nothing left unread, the receiver knows exactly these propagators, and the connection is in the
  state the shutdown starts from.
\<close>

theorem handshake_starts_link:
  assumes "0 <s r_num_expected r" and "distinct ns" and "length ns = nat (sint (r_num_expected r))"
    and "mset ms = mset ns" and "concat arrivals = map WInitAckAck ms"
    and "\<forall>i \<in> set ns. p_my_id (P i) = i \<and> \<not> p_ds_id (P i) <s 0"
  shows "\<exists>r' u k. recv_thr_start zmq_ok (map WInit ns) arrivals r =
      Inr (r', u, ToPair EPRInit # replicate k (Publish PropInitACK) @ [Publish PropStart], []) \<and> 0 < k \<and>
    (\<forall>i. known i u \<longleftrightarrow> i \<in> set ns) \<and>
    (\<forall>missed. (\<forall>i \<in> set ns. missed i < k) \<longrightarrow>
      (\<exists>P' T. (\<forall>i \<in> set ns. prop_thr_start zmq_ok (tid i) [EPRInit]
            (drop (missed i) (replicate k PropInitACK @ [PropStart])) (P i) =
          Inr (P' i, T i, [WInit i, WInitAckAck i], [])) \<and>
        link_start (set ns) \<lparr>lk_p = P', lk_t = T, lk_wire = \<lambda>_. [], lk_sub = \<lambda>_. [], lk_r = r', lk_u = u, lk_heap = heap\<rparr>))"
proof -
  obtain u k where r: "recv_thr_start zmq_ok (map WInit ns) arrivals r =
      Inr (r\<lparr>r_state := R_RUN\<rparr>, u, ToPair EPRInit # replicate k (Publish PropInitACK) @ [Publish PropStart], [])"
    "0 < k" "\<forall>i. known i u \<longleftrightarrow> i \<in> set ns" "\<forall>i. \<not> acked i u" "distinct (um_keys (u_peer_prop_info u))"
    using recv_start_ok [OF assms(1-5)] by blast
  have inv: "recv_inv (r\<lparr>r_state := R_RUN\<rparr>) u" using recv_thr_start_inv [OF r(1)] by blast
  have "\<exists>P' T. (\<forall>i \<in> set ns. prop_thr_start zmq_ok (tid i) [EPRInit]
            (drop (missed i) (replicate k PropInitACK @ [PropStart])) (P i) =
          Inr (P' i, T i, [WInit i, WInitAckAck i], [])) \<and>
        link_start (set ns) \<lparr>lk_p = P', lk_t = T, lk_wire = \<lambda>_. [], lk_sub = \<lambda>_. [], lk_r = r\<lparr>r_state := R_RUN\<rparr>, lk_u = u, lk_heap = heap\<rparr>"
    if "\<forall>i \<in> set ns. missed i < k" for missed
  proof -
    have "\<forall>i. \<exists>x. i \<in> set ns \<longrightarrow> prop_thr_start zmq_ok (tid i) [EPRInit] (drop (missed i) (replicate k PropInitACK @ [PropStart])) (P i) =
        Inr (fst x, snd x, [WInit i, WInitAckAck i], []) \<and> p_state (fst x) = P_RUN \<and> prop_inv (fst x) (snd x) \<and> p_my_id (fst x) = i"
      using prop_start_ok that assms(6) by (metis fst_conv snd_conv)
    then obtain X where X: "\<forall>i \<in> set ns. prop_thr_start zmq_ok (tid i) [EPRInit] (drop (missed i) (replicate k PropInitACK @ [PropStart])) (P i) =
        Inr (fst (X i), snd (X i), [WInit i, WInitAckAck i], []) \<and> p_state (fst (X i)) = P_RUN \<and> prop_inv (fst (X i)) (snd (X i)) \<and>
        p_my_id (fst (X i)) = i" by metis
    then show ?thesis
      using r(3-5) inv by (intro exI [of _ "\<lambda>i. fst (X i)"] exI [of _ "\<lambda>i. snd (X i)"]) (simp add: link_start_def)
  qed
  with r(1-3) show ?thesis by blast
qed

text \<open>Two upstream nodes whose answers come in different rounds.\<close>

theorem handshake_starts_link_witness:
  "\<exists>r' u k P' T. recv_thr_start zmq_ok [WInit 8, WInit 9] [[], [WInitAckAck 9], [WInitAckAck 8]] (sample_recv 3 2) =
      Inr (r', u, ToPair EPRInit # replicate k (Publish PropInitACK) @ [Publish PropStart], []) \<and> 0 < k \<and>
    link_start {8, 9} \<lparr>lk_p = P', lk_t = T, lk_wire = \<lambda>_. [], lk_sub = \<lambda>_. [], lk_r = r', lk_u = u, lk_heap = Map.empty\<rparr>"
proof -
  let ?P = "\<lambda>i. (sample_prop 100 True)\<lparr>p_thrinfo := (p_thrinfo (sample_prop 100 True))\<lparr>pt_my_id := i\<rparr>\<rparr>"
  have ms: "mset [9, 8 :: i32] = mset [8, 9]" by simp
  have "\<forall>i \<in> set [8, 9]. p_my_id (?P i) = i \<and> \<not> p_ds_id (?P i) <s 0" by (simp add: sample_simps)
  then have "\<exists>r' u k. recv_thr_start zmq_ok (map WInit [8, 9]) [[], [WInitAckAck 9], [WInitAckAck 8]] (sample_recv 3 2) =
      Inr (r', u, ToPair EPRInit # replicate k (Publish PropInitACK) @ [Publish PropStart], []) \<and> 0 < k \<and>
    (\<forall>i. known i u \<longleftrightarrow> i \<in> set [8, 9]) \<and>
    (\<forall>missed. (\<forall>i \<in> set [8, 9]. missed i < k) \<longrightarrow>
      (\<exists>P' T. (\<forall>i \<in> set [8, 9]. prop_thr_start zmq_ok ''7'' [EPRInit]
            (drop (missed i) (replicate k PropInitACK @ [PropStart])) (?P i) =
          Inr (P' i, T i, [WInit i, WInitAckAck i], [])) \<and>
        link_start (set [8, 9]) \<lparr>lk_p = P', lk_t = T, lk_wire = \<lambda>_. [], lk_sub = \<lambda>_. [], lk_r = r', lk_u = u, lk_heap = Map.empty\<rparr>))"
    by (intro handshake_starts_link [where ms = "[9, 8]"]) (use ms in \<open>simp_all add: sample_recv_simps word_sless_alt\<close>)
  then obtain r' u k where *: "recv_thr_start zmq_ok (map WInit [8, 9]) [[], [WInitAckAck 9], [WInitAckAck 8]] (sample_recv 3 2) =
      Inr (r', u, ToPair EPRInit # replicate k (Publish PropInitACK) @ [Publish PropStart], [])" "0 < k"
    "\<exists>P' T. link_start (set [8, 9]) \<lparr>lk_p = P', lk_t = T, lk_wire = \<lambda>_. [], lk_sub = \<lambda>_. [], lk_r = r', lk_u = u, lk_heap = Map.empty\<rparr>"
    by meson
  from * show ?thesis by auto
qed

end
