(* ===== verification/Config_Parser.thy ===== *)
theory Config_Parser
  imports Protocol
begin

text \<open>
  \<open>src/quiltdb/utils/config_parser.hpp\<close> and \<open>config_parser.cpp\<close>: the directory of nodes read
  from a YAML file. The YAML library is a parameter: what \<open>YAML::LoadFile\<close> gives for the
  file. The numbers are read from strings by \<open>std::istream\<close>, which is modelled.
\<close>

section \<open>Reading an integer from a stream\<close>

definition is_blank :: "char \<Rightarrow> bool" where
  "is_blank c \<longleftrightarrow> c \<in> set [CHR '' '', CHR 0x09, CHR 0x0A, CHR 0x0B, CHR 0x0C, CHR 0x0D]"

definition digit_of :: "char \<Rightarrow> nat option" where
  "digit_of c = (let n = of_char c in if 48 \<le> n \<and> n \<le> 57 then Some (n - 48) else None)"

fun take_digits :: "string \<Rightarrow> nat list" where
  "take_digits [] = []"
| "take_digits (c # cs) = (case digit_of c of None \<Rightarrow> [] | Some d \<Rightarrow> d # take_digits cs)"

definition decimal :: "nat list \<Rightarrow> nat" where
  "decimal ds = foldl (\<lambda>n d. 10 * n + d) 0 ds"

text \<open>
  \<open>stream >> n\<close> for an \<open>int32_t\<close>: blanks are skipped, a sign is taken, then the longest run of
  digits. Without a digit the variable becomes 0, a number out of range becomes the nearest
  bound. At the end of the stream nothing is read and the variable keeps what it held.
\<close>

definition sign_and_digits :: "string \<Rightarrow> bool \<times> nat list" where
  "sign_and_digits s =
     (case dropWhile is_blank s of
        [] \<Rightarrow> (False, [])
      | c # cs \<Rightarrow>
          if c = CHR ''-'' then (True, take_digits cs)
          else if c = CHR ''+'' then (False, take_digits cs)
          else (False, take_digits (c # cs)))"

definition stream_int :: "i32 \<Rightarrow> string \<Rightarrow> i32" where
  "stream_int old s =
     (if dropWhile is_blank s = [] then old
      else
        let (neg, ds) = sign_and_digits s;
            n = (if neg then - int (decimal ds) else int (decimal ds))
        in word_of_int (max (- 2147483648) (min 2147483647 n)))"

section \<open>The parser\<close>

record NodeConfig =
  nc_node_info :: NodeInfo
  nc_downstream_recv :: i32
  nc_num_expected_props :: i32

record ConfigParser =
  cp_node_dir :: "(i32, NodeConfig) umap"
  cp_param_map :: "(string, i32) umap"

definition ConfigParser_ctor :: ConfigParser where
  "ConfigParser_ctor = \<lparr>cp_node_dir = [], cp_param_map = []\<rparr>"

text \<open>
  A node of the document gives the string of a field, or throws; a document may lack
  \<open>NodeConfig\<close>.
\<close>

type_synonym yaml_node = "string \<Rightarrow> string option"
type_synonym yaml_doc = "yaml_node list option"

text \<open>\<open>junk\<close> is what the memory of the local variable held.\<close>

fun obind :: "'a option \<Rightarrow> ('a \<Rightarrow> 'b option) \<Rightarrow> 'b option" where
  "obind None f = None"
| "obind (Some x) f = f x"

definition node_config :: "NodeConfig \<Rightarrow> yaml_node \<Rightarrow> NodeConfig option" where
  "node_config junk y =
     obind (y ''id'') (\<lambda>nid.
     obind (y ''recv-pull-ip'') (\<lambda>pull_ip.
     obind (y ''recv-pull-port'') (\<lambda>pull_port.
     obind (y ''recv-push-ip'') (\<lambda>push_ip.
     obind (y ''recv-push-port'') (\<lambda>push_port.
     obind (y ''num-props'') (\<lambda>num_props.
     obind (y ''downstream-id'') (\<lambda>ds.
     Some \<lparr>nc_node_info = \<lparr>ni_node_id = stream_int (ni_node_id (nc_node_info junk)) nid, ni_recv_pull_ip = pull_ip, ni_recv_pull_port = pull_port,
             ni_recv_push_ip = push_ip, ni_recv_push_port = push_port\<rparr>,
           nc_downstream_recv = stream_int (nc_downstream_recv junk) ds,
           nc_num_expected_props = stream_int (nc_num_expected_props junk) num_props\<rparr>)))))))"

text \<open>
  The loop over the nodes: an exception ends it and what was entered stays. \<open>junk n\<close> is the
  memory of the local variable when \<open>n\<close> nodes are left.
\<close>

fun load_nodes :: "(nat \<Rightarrow> NodeConfig) \<Rightarrow> yaml_node list \<Rightarrow> ConfigParser \<Rightarrow> int \<times> ConfigParser" where
  "load_nodes junk [] cp = (0, cp)"
| "load_nodes junk (y # ys) cp =
     (case node_config (junk (length ys)) y of
        None \<Rightarrow> (-1, cp)
      | Some nc \<Rightarrow>
          load_nodes junk ys (cp\<lparr>cp_node_dir := um_put (ni_node_id (nc_node_info nc)) nc (cp_node_dir cp)\<rparr>))"

definition LoadConfigFile ::
  "(string \<Rightarrow> yaml_doc option) \<Rightarrow> (nat \<Rightarrow> NodeConfig) \<Rightarrow> string \<Rightarrow> ConfigParser \<Rightarrow> (int \<times> ConfigParser) res" where
  "LoadConfigFile load_file junk filename cp =
     (case load_file filename of
        None \<Rightarrow> Inr (-1, cp)
      | Some None \<Rightarrow> Inl (Log_fatal ''Didn't found NodeConfig'')
      | Some (Some ys) \<Rightarrow> Inr (load_nodes junk ys cp))"

text \<open>A node that is not there: the id is -1 and the other members are what memory held.\<close>

definition GetNodeInfo :: "NodeConfig \<Rightarrow> i32 \<Rightarrow> ConfigParser \<Rightarrow> NodeConfig" where
  "GetNodeInfo junk node_id cp =
     (let node = junk\<lparr>nc_node_info := (nc_node_info junk)\<lparr>ni_node_id := -1\<rparr>\<rparr>
      in case um_find node_id (cp_node_dir cp) of None \<Rightarrow> node | Some nc \<Rightarrow> nc)"

definition GetParam :: "string \<Rightarrow> ConfigParser \<Rightarrow> bool" where
  "GetParam param cp = False"

section \<open>Properties\<close>

lemma load_nodes_app:
  "(\<And>j. map (node_config j) ys = map Some ncs) \<Longrightarrow>
     \<exists>cp'. load_nodes junk ys cp = (0, cp') \<and>
       (\<forall>nid. um_find nid (cp_node_dir cp') =
         (case um_find nid (rev (map (\<lambda>nc. (ni_node_id (nc_node_info nc), nc)) ncs)) of
            None \<Rightarrow> um_find nid (cp_node_dir cp) | Some nc \<Rightarrow> Some nc))"
proof (induction ys arbitrary: cp ncs)
  case Nil
  then show ?case by simp
next
  case (Cons y ys)
  then obtain nc ncs' where ncs: "ncs = nc # ncs'" "\<And>j. node_config j y = Some nc" "\<And>j. map (node_config j) ys = map Some ncs'"
    by (cases ncs) auto
  let ?cp = "cp\<lparr>cp_node_dir := um_put (ni_node_id (nc_node_info nc)) nc (cp_node_dir cp)\<rparr>"
  obtain cp' where "load_nodes junk ys ?cp = (0, cp')"
    "\<forall>nid. um_find nid (cp_node_dir cp') =
         (case um_find nid (rev (map (\<lambda>nc. (ni_node_id (nc_node_info nc), nc)) ncs')) of
            None \<Rightarrow> um_find nid (cp_node_dir ?cp) | Some nc \<Rightarrow> Some nc)"
    using Cons.IH [OF ncs(3)] by blast
  with ncs(1,2) show ?case
    by (intro exI [of _ cp']) (auto simp: map_add_def split: option.split)
qed


definition sample_yaml :: "string \<Rightarrow> yaml_node" where
  "sample_yaml nid = map_of [(''id'', nid), (''recv-pull-ip'', ''10.0.0.1''), (''recv-pull-port'', ''9000''),
     (''recv-push-ip'', ''10.0.0.1''), (''recv-push-port'', ''9001''), (''num-props'', ''1''), (''downstream-id'', ''-1'')]"


end
