(* ===== verification/Quilt_DB.thy ===== *)
theory Quilt_DB
  imports Receiver_Term Timer_Thr Config_Parser
begin

text \<open>
  \<open>src/quiltdb/include/quiltdb.hpp\<close> and \<open>quiltdb.cpp\<close>: the database object of a process, with
  a propagator and a receiver for each of the two directions, horizontal and vertical, and
  the directory of tables. The threads run on their own; where a call waits for them, what
  they have reached meanwhile is a parameter.
\<close>

section \<open>State\<close>

record DBConfig =
  db_my_hid :: i32
  db_my_hrecv_info :: NodeInfo
  db_hnode_prop_downstream :: NodeInfo
  db_hexpected_prop :: i32
  db_my_vid :: i32
  db_my_vrecv_info :: NodeInfo
  db_vnode_prop_downstream :: NodeInfo
  db_vexpected_prop :: i32
  db_hbatch_nanosec :: i32
  db_vbatch_nanosec :: i32

record QuiltDB =
  q_hpropagator :: Propagator
  q_vpropagator :: Propagator
  q_hreceiver :: Receiver
  q_vreceiver :: Receiver
  q_config :: DBConfig
  q_started :: bool
  q_table_dir :: "(i32, i32) umap"
  q_zmq_ctx :: bool
  q_heap :: tables

definition KHPROP_UPDATE_PULL_ENDP :: string where
  "KHPROP_UPDATE_PULL_ENDP = ''inproc://hprop_update_pull_endp''"
definition KHINTERNAL_RECV_PULL_ENDP :: string where
  "KHINTERNAL_RECV_PULL_ENDP = ''inproc://hinternal_recv_pull_endp''"
definition KHINTERNAL_PAIR_RECV_PUSH_ENDP :: string where
  "KHINTERNAL_PAIR_RECV_PUSH_ENDP = ''inproc://hinternal_pair_recv_push_endp''"
definition KHINTERNAL_PAIR_P2R_ENDP :: string where
  "KHINTERNAL_PAIR_P2R_ENDP = KHINTERNAL_RECV_PULL_ENDP"
definition KHINTERNAL_PAIR_R2P_ENDP :: string where
  "KHINTERNAL_PAIR_R2P_ENDP = KHINTERNAL_PAIR_RECV_PUSH_ENDP"
definition KVPROP_UPDATE_PULL_ENDP :: string where
  "KVPROP_UPDATE_PULL_ENDP = ''inproc://vprop_update_pull_endp''"
definition KVINTERNAL_RECV_PULL_ENDP :: string where
  "KVINTERNAL_RECV_PULL_ENDP = ''inproc://vinternal_recv_pull_endp''"
definition KVINTERNAL_PAIR_RECV_PUSH_ENDP :: string where
  "KVINTERNAL_PAIR_RECV_PUSH_ENDP = ''inproc://vinternal_pair_recv_push_endp''"
definition KVINTERNAL_PAIR_P2R_ENDP :: string where
  "KVINTERNAL_PAIR_P2R_ENDP = KVINTERNAL_RECV_PULL_ENDP"
definition KVINTERNAL_PAIR_R2P_ENDP :: string where
  "KVINTERNAL_PAIR_R2P_ENDP = KVINTERNAL_PAIR_RECV_PUSH_ENDP"

lemmas endp_defs = KHPROP_UPDATE_PULL_ENDP_def KHINTERNAL_RECV_PULL_ENDP_def KHINTERNAL_PAIR_RECV_PUSH_ENDP_def
  KHINTERNAL_PAIR_P2R_ENDP_def KHINTERNAL_PAIR_R2P_ENDP_def KVPROP_UPDATE_PULL_ENDP_def
  KVINTERNAL_RECV_PULL_ENDP_def KVINTERNAL_PAIR_RECV_PUSH_ENDP_def KVINTERNAL_PAIR_P2R_ENDP_def
  KVINTERNAL_PAIR_R2P_ENDP_def

section \<open>Creation\<close>

text \<open>The members the constructors leave alone are parameters.\<close>

definition QuiltDB_ctor :: "PropagatorThrInfo \<Rightarrow> ReceiverThrInfo \<Rightarrow> bool \<Rightarrow> DBConfig \<Rightarrow> QuiltDB" where
  "QuiltDB_ctor pinfo rinfo signaled config =
     \<lparr>q_hpropagator = Propagator_ctor pinfo, q_vpropagator = Propagator_ctor pinfo,
      q_hreceiver = Receiver_ctor rinfo signaled, q_vreceiver = Receiver_ctor rinfo signaled,
      q_config = config, q_started = False, q_table_dir = [], q_zmq_ctx = False, q_heap = Map.empty\<rparr>"

text \<open>
  The database is a function-local static: the first call constructs it, a later call
  returns the same object and ignores its argument. \<open>ctx_ok\<close>: making the context does not throw.
\<close>

definition CreateQuiltDB ::
  "PropagatorThrInfo \<Rightarrow> ReceiverThrInfo \<Rightarrow> bool \<Rightarrow> bool \<Rightarrow> DBConfig \<Rightarrow> QuiltDB option \<Rightarrow> QuiltDB res" where
  "CreateQuiltDB pinfo rinfo signaled ctx_ok config existing =
     (let db = (case existing of None \<Rightarrow> QuiltDB_ctor pinfo rinfo signaled config | Some db \<Rightarrow> db)
      in if ctx_ok then Inr (db\<lparr>q_zmq_ctx := True\<rparr>) else Inl (Log_fatal ''Create zmq_ctx failed''))"

text \<open>The destructor frees the tables and the context.\<close>

definition QuiltDB_dtor :: "QuiltDB \<Rightarrow> QuiltDB" where
  "QuiltDB_dtor db = db\<lparr>q_heap := (\<lambda>a. if a \<in> snd ` set (q_table_dir db) then None else q_heap db a), q_zmq_ctx := False\<rparr>"

text \<open>
  \<open>old\<close> is what the memory of the new table held. The address of a table is its id, which is
  used once. The pointer of the \<open>Table\<close> is written only on success.
\<close>

definition CreateTable :: "cbk_ptr \<Rightarrow> i32 \<Rightarrow> TableConfig \<Rightarrow> Table \<Rightarrow> QuiltDB \<Rightarrow> int \<times> Table \<times> QuiltDB" where
  "CreateTable old table_id table_config table db =
     (if um_find table_id (q_table_dir db) \<noteq> None then (-1, table, db)
      else
        let itable = table_id
        in (0, table\<lparr>tb_internal_table := itable\<rparr>,
            db\<lparr>q_heap := (q_heap db)(itable \<mapsto> InternalTable_ctor old table_id table_config),
               q_table_dir := um_put table_id itable (q_table_dir db)\<rparr>))"

definition CreateHTable :: "cbk_ptr \<Rightarrow> Table \<Rightarrow> i32 \<Rightarrow> TableConfig \<Rightarrow> QuiltDB \<Rightarrow> (Table \<times> QuiltDB) res" where
  "CreateHTable old table0 table_id table_config db =
     (let (ret, table, db) = CreateTable old table_id table_config table0 db; itable = tb_internal_table table
      in bindR (checkR ''CreateTable Failed'' (ret = 0)) (\<lambda>_.
           case q_heap db itable of
             None \<Rightarrow> Inl Null_pointer
           | Some it \<Rightarrow>
               let db = db\<lparr>q_hpropagator := Propagator_RegisterTable table_id (it_vadd_func it) (it_vsize it)
                             (tcf_loop table_config) (tcf_apply_updates table_config) (q_hpropagator db),
                           q_heap := (q_heap db)(itable \<mapsto> set_propagator HPropagator it)\<rparr>
               in bindR (Receiver_RegisterTable (q_heap db) itable (q_hreceiver db)) (\<lambda>(ret, recv).
                  Inr (table, db\<lparr>q_hreceiver := recv\<rparr>))))"

text \<open>Here the code returned by \<open>CreateTable\<close> is not looked at.\<close>

definition CreateVTable :: "cbk_ptr \<Rightarrow> Table \<Rightarrow> i32 \<Rightarrow> TableConfig \<Rightarrow> QuiltDB \<Rightarrow> (Table \<times> QuiltDB) res" where
  "CreateVTable old table0 table_id table_config db =
     (let (ret, table, db) = CreateTable old table_id table_config table0 db; itable = tb_internal_table table
      in case q_heap db itable of
           None \<Rightarrow> Inl Null_pointer
         | Some it \<Rightarrow>
             let db = db\<lparr>q_vpropagator := Propagator_RegisterTable table_id (it_vadd_func it) (it_vsize it)
                           (tcf_loop table_config) (tcf_apply_updates table_config) (q_vpropagator db),
                         q_heap := (q_heap db)(itable \<mapsto> set_propagator VPropagator it)\<rparr>
             in bindR (Receiver_RegisterTable (q_heap db) itable (q_vreceiver db)) (\<lambda>(ret, recv).
                Inr (table, db\<lparr>q_vreceiver := recv\<rparr>)))"

section \<open>Start\<close>

definition hprop_config :: "DBConfig \<Rightarrow> PropagatorConfig" where
  "hprop_config c =
     \<lparr>pc_my_id = db_my_hid c, pc_nanosec = db_hbatch_nanosec c, pc_downstream_recv = db_hnode_prop_downstream c,
      pc_update_pull_endp = KHPROP_UPDATE_PULL_ENDP, pc_internal_pair_p2r_endp = KHINTERNAL_PAIR_P2R_ENDP,
      pc_internal_pair_r2p_endp = KHINTERNAL_PAIR_R2P_ENDP\<rparr>"

definition hrecv_config :: "DBConfig \<Rightarrow> ReceiverConfig" where
  "hrecv_config c =
     \<lparr>rc_my_id = db_my_hid c, rc_my_info = db_my_hrecv_info c, rc_num_expected_propagators = db_hexpected_prop c,
      rc_update_push_endp = KHPROP_UPDATE_PULL_ENDP, rc_internal_recv_pull_endp = KHINTERNAL_RECV_PULL_ENDP,
      rc_internal_pair_recv_push_endp = KHINTERNAL_PAIR_RECV_PUSH_ENDP\<rparr>"

text \<open>The vertical configurations are the horizontal ones with some members assigned anew.\<close>

definition vprop_config :: "DBConfig \<Rightarrow> PropagatorConfig" where
  "vprop_config c =
     (hprop_config c)\<lparr>pc_my_id := db_my_vid c, pc_downstream_recv := db_vnode_prop_downstream c,
      pc_update_pull_endp := KVPROP_UPDATE_PULL_ENDP, pc_internal_pair_p2r_endp := KVINTERNAL_PAIR_P2R_ENDP,
      pc_internal_pair_r2p_endp := KVINTERNAL_PAIR_R2P_ENDP\<rparr>"

definition vrecv_config :: "DBConfig \<Rightarrow> ReceiverConfig" where
  "vrecv_config c =
     (hrecv_config c)\<lparr>rc_my_id := db_my_vid c, rc_my_info := db_my_vrecv_info c,
      rc_num_expected_propagators := db_vexpected_prop c, rc_update_push_endp := KVPROP_UPDATE_PULL_ENDP,
      rc_internal_recv_pull_endp := KVINTERNAL_RECV_PULL_ENDP,
      rc_internal_pair_recv_push_endp := KVINTERNAL_PAIR_RECV_PUSH_ENDP\<rparr>"

text \<open>
  \<open>rets\<close>: the results of the four \<open>pthread_create\<close>; \<open>posts\<close>: how many of the four threads
  get through their handshake and post the semaphore. What the threads write themselves, such as their
  \<open>state_\<close>, is left to the threads.
\<close>

definition QuiltDB_Start :: "int \<times> int \<times> int \<times> int \<Rightarrow> nat \<Rightarrow> QuiltDB \<Rightarrow> (int \<times> QuiltDB) res" where
  "QuiltDB_Start rets posts db =
     (let (r1, r2, r3, r4) = rets; c = q_config db; db = db\<lparr>q_started := True\<rparr>
      in bindR (Propagator_Start r1 (hprop_config c) (q_hpropagator db)) (\<lambda>(ret, hp).
         bindR (checkR ''hpropagator Start() failed'' (ret = 0)) (\<lambda>_.
         bindR (Receiver_Start r2 (hrecv_config c) (q_hreceiver db)) (\<lambda>(_, hr).
         bindR (Propagator_Start r3 (vprop_config c) (q_vpropagator db)) (\<lambda>(_, vp).
         bindR (Receiver_Start r4 (vrecv_config c) (q_vreceiver db)) (\<lambda>(_, vr).
         if posts < 4 then Inl Blocked
         else Inr (0, db\<lparr>q_hpropagator := hp, q_hreceiver := hr, q_vpropagator := vp, q_vreceiver := vr\<rparr>)))))))"

section \<open>Threads and shutdown\<close>

definition QuiltDB_RegisterThr :: "zmq_lib \<Rightarrow> nat \<Rightarrow> QuiltDB \<Rightarrow> int \<times> QuiltDB" where
  "QuiltDB_RegisterThr zs thr db =
     (let (ret, hp) = Propagator_RegisterThr zs thr (q_hpropagator db); db = db\<lparr>q_hpropagator := hp\<rparr>
      in if ret < 0 then (-1, db)
         else
           let (ret, vp) = Propagator_RegisterThr zs thr (q_vpropagator db); db = db\<lparr>q_vpropagator := vp\<rparr>
           in if ret < 0 then (-1, db) else (0, db))"

definition QuiltDB_DeregisterThr :: "nat \<Rightarrow> QuiltDB \<Rightarrow> int \<times> QuiltDB" where
  "QuiltDB_DeregisterThr thr db =
     (let (ret, hp) = Propagator_DeregisterThr thr (q_hpropagator db); db = db\<lparr>q_hpropagator := hp\<rparr>
      in if ret < 0 then (-1, db)
         else
           let (ret, vp) = Propagator_DeregisterThr thr (q_vpropagator db); db = db\<lparr>q_vpropagator := vp\<rparr>
           in if ret < 0 then (-1, db) else (0, db))"

definition signal_all :: "zmq_lib \<Rightarrow> nat \<Rightarrow> QuiltDB \<Rightarrow> QuiltDB res" where
  "signal_all zs thr db =
     bindR (Propagator_SignalTerm zs thr (q_hpropagator db)) (\<lambda>(ret, hp).
     bindR (checkR ''hpropagator_.SignalTerm() failed'' (ret = 0)) (\<lambda>_.
     bindR (Receiver_SignalTerm zs (q_hreceiver db)) (\<lambda>(ret, hr).
     bindR (checkR ''hreceiver_.SignalTerm() failed'' (ret = 0)) (\<lambda>_.
     bindR (Propagator_SignalTerm zs thr (q_vpropagator db)) (\<lambda>(ret, vp).
     bindR (checkR ''vpropagator_.SignalTerm() failed'' (ret = 0)) (\<lambda>_.
     bindR (Receiver_SignalTerm zs (q_vreceiver db)) (\<lambda>(ret, vr).
     bindR (checkR ''vreceiver_.SignalTerm() failed'' (ret = 0)) (\<lambda>_.
     Inr (db\<lparr>q_hpropagator := hp, q_hreceiver := hr, q_vpropagator := vp, q_vreceiver := vr\<rparr>)))))))))"

definition wait_all :: "QuiltDB \<Rightarrow> int res" where
  "wait_all db =
     bindR (Propagator_WaitTerm (q_hpropagator db)) (\<lambda>ret.
     bindR (checkR ''hpropagator_.WaitTerm() failed'' (ret = 0)) (\<lambda>_.
     bindR (Receiver_WaitTerm (q_hreceiver db)) (\<lambda>ret.
     bindR (checkR ''hreceiver_.WaitTerm() failed'' (ret = 0)) (\<lambda>_.
     bindR (Propagator_WaitTerm (q_vpropagator db)) (\<lambda>ret.
     bindR (checkR ''vpropagator_.WaitTerm() failed'' (ret = 0)) (\<lambda>_.
     bindR (Receiver_WaitTerm (q_vreceiver db)) (\<lambda>ret.
     bindR (checkR ''vreceiver_.WaitTerm() failed'' (ret = 0)) (\<lambda>_.
     Inr 0))))))))"

text \<open>\<open>threads\<close> is what the four threads make of the database between the signals and the joins.\<close>

definition ShutDown :: "zmq_lib \<Rightarrow> nat \<Rightarrow> (QuiltDB \<Rightarrow> QuiltDB) \<Rightarrow> QuiltDB \<Rightarrow> (int \<times> QuiltDB) res" where
  "ShutDown zs thr threads db =
     bindR (signal_all zs thr db) (\<lambda>db.
     let db = threads db in bindR (wait_all db) (\<lambda>ret. Inr (ret, db)))"

end
