(* ===== verification/Quilt_DB_Props.thy ===== *)
theory Quilt_DB_Props
  imports Quilt_DB
begin

text \<open>
  Properties of the database object: the tables it makes are registered with the threads of
  exactly one direction, \<open>Start\<close> gives the four threads endpoints that fit together, threads
  register with both directions or see an error, and \<open>ShutDown\<close> returns when the four
  threads have ended.
\<close>

section \<open>Tables\<close>

text \<open>The two calls that make a table, and a sequence of them.\<close>

datatype create_call =
    MakeH i32 TableConfig
  | MakeV i32 TableConfig

fun call_id :: "create_call \<Rightarrow> i32" where
  "call_id (MakeH tid c) = tid"
| "call_id (MakeV tid c) = tid"

fun call_config :: "create_call \<Rightarrow> TableConfig" where
  "call_config (MakeH tid c) = c"
| "call_config (MakeV tid c) = c"

fun call_dir :: "create_call \<Rightarrow> prop_ptr" where
  "call_dir (MakeH tid c) = HPropagator"
| "call_dir (MakeV tid c) = VPropagator"

fun make_table :: "cbk_ptr \<Rightarrow> Table \<Rightarrow> create_call \<Rightarrow> QuiltDB \<Rightarrow> (Table \<times> QuiltDB) res" where
  "make_table old tb (MakeH tid c) db = CreateHTable old tb tid c db"
| "make_table old tb (MakeV tid c) db = CreateVTable old tb tid c db"

fun make_tables :: "cbk_ptr \<Rightarrow> Table \<Rightarrow> create_call list \<Rightarrow> QuiltDB \<Rightarrow> QuiltDB res" where
  "make_tables old tb [] db = Inr db"
| "make_tables old tb (c # cs) db = bindR (make_table old tb c db) (\<lambda>(_, db). make_tables old tb cs db)"

text \<open>The propagator and the receiver of a direction.\<close>

fun dir_prop :: "prop_ptr \<Rightarrow> QuiltDB \<Rightarrow> Propagator" where
  "dir_prop HPropagator db = q_hpropagator db"
| "dir_prop VPropagator db = q_vpropagator db"

fun dir_recv :: "prop_ptr \<Rightarrow> QuiltDB \<Rightarrow> Receiver" where
  "dir_recv HPropagator db = q_hreceiver db"
| "dir_recv VPropagator db = q_vreceiver db"

definition table_info :: "TableConfig \<Rightarrow> TableInfo" where
  "table_info c = \<lparr>ti_update_size = tcf_vsize c, ti_vadd_func = tcf_vadd_func c, ti_loop = tcf_loop c,
     ti_apply_updates = tcf_apply_updates c\<rparr>"

text \<open>Nothing has been started.\<close>

definition db_unstarted :: "QuiltDB \<Rightarrow> bool" where
  "db_unstarted db \<longleftrightarrow> p_state (q_hpropagator db) = P_INIT \<and> p_state (q_vpropagator db) = P_INIT \<and>
     r_state (q_hreceiver db) = R_INIT \<and> r_state (q_vreceiver db) = R_INIT"

text \<open>
  The directory of a database and the tables its threads know, for the calls \<open>cs\<close>: per call a
  table with the call's configuration, known to the threads of its direction and to no other.
\<close>

definition tables_ok :: "cbk_ptr \<Rightarrow> create_call list \<Rightarrow> QuiltDB \<Rightarrow> bool" where
  "tables_ok old cs db \<longleftrightarrow>
     fst ` set (q_table_dir db) = call_id ` set cs \<and>
     (\<forall>d. fst ` set (p_table_dir (dir_prop d db)) = call_id ` {c \<in> set cs. call_dir c = d} \<and>
          fst ` set (r_table_dir (dir_recv d db)) = call_id ` {c \<in> set cs. call_dir c = d}) \<and>
     (\<forall>c \<in> set cs.
        um_find (call_id c) (q_table_dir db) = Some (call_id c) \<and>
        q_heap db (call_id c) =
          Some ((InternalTable_ctor old (call_id c) (call_config c))\<lparr>it_propagator := Some (call_dir c)\<rparr>) \<and>
        um_find (call_id c) (p_table_dir (dir_prop (call_dir c) db)) = Some (table_info (call_config c)) \<and>
        um_find (call_id c) (r_table_dir (dir_recv (call_dir c) db)) = Some (call_id c))"

lemma prop_ptr_all: "(\<forall>d. P d) \<longleftrightarrow> P HPropagator \<and> P VPropagator"
  by (metis prop_ptr.exhaust)

lemmas make_table_defs = CreateHTable_def CreateVTable_def CreateTable_def Receiver_RegisterTable_def
  Propagator_RegisterTable_def InternalTable_GetID_def InternalTable_ctor_def set_propagator_def table_info_def

lemma image_put: "fst ` set (um_put k v m) = insert k (fst ` set m)"
  using set_um_keys_put [of k v m] by simp

text \<open>A call with a new id.\<close>

lemma make_table_new:
  assumes "db_unstarted db" and "um_find (call_id c) (q_table_dir db) = None"
  shows "\<exists>db'. make_table old tb c db = Inr (\<lparr>tb_internal_table = call_id c\<rparr>, db') \<and> db_unstarted db' \<and>
    q_table_dir db' = um_put (call_id c) (call_id c) (q_table_dir db) \<and>
    q_heap db' = (q_heap db)(call_id c \<mapsto>
      (InternalTable_ctor old (call_id c) (call_config c))\<lparr>it_propagator := Some (call_dir c)\<rparr>) \<and>
    (\<forall>d. p_table_dir (dir_prop d db') = (if d = call_dir c
           then um_put (call_id c) (table_info (call_config c)) (p_table_dir (dir_prop d db)) else p_table_dir (dir_prop d db)) \<and>
         r_table_dir (dir_recv d db') = (if d = call_dir c
           then um_put (call_id c) (call_id c) (r_table_dir (dir_recv d db)) else r_table_dir (dir_recv d db)))"
  using assms
  by (cases c) (simp_all add: make_table_defs db_unstarted_def prop_ptr_all)

lemma tables_ok_step:
  assumes "tables_ok old cs db" and "call_id c \<notin> call_id ` set cs"
    and "q_table_dir db' = um_put (call_id c) (call_id c) (q_table_dir db)"
    and "q_heap db' = (q_heap db)(call_id c \<mapsto>
      (InternalTable_ctor old (call_id c) (call_config c))\<lparr>it_propagator := Some (call_dir c)\<rparr>)"
    and "\<And>d. p_table_dir (dir_prop d db') = (if d = call_dir c
           then um_put (call_id c) (table_info (call_config c)) (p_table_dir (dir_prop d db)) else p_table_dir (dir_prop d db))"
    and "\<And>d. r_table_dir (dir_recv d db') = (if d = call_dir c
           then um_put (call_id c) (call_id c) (r_table_dir (dir_recv d db)) else r_table_dir (dir_recv d db))"
  shows "tables_ok old (cs @ [c]) db'"
proof -
  have set: "{x \<in> set (cs @ [c]). call_dir x = d} =
      (if d = call_dir c then insert c {x \<in> set cs. call_dir x = d} else {x \<in> set cs. call_dir x = d})" for d
    by auto
  have other: "call_id x \<noteq> call_id c" if "x \<in> set cs" for x using assms(2) that by (metis imageI)
  show ?thesis
    using assms(1) other unfolding tables_ok_def set assms(3-6)
    by (simp add: image_put) metis
qed

lemma make_tables_ok:
  assumes "tables_ok old done db" and "db_unstarted db" and "distinct (map call_id (done @ cs))"
  shows "\<exists>db'. make_tables old tb cs db = Inr db' \<and> tables_ok old (done @ cs) db' \<and> db_unstarted db'"
  using assms
proof (induction cs arbitrary: "done" db)
  case Nil
  then show ?case by simp
next
  case (Cons c cs)
  have new: "call_id c \<notin> call_id ` set done" using Cons.prems(3) by auto
  then have "um_find (call_id c) (q_table_dir db) = None"
    using Cons.prems(1) by (simp add: tables_ok_def map_of_eq_None_iff)
  from make_table_new [OF Cons.prems(2) this, of old tb] obtain db1 where
    db1: "make_table old tb c db = Inr (\<lparr>tb_internal_table = call_id c\<rparr>, db1)" "db_unstarted db1"
    and step: "q_table_dir db1 = um_put (call_id c) (call_id c) (q_table_dir db)"
    "q_heap db1 = (q_heap db)(call_id c \<mapsto>
      (InternalTable_ctor old (call_id c) (call_config c))\<lparr>it_propagator := Some (call_dir c)\<rparr>)"
    "\<And>d. p_table_dir (dir_prop d db1) = (if d = call_dir c
           then um_put (call_id c) (table_info (call_config c)) (p_table_dir (dir_prop d db)) else p_table_dir (dir_prop d db))"
    "\<And>d. r_table_dir (dir_recv d db1) = (if d = call_dir c
           then um_put (call_id c) (call_id c) (r_table_dir (dir_recv d db)) else r_table_dir (dir_recv d db))"
    by blast
  have "tables_ok old (done @ [c]) db1" by (rule tables_ok_step [OF Cons.prems(1) new step])
  from Cons.IH [OF this db1(2)] Cons.prems(3) show ?case by (simp add: db1(1))
qed

lemma fresh_db:
  "db_unstarted (QuiltDB_ctor pinfo rinfo signaled config)" "tables_ok old [] (QuiltDB_ctor pinfo rinfo signaled config)"
  by (simp_all add: db_unstarted_def tables_ok_def QuiltDB_ctor_def Propagator_ctor_def Receiver_ctor_def prop_ptr_all)

text \<open>
  C29: any sequence of calls that make tables with different ids, in a new database, succeeds;
  afterwards every table has its configuration, points to the propagator of its
  direction, and is known under its id to the propagator and the receiver of this direction
  and to those of the other direction not at all.
\<close>

theorem tables_registered:
  assumes "CreateQuiltDB pinfo rinfo signaled True config None = Inr db0"
    and "distinct (map call_id cs)"
  shows "\<exists>db. make_tables old tb cs db0 = Inr db \<and> tables_ok old cs db"
proof -
  have "db_unstarted db0" "tables_ok old [] db0"
    using assms(1) fresh_db(1) [of pinfo rinfo signaled config] fresh_db(2) [of old pinfo rinfo signaled config]
    by (auto simp: CreateQuiltDB_def db_unstarted_def tables_ok_def prop_ptr_all)
  from make_tables_ok [OF this(2,1)] assms(2) show ?thesis by auto
qed

definition sample_config :: TableConfig where
  "sample_config = \<lparr>tcf_vsize = 4, tcf_vadd_func = IntAdd, tcf_vsub_func = IntSub, tcf_loop = True,
     tcf_apply_updates = True, tcf_forward_updates = True, tcf_do_user_cbk = False, tcf_update_buff_cbk = 0\<rparr>"

definition sample_info :: "i32 \<Rightarrow> NodeInfo" where
  "sample_info nid = \<lparr>ni_node_id = nid, ni_recv_pull_ip = ''10.0.0.1'', ni_recv_pull_port = ''9000'',
     ni_recv_push_ip = ''10.0.0.1'', ni_recv_push_port = ''9001''\<rparr>"

definition sample_dbconfig :: "i32 \<Rightarrow> i32 \<Rightarrow> DBConfig" where
  "sample_dbconfig h v = \<lparr>db_my_hid = 0, db_my_hrecv_info = sample_info 0, db_hnode_prop_downstream = sample_info 1,
     db_hexpected_prop = 1, db_my_vid = 0, db_my_vrecv_info = sample_info 0, db_vnode_prop_downstream = sample_info 2,
     db_vexpected_prop = 1, db_hbatch_nanosec = h, db_vbatch_nanosec = v\<rparr>"

definition sample_pinfo :: PropagatorThrInfo where
  "sample_pinfo = \<lparr>pt_my_id = 0, pt_nanosec = 0, pt_downstream_recv = sample_info 0,
     pt_internal_pair_p2r_endp = [], pt_internal_pair_r2p_endp = []\<rparr>"

definition sample_rinfo :: ReceiverThrInfo where
  "sample_rinfo = \<lparr>rt_my_id = 0, rt_my_info = sample_info 0, rt_num_expected_propagators = 0,
     rt_update_push_endp = [], rt_internal_recv_pull_endp = [], rt_internal_pair_recv_push_endp = []\<rparr>"

definition sample_db :: "i32 \<Rightarrow> i32 \<Rightarrow> QuiltDB" where
  "sample_db h v = QuiltDB_ctor sample_pinfo sample_rinfo False (sample_dbconfig h v)"

lemmas sample_db_defs = sample_db_def sample_dbconfig_def sample_pinfo_def sample_rinfo_def sample_info_def
  QuiltDB_ctor_def Propagator_ctor_def Receiver_ctor_def

theorem tables_registered_witness:
  "\<exists>db. make_tables 0 \<lparr>tb_internal_table = 77\<rparr> [MakeH 1 sample_config, MakeV 2 sample_config]
       ((sample_db 100 100)\<lparr>q_zmq_ctx := True\<rparr>) = Inr db \<and>
     tables_ok 0 [MakeH 1 sample_config, MakeV 2 sample_config] db"
  by (rule tables_registered [of sample_pinfo sample_rinfo False "sample_dbconfig 100 100"])
     (simp_all add: CreateQuiltDB_def sample_db_def)

text \<open>
  A second table with the same id. The horizontal call stops at its check. The vertical call
  goes on with the pointer of the new, uninitialised \<open>Table\<close>: a pointer to no table faults, and
  a pointer that happens to be some table moves this table to the vertical direction.
\<close>

theorem duplicate_table_id:
  assumes "um_find tid (q_table_dir db) \<noteq> None"
  shows "CreateHTable old tb tid c db = Inl (Check_failed ''CreateTable Failed'') \<and>
    (q_heap db (tb_internal_table tb) = None \<longrightarrow> CreateVTable old tb tid c db = Inl Null_pointer) \<and>
    (\<forall>it. q_heap db (tb_internal_table tb) = Some it \<longrightarrow> r_state (q_vreceiver db) = R_INIT \<longrightarrow>
       (\<exists>db'. CreateVTable old tb tid c db = Inr (tb, db') \<and>
          q_heap db' (tb_internal_table tb) = Some (it\<lparr>it_propagator := Some VPropagator\<rparr>) \<and>
          q_table_dir db' = q_table_dir db))"
  using assms by (auto simp: make_table_defs Let_def)

theorem duplicate_table_id_witness:
  "\<exists>db db'. CreateHTable 0 \<lparr>tb_internal_table = 77\<rparr> 1 sample_config db = Inl (Check_failed ''CreateTable Failed'') \<and>
     CreateVTable 0 \<lparr>tb_internal_table = 77\<rparr> 1 sample_config db = Inl Null_pointer \<and>
     CreateVTable 0 \<lparr>tb_internal_table = 1\<rparr> 1 sample_config db = Inr (\<lparr>tb_internal_table = 1\<rparr>, db') \<and>
     map_option it_propagator (q_heap db' 1) = Some (Some VPropagator)"
proof -
  obtain tb db where db: "CreateHTable 0 \<lparr>tb_internal_table = 77\<rparr> 1 sample_config (sample_db 100 100) = Inr (tb, db)"
    by (simp add: make_table_defs sample_db_defs)
  then have *: "um_find 1 (q_table_dir db) \<noteq> None" "r_state (q_vreceiver db) = R_INIT" "q_heap db 77 = None" "q_heap db 1 \<noteq> None"
    by (auto simp: make_table_defs sample_db_defs)
  from *(4) obtain it where it: "q_heap db 1 = Some it" by blast
  obtain db' where "CreateVTable 0 \<lparr>tb_internal_table = 1\<rparr> 1 sample_config db = Inr (\<lparr>tb_internal_table = 1\<rparr>, db')"
    "q_heap db' 1 = Some (it\<lparr>it_propagator := Some VPropagator\<rparr>)"
    using duplicate_table_id [OF *(1), of 0 "\<lparr>tb_internal_table = 1\<rparr>" sample_config] *(2) it by auto
  with duplicate_table_id [OF *(1), of 0 "\<lparr>tb_internal_table = 77\<rparr>" sample_config] *(3) show ?thesis
    by (intro exI [of _ db] exI [of _ db']) simp
qed

section \<open>Start\<close>

fun bound_endp :: "sock_op \<Rightarrow> string list" where
  "bound_endp (Bind ty endp) = [endp]"
| "bound_endp _ = []"

fun connected_endp :: "sock_op \<Rightarrow> string list" where
  "connected_endp (Connect ty endp) = [endp]"
| "connected_endp _ = []"

definition bound_endps :: "sock_op list \<Rightarrow> string list" where
  "bound_endps ops = concat (map bound_endp ops)"

definition connected_endps :: "sock_op list \<Rightarrow> string list" where
  "connected_endps ops = concat (map connected_endp ops)"

definition is_inproc :: "string \<Rightarrow> bool" where
  "is_inproc endp \<longleftrightarrow> take 9 endp = ''inproc://''"

text \<open>
  The sockets of a propagator and a receiver fit: what the receiver connects to is bound by
  the propagator, what the propagator connects to for its own updates is bound by the
  receiver, and so are the endpoints the application threads connect to.
\<close>

definition pair_fits :: "Propagator \<Rightarrow> Receiver \<Rightarrow> bool" where
  "pair_fits p r \<longleftrightarrow>
     set (connected_endps (recv_socks r)) \<subseteq> set (bound_endps (prop_socks p)) \<and>
     pt_internal_pair_p2r_endp (p_thrinfo p) \<in> set (bound_endps (recv_socks r)) \<and>
     p_update_pull_endp p \<in> set (bound_endps (prop_socks p)) \<and>
     r_internal_recv_pull_endp r \<in> set (bound_endps (recv_socks r))"

text \<open>The database with the configurations handed to its four threads.\<close>

definition started_prop :: "PropagatorConfig \<Rightarrow> Propagator \<Rightarrow> Propagator" where
  "started_prop c p =
     p\<lparr>p_update_pull_endp := pc_update_pull_endp c,
       p_thrinfo := \<lparr>pt_my_id = pc_my_id c, pt_nanosec = pc_nanosec c, pt_downstream_recv = pc_downstream_recv c,
         pt_internal_pair_p2r_endp = pc_internal_pair_p2r_endp c, pt_internal_pair_r2p_endp = pc_internal_pair_r2p_endp c\<rparr>\<rparr>"

definition started_recv :: "ReceiverConfig \<Rightarrow> Receiver \<Rightarrow> Receiver" where
  "started_recv c r =
     r\<lparr>r_internal_recv_pull_endp := rc_internal_recv_pull_endp c,
       r_thrinfo := \<lparr>rt_my_id = rc_my_id c, rt_my_info = rc_my_info c,
         rt_num_expected_propagators = rc_num_expected_propagators c, rt_update_push_endp = rc_update_push_endp c,
         rt_internal_recv_pull_endp = rc_internal_recv_pull_endp c,
         rt_internal_pair_recv_push_endp = rc_internal_pair_recv_push_endp c\<rparr>\<rparr>"

definition started_db :: "QuiltDB \<Rightarrow> QuiltDB" where
  "started_db db =
     db\<lparr>q_started := True,
       q_hpropagator := started_prop (hprop_config (q_config db)) (q_hpropagator db),
       q_hreceiver := started_recv (hrecv_config (q_config db)) (q_hreceiver db),
       q_vpropagator := started_prop (vprop_config (q_config db)) (q_vpropagator db),
       q_vreceiver := started_recv (vrecv_config (q_config db)) (q_vreceiver db)\<rparr>"

lemmas started_defs = started_db_def started_prop_def started_recv_def

lemma start_iff:
  assumes "db_unstarted db"
  shows "QuiltDB_Start rets posts db = Inr (ret, db') \<longleftrightarrow>
    rets = (0, 0, 0, 0) \<and> 4 \<le> posts \<and> ret = 0 \<and> db' = started_db db"
  using assms
  by (cases rets) (auto simp: QuiltDB_Start_def db_unstarted_def Propagator_Start_def Receiver_Start_def Let_def
      bindR_Inr_iff started_defs split: if_split_asm)

lemma not_inproc_tcp: "\<not> is_inproc (tcp_endp ip port)"
  by (simp add: is_inproc_def tcp_endp_def)

lemma inproc_bound:
  "filter is_inproc (bound_endps (prop_socks p)) =
     filter is_inproc [p_update_pull_endp p, pt_internal_pair_r2p_endp (p_thrinfo p)]"
  "filter is_inproc (bound_endps (recv_socks r)) = filter is_inproc [rt_internal_recv_pull_endp (r_thrinfo r)]"
  by (simp_all add: prop_socks_def recv_socks_def bound_endps_def not_inproc_tcp Let_def)

lemma pair_fitsI:
  "rt_internal_pair_recv_push_endp (r_thrinfo r) = pt_internal_pair_r2p_endp (p_thrinfo p) \<Longrightarrow>
   rt_update_push_endp (r_thrinfo r) = p_update_pull_endp p \<Longrightarrow>
   pt_internal_pair_p2r_endp (p_thrinfo p) = rt_internal_recv_pull_endp (r_thrinfo r) \<Longrightarrow>
   r_internal_recv_pull_endp r = rt_internal_recv_pull_endp (r_thrinfo r) \<Longrightarrow> pair_fits p r"
  by (auto simp: pair_fits_def prop_socks_def recv_socks_def bound_endps_def connected_endps_def Let_def)

lemma started_pairs_fit:
  "pair_fits (q_hpropagator (started_db db)) (q_hreceiver (started_db db))"
  "pair_fits (q_vpropagator (started_db db)) (q_vreceiver (started_db db))"
  by (rule pair_fitsI; simp add: started_defs hprop_config_def hrecv_config_def vprop_config_def vrecv_config_def
      KHINTERNAL_PAIR_P2R_ENDP_def KHINTERNAL_PAIR_R2P_ENDP_def KVINTERNAL_PAIR_P2R_ENDP_def KVINTERNAL_PAIR_R2P_ENDP_def)+

lemma inproc_endps_distinct:
  "distinct [KHPROP_UPDATE_PULL_ENDP, KHINTERNAL_PAIR_R2P_ENDP, KHINTERNAL_RECV_PULL_ENDP,
     KVPROP_UPDATE_PULL_ENDP, KVINTERNAL_PAIR_R2P_ENDP, KVINTERNAL_RECV_PULL_ENDP]"
  by (simp add: endp_defs)

text \<open>
  C30: when \<open>Start\<close> of a database with no thread running returns, all four threads have
  posted the semaphore; in each direction the sockets of the propagator and the
  receiver fit together, and no in-process endpoint is bound twice among the four threads,
  so that no message of one direction can reach the other.
\<close>

theorem start_wires_threads:
  assumes "db_unstarted db" and "QuiltDB_Start rets posts db = Inr (ret, db')"
  shows "ret = 0 \<and> 4 \<le> posts \<and>
    pair_fits (q_hpropagator db') (q_hreceiver db') \<and> pair_fits (q_vpropagator db') (q_vreceiver db') \<and>
    distinct (filter is_inproc (bound_endps (prop_socks (q_hpropagator db')) @ bound_endps (recv_socks (q_hreceiver db')) @
      bound_endps (prop_socks (q_vpropagator db')) @ bound_endps (recv_socks (q_vreceiver db'))))"
proof -
  have db': "ret = 0" "4 \<le> posts" "db' = started_db db" using assms(2) by (auto simp: start_iff [OF assms(1)])
  have "filter is_inproc (bound_endps (prop_socks (q_hpropagator db')) @ bound_endps (recv_socks (q_hreceiver db')) @
      bound_endps (prop_socks (q_vpropagator db')) @ bound_endps (recv_socks (q_vreceiver db'))) =
    filter is_inproc [KHPROP_UPDATE_PULL_ENDP, KHINTERNAL_PAIR_R2P_ENDP, KHINTERNAL_RECV_PULL_ENDP,
     KVPROP_UPDATE_PULL_ENDP, KVINTERNAL_PAIR_R2P_ENDP, KVINTERNAL_RECV_PULL_ENDP]"
    unfolding filter_append inproc_bound db'(3)
    by (simp add: started_defs hprop_config_def hrecv_config_def vprop_config_def vrecv_config_def)
  then show ?thesis
    using db' started_pairs_fit [of db] distinct_filter [OF inproc_endps_distinct, of is_inproc] by simp
qed

theorem start_wires_threads_witness:
  "\<exists>db'. QuiltDB_Start (0, 0, 0, 0) 4 (sample_db 100 100) = Inr (0, db') \<and>
     pair_fits (q_vpropagator db') (q_vreceiver db')"
proof -
  have "db_unstarted (sample_db 100 100)" unfolding sample_db_def by (rule fresh_db)
  then have "QuiltDB_Start (0, 0, 0, 0) 4 (sample_db 100 100) = Inr (0, started_db (sample_db 100 100))"
    by (simp add: start_iff)
  with start_wires_threads [OF \<open>db_unstarted (sample_db 100 100)\<close> this] show ?thesis by blast
qed

text \<open>
  The vertical propagator is given the horizontal batch interval; \<open>vbatch_nanosec_\<close> is
  not read. With a horizontal interval of at most 0 the vertical thread therefore sends no
  update buffer and does not end, whatever the vertical interval.
\<close>

theorem vertical_interval_ignored:
  assumes "db_unstarted db" and "QuiltDB_Start rets posts db = Inr (ret, db')"
    and "db_hbatch_nanosec (q_config db) <=s 0"
    and "prop_thr_start zs tid pair_in sub_in (q_vpropagator db') = Inr (p, t, sent, rest)"
    and "\<forall>e \<in> set es. \<exists>timer upd trm. prop_poll p timer upd trm = Some e"
    and "prop_run zs junk es p t = Inr (p', t', acts)"
  shows "p_state p' \<noteq> P_TERM \<and> (\<forall>a \<in> set acts. \<not> sends_buffer a)"
proof (rule no_timer_run [OF assms(6)])
  have "p_nanosec (q_vpropagator db') = db_hbatch_nanosec (q_config db)"
    using assms(2) by (simp add: start_iff [OF assms(1)] started_defs vprop_config_def hprop_config_def)
  moreover have "p_nanosec p = p_nanosec (q_vpropagator db')"
    using assms(4) by (auto simp: prop_thr_start_def Let_def bindR_Inr_iff set_timer_endps_def)
  ultimately have "p_nanosec p <=s 0" using assms(3) by simp
  then show "\<forall>e \<in> set es. \<not> is_timer e" using assms(5) prop_poll_no_timer by blast
qed (use prop_thr_start_inv [OF assms(4)] in \<open>auto simp: prop_thr_init_def\<close>)

theorem vertical_interval_ignored_witness:
  "\<exists>db' p t sent rest p' t' acts.
     QuiltDB_Start (0, 0, 0, 0) 4 (sample_db 0 100) = Inr (0, db') \<and>
     prop_thr_start zmq_ok ''7'' [EPRInit] [PropInitACK, PropStart] (q_vpropagator db') = Inr (p, t, sent, rest) \<and>
     prop_run zmq_ok (\<lambda>_. 0) [PUpdate (MPlain EPInternalTerminate), PUpdate (MPlain EPRecvInternalTerminateACK),
       PTerm EPRTerminate] p t = Inr (p', t', acts) \<and> p_state p' \<noteq> P_TERM"
proof -
  let ?es = "[PUpdate (MPlain EPInternalTerminate), PUpdate (MPlain EPRecvInternalTerminateACK), PTerm EPRTerminate]"
  have un: "db_unstarted (sample_db 0 100)" unfolding sample_db_def by (rule fresh_db)
  let ?db = "started_db (sample_db 0 100)"
  have db': "QuiltDB_Start (0, 0, 0, 0) 4 (sample_db 0 100) = Inr (0, ?db)"
    by (simp add: start_iff [OF un])
  have vp: "q_vpropagator ?db = (Propagator_ctor \<lparr>pt_my_id = 0, pt_nanosec = 0,
      pt_downstream_recv = sample_info 2, pt_internal_pair_p2r_endp = KVINTERNAL_PAIR_P2R_ENDP,
      pt_internal_pair_r2p_endp = KVINTERNAL_PAIR_R2P_ENDP\<rparr>)\<lparr>p_update_pull_endp := KVPROP_UPDATE_PULL_ENDP\<rparr>"
    by (simp add: started_defs sample_db_defs vprop_config_def hprop_config_def)
  obtain p t sent rest where s: "prop_thr_start zmq_ok ''7'' [EPRInit] [PropInitACK, PropStart] (q_vpropagator ?db) = Inr (p, t, sent, rest)"
    and p: "p = set_timer_endps ''7'' (q_vpropagator ?db)\<lparr>p_state := P_RUN\<rparr>" and t: "t = prop_thr_init (q_vpropagator ?db)"
    by (simp add: vp prop_thr_start_def prop_handshake_def sample_info_def Propagator_ctor_def set_timer_endps_def Let_def word_sless_alt)
  obtain p' t' acts where r: "prop_run zmq_ok (\<lambda>_. 0) ?es p t = Inr (p', t', acts)"
    by (simp add: p t vp sample_simps sample_info_def ensure_pair_sock_def)
  have "prop_poll p None None (Some EPRTerminate) = Some (PTerm EPRTerminate)"
    "\<And>m. prop_poll p None (Some m) None = Some (PUpdate m)"
    by (simp_all add: prop_poll_def p vp sample_simps sample_info_def)
  then have e: "\<forall>e \<in> set ?es. \<exists>timer upd trm. prop_poll p timer upd trm = Some e" by fastforce
  have h: "db_hbatch_nanosec (q_config (sample_db 0 100)) <=s 0" by (simp add: sample_db_defs)
  from vertical_interval_ignored [OF un db' h s e r] db' s r show ?thesis by blast
qed

section \<open>Registering threads\<close>

definition db_running :: "QuiltDB \<Rightarrow> bool" where
  "db_running db \<longleftrightarrow> p_state (q_hpropagator db) = P_RUN \<and> p_state (q_vpropagator db) = P_RUN \<and>
     r_state (q_hreceiver db) = R_RUN \<and> r_state (q_vreceiver db) = R_RUN"

definition db_thr_sets :: "QuiltDB \<Rightarrow> nat set \<times> nat set" where
  "db_thr_sets db = (p_update_push_sock (q_hpropagator db), p_update_push_sock (q_vpropagator db))"

lemma Propagator_deregister_register:
  "Propagator_RegisterThr zs thr p = (0, p1) \<Longrightarrow> Propagator_DeregisterThr thr p1 = (0, p)"
  by (cases p) (auto simp: Propagator_RegisterThr_def Propagator_DeregisterThr_def Let_def split: if_split_asm)

text \<open>
  C34: a thread that registered and deregisters leaves the database as it was; while it is
  registered it holds a socket in both directions. A registration that fails in the vertical
  direction leaves the thread registered horizontally, so that every later attempt fails
  too until the thread deregisters.
\<close>

theorem register_deregister:
  "(QuiltDB_RegisterThr zs thr db = (0, db1) \<longrightarrow>
      thr \<in> fst (db_thr_sets db1) \<inter> snd (db_thr_sets db1) \<and> QuiltDB_DeregisterThr thr db1 = (0, db)) \<and>
   (Propagator_RegisterThr zs thr (q_hpropagator db) = (0, hp) \<longrightarrow>
    Propagator_RegisterThr zs thr (q_vpropagator db) = (-1, vp) \<longrightarrow>
      QuiltDB_RegisterThr zs thr db = (-1, db\<lparr>q_hpropagator := hp, q_vpropagator := vp\<rparr>) \<and>
      fst (QuiltDB_RegisterThr zs' thr (db\<lparr>q_hpropagator := hp, q_vpropagator := vp'\<rparr>)) = -1)"
proof (intro conjI impI)
  assume r: "QuiltDB_RegisterThr zs thr db = (0, db1)"
  obtain a hp' where h: "Propagator_RegisterThr zs thr (q_hpropagator db) = (a, hp')" by fastforce
  obtain b vp' where v: "Propagator_RegisterThr zs thr (q_vpropagator db) = (b, vp')" by fastforce
  have ab: "a \<in> {0, -1}" "b \<in> {0, -1}"
    using h v by (auto simp: Propagator_RegisterThr_def Let_def split: if_split_asm)
  with r h v have z: "a = 0" "b = 0" and db1: "db1 = db\<lparr>q_hpropagator := hp', q_vpropagator := vp'\<rparr>"
    by (auto simp: QuiltDB_RegisterThr_def Let_def split: if_split_asm)
  show "thr \<in> fst (db_thr_sets db1) \<inter> snd (db_thr_sets db1)"
    using h v z by (auto simp: db1 db_thr_sets_def Propagator_RegisterThr_def Let_def split: if_split_asm)
  show "QuiltDB_DeregisterThr thr db1 = (0, db)"
    using Propagator_deregister_register [OF h [unfolded z]] Propagator_deregister_register [OF v [unfolded z]]
    by (simp add: QuiltDB_DeregisterThr_def db1)
qed (auto simp: QuiltDB_RegisterThr_def Propagator_RegisterThr_def Let_def split: if_split_asm)

lemma started_sample_regs:
  fixes db defines "db \<equiv> (sample_db 100 100)\<lparr>q_hpropagator := (Propagator_ctor sample_pinfo)\<lparr>p_state := P_RUN\<rparr>,
    q_vpropagator := (Propagator_ctor sample_pinfo)\<lparr>p_state := P_RUN\<rparr>\<rparr>"
  shows "\<exists>db1. QuiltDB_RegisterThr zmq_ok 3 db = (0, db1)"
  by (simp add: db_def QuiltDB_RegisterThr_def Propagator_RegisterThr_def Propagator_ctor_def)

theorem register_deregister_witness:
  "\<exists>db db1. QuiltDB_RegisterThr zmq_ok 3 db = (0, db1) \<and> QuiltDB_DeregisterThr 3 db1 = (0, db) \<and>
     fst (QuiltDB_RegisterThr (zmq_ok\<lparr>zl_connect := (\<lambda>e. e = [])\<rparr>) 3 (db\<lparr>q_vpropagator := (q_vpropagator db)\<lparr>p_update_pull_endp := ''x''\<rparr>\<rparr>)) = -1"
proof -
  let ?db = "(sample_db 100 100)\<lparr>q_hpropagator := (Propagator_ctor sample_pinfo)\<lparr>p_state := P_RUN\<rparr>,
    q_vpropagator := (Propagator_ctor sample_pinfo)\<lparr>p_state := P_RUN\<rparr>\<rparr>"
  let ?zs = "zmq_ok\<lparr>zl_connect := (\<lambda>e. e = [])\<rparr>" and ?db' = "?db\<lparr>q_vpropagator := (q_vpropagator ?db)\<lparr>p_update_pull_endp := ''x''\<rparr>\<rparr>"
  obtain db1 where 1: "QuiltDB_RegisterThr zmq_ok 3 ?db = (0, db1)" using started_sample_regs by blast
  obtain hp vp where 2: "Propagator_RegisterThr ?zs 3 (q_hpropagator ?db') = (0, hp)"
    "Propagator_RegisterThr ?zs 3 (q_vpropagator ?db') = (-1, vp)"
    by (simp add: Propagator_RegisterThr_def Propagator_ctor_def zmq_ok_def)
  have "QuiltDB_DeregisterThr 3 db1 = (0, ?db)"
    using register_deregister [of zmq_ok 3 ?db db1] 1 by blast
  moreover have "fst (QuiltDB_RegisterThr ?zs 3 ?db') = -1"
    using register_deregister [of ?zs 3 ?db'] 2 by auto
  ultimately show ?thesis using 1 by blast
qed

section \<open>Shutdown\<close>

text \<open>The four messages that ask the threads to end.\<close>

definition signaled_db :: "QuiltDB \<Rightarrow> QuiltDB" where
  "signaled_db db =
     (let ps = (\<lambda>p. p\<lparr>p_update_queue := p_update_queue p @ [MPlain EPInternalTerminate], p_have_signaled_term := True\<rparr>);
          rs = (\<lambda>r. r\<lparr>r_internal_queue := r_internal_queue r @ [RPlain ERInternalTerminate], r_have_signaled_term := True\<rparr>)
      in db\<lparr>q_hpropagator := ps (q_hpropagator db), q_hreceiver := rs (q_hreceiver db),
            q_vpropagator := ps (q_vpropagator db), q_vreceiver := rs (q_vreceiver db)\<rparr>)"

definition db_ended :: "QuiltDB \<Rightarrow> bool" where
  "db_ended db \<longleftrightarrow> p_state (q_hpropagator db) = P_TERM \<and> p_state (q_vpropagator db) = P_TERM \<and>
     r_state (q_hreceiver db) = R_TERM \<and> r_state (q_vreceiver db) = R_TERM"

text \<open>
  What running threads do to the database: they do not go back to INIT and leave the
  flag that a signal was sent alone.
\<close>

definition threads_ran :: "QuiltDB \<Rightarrow> QuiltDB \<Rightarrow> bool" where
  "threads_ran db db' \<longleftrightarrow>
     (\<forall>d. p_state (dir_prop d db') \<noteq> P_INIT \<and> r_state (dir_recv d db') \<noteq> R_INIT \<and>
          p_have_signaled_term (dir_prop d db') = p_have_signaled_term (dir_prop d db) \<and>
          r_have_signaled_term (dir_recv d db') = r_have_signaled_term (dir_recv d db))"

lemma signal_all_ok:
  assumes "db_running db" and "thr \<in> fst (db_thr_sets db) \<inter> snd (db_thr_sets db)"
  shows "signal_all zmq_ok thr db = Inr (signaled_db db)"
  using assms
  by (auto simp: signal_all_def signaled_db_def db_running_def db_thr_sets_def Propagator_SignalTerm_def
      Receiver_SignalTerm_def InitThrSockIfHaveNot_def Let_def)

text \<open>
  C18: called by a registered thread on a running database, \<open>ShutDown\<close> sends each of the four
  threads its message to end, and then returns exactly when all four threads have ended;
  as long as one has not, it does not return.
\<close>

theorem shutdown_waits_for_all:
  assumes "db_running db" and "thr \<in> fst (db_thr_sets db) \<inter> snd (db_thr_sets db)"
    and "threads_ran (signaled_db db) (threads (signaled_db db))"
  shows "ShutDown zmq_ok thr threads db =
    (if db_ended (threads (signaled_db db)) then Inr (0, threads (signaled_db db)) else Inl Blocked)"
  using assms(3)
  by (auto simp: ShutDown_def signal_all_ok [OF assms(1,2)] wait_all_def Propagator_WaitTerm_def Receiver_WaitTerm_def
      db_ended_def threads_ran_def prop_ptr_all signaled_db_def Let_def)

definition running_db :: QuiltDB where
  "running_db = (sample_db 100 100)
     \<lparr>q_hpropagator := (Propagator_ctor sample_pinfo)\<lparr>p_state := P_RUN, p_update_push_sock := {3}\<rparr>,
      q_vpropagator := (Propagator_ctor sample_pinfo)\<lparr>p_state := P_RUN, p_update_push_sock := {3}\<rparr>,
      q_hreceiver := (Receiver_ctor sample_rinfo False)\<lparr>r_state := R_RUN\<rparr>,
      q_vreceiver := (Receiver_ctor sample_rinfo False)\<lparr>r_state := R_RUN\<rparr>\<rparr>"

definition end_threads :: "QuiltDB \<Rightarrow> QuiltDB" where
  "end_threads db = db\<lparr>q_hpropagator := (q_hpropagator db)\<lparr>p_state := P_TERM\<rparr>,
     q_vpropagator := (q_vpropagator db)\<lparr>p_state := P_TERM\<rparr>, q_hreceiver := (q_hreceiver db)\<lparr>r_state := R_TERM\<rparr>,
     q_vreceiver := (q_vreceiver db)\<lparr>r_state := R_TERM\<rparr>\<rparr>"

theorem shutdown_waits_for_all_witness:
  "ShutDown zmq_ok 3 end_threads running_db = Inr (0, end_threads (signaled_db running_db)) \<and>
   ShutDown zmq_ok 3 (\<lambda>db. db) running_db = Inl Blocked"
proof -
  have run: "db_running running_db" "3 \<in> fst (db_thr_sets running_db) \<inter> snd (db_thr_sets running_db)"
    by (simp_all add: db_running_def db_thr_sets_def running_db_def)
  have "threads_ran (signaled_db running_db) (end_threads (signaled_db running_db))"
    "threads_ran (signaled_db running_db) (signaled_db running_db)"
    by (simp_all add: threads_ran_def prop_ptr_all signaled_db_def running_db_def end_threads_def)
  with shutdown_waits_for_all [OF run, of end_threads] shutdown_waits_for_all [OF run, of "\<lambda>db. db"] show ?thesis
    by (simp add: db_ended_def end_threads_def signaled_db_def running_db_def)
qed

text \<open>
  \<open>ShutDown\<close> out of turn: on a database that is not running, or has been shut down already,
  the first check fails; called by a thread that is not registered it uses a null socket.
\<close>

lemma shutdown_errors:
  "(p_state (q_hpropagator db) \<noteq> P_RUN \<longrightarrow>
      ShutDown zs thr threads db = Inl (Check_failed ''hpropagator_.SignalTerm() failed'')) \<and>
   (p_state (q_hpropagator db) = P_RUN \<and> thr \<notin> fst (db_thr_sets db) \<longrightarrow>
      ShutDown zs thr threads db = Inl Null_pointer)"
  by (auto simp: ShutDown_def signal_all_def Propagator_SignalTerm_def db_thr_sets_def)

end
