(* ===== verification/Hello_World.thy ===== *)
theory Hello_World
  imports Quilt_DB_Props Table_Props
begin

text \<open>
  \<open>apps/helloworld/helloworld.cpp\<close>: the program that reads the node's configuration, makes a
  database with one table, increments and reads it until the downstream node's value has
  arrived, and shuts down. Here everything an application calls comes together.
\<close>

section \<open>The program\<close>

record Flags =
  fl_config_file :: string
  fl_myhid :: i32
  fl_myvid :: i32

text \<open>
  What the program does not determine: the YAML library, the values memory held, 0MQ, the
  results of \<open>pthread_create\<close> and how many threads get through their handshakes, the id of the thread. \<open>w_env k\<close> is
  what the threads of the database do before the program's \<open>k\<close>-th call after \<open>Start\<close>, and
  \<open>w_ending\<close> what they do during \<open>ShutDown\<close>.
\<close>

record world =
  w_load_file :: "string \<Rightarrow> yaml_doc option"
  w_junk_nodes :: "nat \<Rightarrow> NodeConfig"
  w_junk_node :: NodeConfig
  w_junk_pinfo :: PropagatorThrInfo
  w_junk_rinfo :: ReceiverThrInfo
  w_junk_signaled :: bool
  w_junk_cbk :: cbk_ptr
  w_junk_table :: Table
  w_ctx_ok :: bool
  w_zmq :: zmq_lib
  w_rets :: "int \<times> int \<times> int \<times> int"
  w_posts :: nat
  w_thr :: nat
  w_env :: "nat \<Rightarrow> QuiltDB \<Rightarrow> QuiltDB"
  w_ending :: "QuiltDB \<Rightarrow> QuiltDB"

definition node_or_fail :: "world \<Rightarrow> string \<Rightarrow> i32 \<Rightarrow> ConfigParser \<Rightarrow> NodeConfig res" where
  "node_or_fail w msg nid cp =
     (let nc = GetNodeInfo (w_junk_node w) nid cp
      in bindR (checkR msg (ni_node_id (nc_node_info nc) = nid)) (\<lambda>_. Inr nc))"

definition hello_dbconfig :: "i32 \<Rightarrow> i32 \<Rightarrow> NodeConfig \<Rightarrow> NodeConfig \<Rightarrow> NodeConfig \<Rightarrow> NodeConfig \<Rightarrow> DBConfig" where
  "hello_dbconfig myhid myvid my_hconfig h_downstream my_vconfig v_downstream =
     \<lparr>db_my_hid = myhid,
      db_my_hrecv_info = nc_node_info my_hconfig,
      db_hnode_prop_downstream = nc_node_info h_downstream,
      db_hexpected_prop = nc_num_expected_props my_hconfig,
      db_my_vid = myvid,
      db_my_vrecv_info = nc_node_info my_vconfig,
      db_vnode_prop_downstream = nc_node_info v_downstream,
      db_vexpected_prop = nc_num_expected_props my_vconfig,
      db_hbatch_nanosec = 500000,
      db_vbatch_nanosec = 500000\<rparr>"

text \<open>The callback of the table's configuration is not set.\<close>

definition hello_tconfig :: "world \<Rightarrow> TableConfig" where
  "hello_tconfig w =
     \<lparr>tcf_vsize = 4, tcf_vadd_func = IntAdd, tcf_vsub_func = IntSub, tcf_loop = True,
      tcf_apply_updates = True, tcf_forward_updates = True, tcf_do_user_cbk = False,
      tcf_update_buff_cbk = w_junk_cbk w\<rparr>"

text \<open>\<open>htable.Get<int>\<close> and \<open>htable.Inc<int>\<close>; the propagator is the one the table points to.\<close>

definition htable_Get :: "Table \<Rightarrow> i64 \<Rightarrow> QuiltDB \<Rightarrow> (i32 \<times> QuiltDB) res" where
  "htable_Get tb key db =
     bindR (Table_Get 4 key tb (q_heap db)) (\<lambda>(v, heap). Inr (le_word v, db\<lparr>q_heap := heap\<rparr>))"

definition htable_Inc :: "world \<Rightarrow> Table \<Rightarrow> i64 \<Rightarrow> i32 \<Rightarrow> QuiltDB \<Rightarrow> QuiltDB res" where
  "htable_Inc w tb key d db =
     (case q_heap db (tb_internal_table tb) of
        None \<Rightarrow> Inl Null_pointer
      | Some it \<Rightarrow>
          (case it_propagator it of
             None \<Rightarrow> Inl Null_pointer
           | Some HPropagator \<Rightarrow>
               bindR (Table_Inc (w_zmq w) (w_thr w) key (i32_bytes d) tb (q_heap db) (q_hpropagator db)) (\<lambda>(heap, p).
               Inr (db\<lparr>q_heap := heap, q_hpropagator := p\<rparr>))
           | Some VPropagator \<Rightarrow>
               bindR (Table_Inc (w_zmq w) (w_thr w) key (i32_bytes d) tb (q_heap db) (q_vpropagator db)) (\<lambda>(heap, p).
               Inr (db\<lparr>q_heap := heap, q_vpropagator := p\<rparr>))))"

text \<open>The loop that waits for the downstream node's value; \<open>cnt\<close> rounds have been done.\<close>

function hello_loop :: "world \<Rightarrow> Table \<Rightarrow> i64 \<Rightarrow> nat \<Rightarrow> QuiltDB \<Rightarrow> (i32 \<times> nat \<times> QuiltDB) res" where
  "hello_loop w tb key cnt db =
     bindR (htable_Get tb key (w_env w (6 + cnt) db)) (\<lambda>(b, db).
     if b = 0 \<and> Suc cnt < 10 then hello_loop w tb key (Suc cnt) db else Inr (b, Suc cnt, db))"
  by pat_completeness auto
termination by (relation "measure (\<lambda>(w, tb, key, cnt, db). 10 - cnt)") auto

declare hello_loop.simps [simp del]

text \<open>The calls after \<open>Start\<close>. The result is what is printed, and the database.\<close>

definition hello_session :: "world \<Rightarrow> i32 \<Rightarrow> i32 \<Rightarrow> Table \<Rightarrow> QuiltDB \<Rightarrow> (i32 list \<times> QuiltDB) res" where
  "hello_session w myhid h_downstream_id htable db =
     (let (ret, db) = QuiltDB_RegisterThr (w_zmq w) (w_thr w) (w_env w 0 db)
      in bindR (checkR ''RegisterThr() failed'' (ret = 0)) (\<lambda>_.
         bindR (htable_Get htable 10 (w_env w 1 db)) (\<lambda>(a, db).
         bindR (htable_Inc w htable (scast myhid) 1 (w_env w 2 db)) (\<lambda>db.
         bindR (htable_Get htable (scast myhid) (w_env w 3 db)) (\<lambda>(a', db).
         bindR (htable_Inc w htable 8 20 (w_env w 4 db)) (\<lambda>db.
         bindR (htable_Inc w htable 32 12 (w_env w 5 db)) (\<lambda>db.
         bindR (hello_loop w htable (scast h_downstream_id) 0 db) (\<lambda>(b, _, db).
         bindR (ShutDown (w_zmq w) (w_thr w) (w_ending w) db) (\<lambda>(_, db).
         let (ret, db) = QuiltDB_DeregisterThr (w_thr w) db
         in bindR (checkR ''assert(ret == 0)'' (ret = 0)) (\<lambda>_. Inr ([a, a', b], db)))))))))))"

definition hello_main :: "world \<Rightarrow> Flags \<Rightarrow> (int \<times> i32 list \<times> QuiltDB) res" where
  "hello_main w flags =
     bindR (LoadConfigFile (w_load_file w) (w_junk_nodes w) (fl_config_file flags) ConfigParser_ctor) (\<lambda>(_, cp).
     let myhid = fl_myhid flags; myvid = fl_myvid flags
     in bindR (node_or_fail w ''Failed to find id for myself'' myhid cp) (\<lambda>my_hconfig.
        let h_downstream_id = nc_downstream_recv my_hconfig
        in bindR (node_or_fail w ''Failed to find id for h downstream config'' h_downstream_id cp) (\<lambda>h_downstream.
           bindR (node_or_fail w ''Failed to find id for myself'' myvid cp) (\<lambda>my_vconfig.
           let v_downstream_id = nc_downstream_recv my_vconfig
           in bindR (node_or_fail w ''Failed to find id for h downstream config'' v_downstream_id cp) (\<lambda>v_downstream.
              let dbconfig = hello_dbconfig myhid myvid my_hconfig h_downstream my_vconfig v_downstream
              in bindR (CreateQuiltDB (w_junk_pinfo w) (w_junk_rinfo w) (w_junk_signaled w) (w_ctx_ok w) dbconfig None) (\<lambda>db.
                 bindR (CreateHTable (w_junk_cbk w) (w_junk_table w) 0 (hello_tconfig w) db) (\<lambda>(htable, db).
                 bindR (QuiltDB_Start (w_rets w) (w_posts w) db) (\<lambda>(ret, db).
                 bindR (checkR ''db Start() failed'' (ret = 0)) (\<lambda>_.
                 bindR (hello_session w myhid h_downstream_id htable db) (\<lambda>(out, db).
                 Inr (0, out, db)))))))))))"

end
