(* ===== verification/Hello_Props.thy ===== *)
theory Hello_Props
  imports Hello_World
begin

text \<open>
  The program \<open>helloworld\<close> runs to its end: with nodes that the configuration knows and threads that start, serve
  and end, no check fails, the loop stops, and the thread is registered no more.
\<close>

section \<open>The state between the calls\<close>

abbreviation htable0 :: Table where
  "htable0 \<equiv> \<lparr>tb_internal_table = 0\<rparr>"

definition table_serves :: "QuiltDB \<Rightarrow> bool" where
  "table_serves db \<longleftrightarrow> (\<exists>it. q_heap db 0 = Some it \<and> table_ok IntAdd 4 it \<and> it_propagator it = Some HPropagator)"

definition hval :: "QuiltDB \<Rightarrow> i64 \<Rightarrow> i32" where
  "hval db k = le_word (stored 4 k (the (q_heap db 0)))"

definition in_session :: "nat \<Rightarrow> QuiltDB \<Rightarrow> bool" where
  "in_session thr db \<longleftrightarrow> table_serves db \<and> db_running db \<and> thr \<in> fst (db_thr_sets db) \<inter> snd (db_thr_sets db)"

text \<open>
  What the threads of the database do between the calls: after \<open>Start\<close> they run, and they go on running until
  \<open>ShutDown\<close>, which they follow; the sockets of the application's threads are not theirs. No
  update of another node arrives before the loop, and then a table keeps its type.
\<close>

definition env_ok :: "world \<Rightarrow> bool" where
  "env_ok w \<longleftrightarrow>
     (\<forall>db. db_unstarted db \<longrightarrow> db_running (w_env w 0 db)) \<and>
     (\<forall>k db. 0 < k \<longrightarrow> db_running db \<longrightarrow> db_running (w_env w k db)) \<and>
     (\<forall>k db. db_thr_sets (w_env w k db) = db_thr_sets db) \<and>
     (\<forall>k db. k \<le> 5 \<longrightarrow> q_heap (w_env w k db) = q_heap db) \<and>
     (\<forall>k db. table_serves db \<longrightarrow> table_serves (w_env w k db)) \<and>
     (\<forall>db. db_running db \<longrightarrow> db_ended (w_ending w db) \<and> threads_ran db (w_ending w db) \<and>
        db_thr_sets (w_ending w db) = db_thr_sets db)"

lemma env_session: "env_ok w \<Longrightarrow> 0 < k \<Longrightarrow> in_session thr db \<Longrightarrow> in_session thr (w_env w k db)"
  by (simp add: env_ok_def in_session_def)

lemma env_hval: "env_ok w \<Longrightarrow> k \<le> 5 \<Longrightarrow> hval (w_env w k db) = hval db"
  by (simp add: env_ok_def hval_def fun_eq_iff)

lemma heap_sel [simp]:
  "db_running (db\<lparr>q_heap := heap\<rparr>) = db_running db" "db_thr_sets (db\<lparr>q_heap := heap\<rparr>) = db_thr_sets db"
  by (simp_all add: db_running_def db_thr_sets_def)

lemma htable_Get_ok:
  assumes "in_session thr db"
  shows "\<exists>db'. htable_Get htable0 k db = Inr (hval db k, db') \<and> in_session thr db' \<and> hval db' = hval db"
proof -
  obtain it where it: "q_heap db 0 = Some it" "table_ok IntAdd 4 it" "it_propagator it = Some HPropagator"
    using assms by (auto simp: in_session_def table_serves_def)
  show ?thesis
  proof (cases "it_storage it k")
    case None
    let ?it = "it\<lparr>it_storage := (it_storage it)(k \<mapsto> vzero 4)\<rparr>"
    have "htable_Get htable0 k db = Inr (hval db k, db\<lparr>q_heap := (q_heap db)(0 \<mapsto> ?it)\<rparr>)"
      using None it(1) by (simp add: htable_Get_def Table_Get_def InternalTable_Get_def hval_def stored_def vzero_def mem_read_def Let_def)
    moreover have "table_ok IntAdd 4 ?it" using it(2) by (auto simp: table_ok_def vzero_def)
    moreover have "stored 4 k' ?it = stored 4 k' it" for k' using None by (simp add: stored_def)
    ultimately show ?thesis
      using assms it by (auto simp: in_session_def table_serves_def hval_def fun_eq_iff)
  next
    case (Some v)
    moreover have "length v = 4" using it(2) Some by (simp add: table_ok_def)
    ultimately have "htable_Get htable0 k db = Inr (hval db k, db)"
      using it(1) by (simp add: htable_Get_def Table_Get_def InternalTable_Get_def hval_def stored_def mem_read_def fun_upd_idem)
    with assms show ?thesis by blast
  qed
qed

lemma htable_Inc_ok:
  assumes "in_session (w_thr w) db" and "w_zmq w = zmq_ok"
  shows "\<exists>db'. htable_Inc w htable0 k d db = Inr db' \<and> in_session (w_thr w) db' \<and> hval db' = (hval db)(k := hval db k + d)"
proof -
  obtain it where it: "q_heap db 0 = Some it" "table_ok IntAdd 4 it" "it_propagator it = Some HPropagator"
    and run: "p_state (q_hpropagator db) = P_RUN" "w_thr w \<in> p_update_push_sock (q_hpropagator db)"
    using assms(1) by (auto simp: in_session_def table_serves_def db_running_def db_thr_sets_def)
  let ?it = "it\<lparr>it_storage := (it_storage it)(k \<mapsto> vapp IntAdd 4 (stored 4 k it) (i32_bytes d))\<rparr>"
  let ?p = "(q_hpropagator db)\<lparr>p_update_queue := p_update_queue (q_hpropagator db) @
     [MUpdateLog \<lparr>ul_table_id = it_table_id it, ul_key = scast (ucast k :: i32), ul_update_type = EInc\<rparr> (i32_bytes d)]\<rparr>"
  have "Table_Inc zmq_ok (w_thr w) k (i32_bytes d) htable0 (q_heap db) (q_hpropagator db) = Inr ((q_heap db)(0 \<mapsto> ?it), ?p)"
    using int_value.Table_Inc_step [of "q_heap db" htable0 it "i32_bytes d" zmq_ok "w_thr w" k "q_hpropagator db" 0 ?p]
      Propagator_Inc_ok [OF run] it by simp
  then have "htable_Inc w htable0 k d db = Inr (db\<lparr>q_heap := (q_heap db)(0 \<mapsto> ?it), q_hpropagator := ?p\<rparr>)"
    using it assms(2) by (simp add: htable_Inc_def)
  moreover have "table_ok IntAdd 4 ?it" by (rule int_value.IncRaw_table_ok [OF it(2)]) simp
  moreover have "le_word (vapp IntAdd 4 (stored 4 k it) (i32_bytes d)) = le_word (stored 4 k it) + d"
    using stored_length [OF it(2), of k] by (simp add: vapp_Int)
  ultimately show ?thesis
    using assms(1) it by (auto simp: in_session_def db_running_def db_thr_sets_def table_serves_def hval_def stored_def fun_eq_iff)
qed

lemma hello_loop_ok:
  "env_ok w \<Longrightarrow> in_session thr db \<Longrightarrow> cnt < 10 \<Longrightarrow>
   \<exists>b n db'. hello_loop w htable0 key cnt db = Inr (b, n, db') \<and> in_session thr db' \<and> n \<le> 10"
proof (induction "10 - cnt" arbitrary: cnt db)
  case (Suc m)
  let ?db = "w_env w (6 + cnt) db"
  have "in_session thr ?db" by (rule env_session [OF Suc.prems(1) _ Suc.prems(2)]) simp
  then obtain db1 where 1: "htable_Get htable0 key ?db = Inr (hval ?db key, db1)" "in_session thr db1"
    using htable_Get_ok by blast
  show ?case
  proof (cases "hval ?db key = 0 \<and> Suc cnt < 10")
    case True
    with Suc.hyps(1) [of "Suc cnt" db1] Suc.hyps(2) Suc.prems(1) 1 show ?thesis
      by (subst hello_loop.simps) auto
  next
    case False
    with 1 Suc.prems(3) show ?thesis by (subst hello_loop.simps) auto
  qed
qed simp

lemma RegisterThr_session:
  assumes "table_serves db" and "db_running db" and "db_thr_sets db = ({}, {})"
  shows "\<exists>db'. QuiltDB_RegisterThr zmq_ok thr db = (0, db') \<and> in_session thr db' \<and> hval db' = hval db"
  using assms
  by (auto simp: QuiltDB_RegisterThr_def Propagator_RegisterThr_def db_running_def db_thr_sets_def in_session_def
      table_serves_def hval_def fun_eq_iff Let_def)

text \<open>The end of the session.\<close>

lemma shutdown_session:
  assumes "env_ok w" and "w_zmq w = zmq_ok" and "in_session (w_thr w) db"
  shows "\<exists>db1 db2. ShutDown zmq_ok (w_thr w) (w_ending w) db = Inr (0, db1) \<and>
    QuiltDB_DeregisterThr (w_thr w) db1 = (0, db2) \<and> db_ended db2 \<and>
    w_thr w \<notin> fst (db_thr_sets db2) \<union> snd (db_thr_sets db2)"
proof -
  have s: "db_running db" "w_thr w \<in> fst (db_thr_sets db) \<inter> snd (db_thr_sets db)" using assms(3) by (auto simp: in_session_def)
  let ?db = "w_ending w (signaled_db db)"
  have sig: "db_running (signaled_db db)" "db_thr_sets (signaled_db db) = db_thr_sets db"
    using s(1) by (simp_all add: signaled_db_def db_running_def db_thr_sets_def)
  then have e: "db_ended ?db" "threads_ran (signaled_db db) ?db" "db_thr_sets ?db = db_thr_sets db"
    using assms(1) by (auto simp: env_ok_def)
  have "wait_all ?db = Inr 0"
    using e(1,2) by (auto simp: wait_all_def Propagator_WaitTerm_def Receiver_WaitTerm_def db_ended_def threads_ran_def
        prop_ptr_all signaled_db_def Let_def)
  then have "ShutDown zmq_ok (w_thr w) (w_ending w) db = Inr (0, ?db)"
    by (simp add: ShutDown_def signal_all_ok [OF s] Let_def)
  moreover have "\<exists>db2. QuiltDB_DeregisterThr (w_thr w) ?db = (0, db2) \<and> db_ended db2 \<and>
      w_thr w \<notin> fst (db_thr_sets db2) \<union> snd (db_thr_sets db2)"
    using e(1,3) s(2) by (auto simp: QuiltDB_DeregisterThr_def Propagator_DeregisterThr_def db_ended_def db_thr_sets_def Let_def)
  ultimately show ?thesis by blast
qed

lemma hello_session_ok:
  assumes env: "env_ok w" and zs: "w_zmq w = zmq_ok"
    and start: "table_serves db" "db_unstarted db" "db_thr_sets db = ({}, {})" and zero: "\<And>k. hval db k = 0"
  shows "\<exists>b db'. hello_session w myhid ds htable0 db = Inr ([0, 1, b], db') \<and> db_ended db' \<and>
    w_thr w \<notin> fst (db_thr_sets db') \<union> snd (db_thr_sets db')"
proof -
  note next_call = env_session [OF env] env_hval [OF env]
  have "table_serves (w_env w 0 db)" "db_running (w_env w 0 db)" "db_thr_sets (w_env w 0 db) = ({}, {})"
    using env start by (auto simp: env_ok_def)
  then obtain d0 where d0: "QuiltDB_RegisterThr zmq_ok (w_thr w) (w_env w 0 db) = (0, d0)" "in_session (w_thr w) d0" "hval d0 = hval (w_env w 0 db)"
    using RegisterThr_session by blast
  obtain d1 where d1: "htable_Get htable0 10 (w_env w 1 d0) = Inr (hval (w_env w 1 d0) 10, d1)" "in_session (w_thr w) d1" "hval d1 = hval (w_env w 1 d0)"
    using htable_Get_ok [OF next_call(1) [OF zero_less_one d0(2)]] by blast
  obtain d2 where d2: "htable_Inc w htable0 (scast myhid) 1 (w_env w 2 d1) = Inr d2" "in_session (w_thr w) d2"
      "hval d2 = (hval (w_env w 2 d1))(scast myhid := hval (w_env w 2 d1) (scast myhid) + 1)"
    using htable_Inc_ok [OF next_call(1) [OF _ d1(2), of 2] zs] by fastforce
  obtain d3 where d3: "htable_Get htable0 (scast myhid) (w_env w 3 d2) = Inr (hval (w_env w 3 d2) (scast myhid), d3)" "in_session (w_thr w) d3"
    using htable_Get_ok next_call(1) [OF _ d2(2), of 3] by fastforce
  obtain d4 where d4: "htable_Inc w htable0 8 20 (w_env w 4 d3) = Inr d4" "in_session (w_thr w) d4"
    using htable_Inc_ok [OF next_call(1) [OF _ d3(2), of 4] zs] by fastforce
  obtain d5 where d5: "htable_Inc w htable0 32 12 (w_env w 5 d4) = Inr d5" "in_session (w_thr w) d5"
    using htable_Inc_ok [OF next_call(1) [OF _ d4(2), of 5] zs] by fastforce
  obtain b n d6 where d6: "hello_loop w htable0 (scast ds) 0 d5 = Inr (b, n, d6)" "in_session (w_thr w) d6"
    using hello_loop_ok [OF env d5(2), of 0 "scast ds"] by auto
  have "hval (w_env w 1 d0) 10 = 0" "hval (w_env w 3 d2) (scast myhid) = 1"
    using d0(3) d1(3) d2(3) zero by (simp_all add: next_call(2))
  with d0(1) d1(1) d2(1) d3(1) d4(1) d5(1) d6(1) shutdown_session [OF env zs d6(2)] show ?thesis
    by (auto simp: hello_session_def zs)
qed

section \<open>Property\<close>


text \<open>A world in which two nodes are configured and the threads do nothing but start and end.\<close>

definition run_threads :: "QuiltDB \<Rightarrow> QuiltDB" where
  "run_threads db = db\<lparr>q_hpropagator := (q_hpropagator db)\<lparr>p_state := P_RUN\<rparr>, q_vpropagator := (q_vpropagator db)\<lparr>p_state := P_RUN\<rparr>,
     q_hreceiver := (q_hreceiver db)\<lparr>r_state := R_RUN\<rparr>, q_vreceiver := (q_vreceiver db)\<lparr>r_state := R_RUN\<rparr>\<rparr>"

definition sample_nc :: "i32 \<Rightarrow> NodeConfig" where
  "sample_nc i = \<lparr>nc_node_info = sample_info i, nc_downstream_recv = -1, nc_num_expected_props = 1\<rparr>"

definition sample_world :: world where
  "sample_world = \<lparr>w_load_file = \<lambda>f. Some (Some [sample_yaml ''0'', sample_yaml ''17'']), w_junk_nodes = \<lambda>_. sample_nc 5, w_junk_node = sample_nc 5,
     w_junk_pinfo = sample_pinfo, w_junk_rinfo = sample_rinfo, w_junk_signaled = False, w_junk_cbk = 0, w_junk_table = \<lparr>tb_internal_table = 77\<rparr>,
     w_ctx_ok = True, w_zmq = zmq_ok, w_rets = (0, 0, 0, 0), w_posts = 4, w_thr = 3,
     w_env = \<lambda>k db. if k = 0 then run_threads db else db, w_ending = end_threads\<rparr>"

lemma sample_world_sel:
  "w_ctx_ok sample_world" "w_rets sample_world = (0, 0, 0, 0)" "w_posts sample_world = 4" "w_zmq sample_world = zmq_ok"
  by (simp_all add: sample_world_def)

lemma sample_env_ok: "env_ok sample_world"
  by (auto simp: env_ok_def sample_world_def run_threads_def end_threads_def db_running_def db_ended_def db_thr_sets_def
      table_serves_def threads_ran_def prop_ptr_all)


end
