(* ===== verification/Double.thy ===== *)
theory Double
  imports QDB_Prelude Complex_Main
begin

text \<open>
  The type \<open>double\<close> of C++ as IEEE 754 defines it: 53 significant bits, rounding to the nearest
  with ties to even, gradual underflow, infinities. The value of a finite number is a rational; the
  two zeros are one value here. What programs rely on is the locale \<open>rounding\<close>, which the rounding function satisfies.
\<close>

section \<open>Rounding\<close>

text \<open>The nearest integer, of two the even one.\<close>

definition rne :: "rat \<Rightarrow> int" where
  "rne x = (let f = \<lfloor>x\<rfloor>; d = x - of_int f in if d < 1 / 2 \<or> (d = 1 / 2 \<and> even f) then f else f + 1)"

text \<open>The number of binary digits.\<close>

function blen :: "int \<Rightarrow> int" where
  "blen n = (if n \<le> 0 then 0 else blen (n div 2) + 1)"
  by auto
termination by (relation "measure nat") auto

declare blen.simps [simp del]

text \<open>The exponent of a positive number, and the exponent of its last bit.\<close>

definition ilog2 :: "rat \<Rightarrow> int" where
  "ilog2 x = (let (p, q) = quotient_of x; e = blen p - blen q in if 2 powi e \<le> x then e else e - 1)"

definition last_bit :: "rat \<Rightarrow> int" where
  "last_bit x = max (- 1074) (ilog2 x - 52)"

definition fl_pos :: "rat \<Rightarrow> rat" where
  "fl_pos x = of_int (rne (x / 2 powi last_bit x)) * 2 powi last_bit x"

definition fl :: "rat \<Rightarrow> rat" where
  "fl x = (if x = 0 then 0 else if 0 < x then fl_pos x else - fl_pos (- x))"

section \<open>The numbers\<close>

text \<open>\<open>Inf\<close> carries whether it is negative.\<close>

datatype double = Fin rat | Inf bool | NaN

definition mk_double :: "rat \<Rightarrow> double" where
  "mk_double x = (let y = fl x in if y \<noteq> 0 \<and> 1024 \<le> ilog2 \<bar>y\<bar> then Inf (y < 0) else Fin y)"

definition d_of_int :: "int \<Rightarrow> double" where
  "d_of_int n = mk_double (of_int n)"

fun d_neg :: "double \<Rightarrow> double" where
  "d_neg (Fin x) = Fin (- x)"
| "d_neg (Inf s) = Inf (\<not> s)"
| "d_neg NaN = NaN"

fun d_add :: "double \<Rightarrow> double \<Rightarrow> double" where
  "d_add (Fin x) (Fin y) = mk_double (x + y)"
| "d_add (Inf s) (Fin y) = Inf s"
| "d_add (Fin x) (Inf s) = Inf s"
| "d_add (Inf s) (Inf s') = (if s = s' then Inf s else NaN)"
| "d_add _ _ = NaN"

definition d_sub :: "double \<Rightarrow> double \<Rightarrow> double" where
  "d_sub x y = d_add x (d_neg y)"

fun d_mul :: "double \<Rightarrow> double \<Rightarrow> double" where
  "d_mul (Fin x) (Fin y) = mk_double (x * y)"
| "d_mul (Inf s) (Fin y) = (if y = 0 then NaN else Inf (s \<noteq> (y < 0)))"
| "d_mul (Fin x) (Inf s) = (if x = 0 then NaN else Inf (s \<noteq> (x < 0)))"
| "d_mul (Inf s) (Inf s') = Inf (s \<noteq> s')"
| "d_mul _ _ = NaN"

text \<open>A divisor that is zero counts as the positive zero.\<close>

fun d_div :: "double \<Rightarrow> double \<Rightarrow> double" where
  "d_div (Fin x) (Fin y) = (if y \<noteq> 0 then mk_double (x / y) else if x = 0 then NaN else Inf (x < 0))"
| "d_div (Inf s) (Fin y) = Inf (s \<noteq> (y < 0))"
| "d_div (Fin x) (Inf s) = Fin 0"
| "d_div _ _ = NaN"

text \<open>\<open>round\<close> of \<open>math.h\<close>: the nearest integer, halves away from zero.\<close>

fun d_round :: "double \<Rightarrow> double" where
  "d_round (Fin x) = Fin (if 0 \<le> x then of_int \<lfloor>x + 1 / 2\<rfloor> else - of_int \<lfloor>1 / 2 - x\<rfloor>)"
| "d_round d = d"

text \<open>Conversion to an integer type cuts off the fraction; a value the type does not have is undefined.\<close>

definition d_trunc :: "int \<Rightarrow> int \<Rightarrow> double \<Rightarrow> int res" where
  "d_trunc lo hi d =
     (case d of
        Fin x \<Rightarrow> let n = (if 0 \<le> x then \<lfloor>x\<rfloor> else \<lceil>x\<rceil>) in if lo \<le> n \<and> n \<le> hi then Inr n else Inl Undefined
      | _ \<Rightarrow> Inl Undefined)"

section \<open>Facts about rounding\<close>

lemma rne_bounds: "\<lfloor>x\<rfloor> \<le> rne x" "rne x \<le> \<lfloor>x\<rfloor> + 1" "\<bar>of_int (rne x) - x\<bar> \<le> 1 / 2"
proof -
  have "of_int \<lfloor>x\<rfloor> \<le> x" "x < of_int \<lfloor>x\<rfloor> + 1" by linarith+
  then show "\<lfloor>x\<rfloor> \<le> rne x" "rne x \<le> \<lfloor>x\<rfloor> + 1" "\<bar>of_int (rne x) - x\<bar> \<le> 1 / 2"
    by (auto simp: rne_def Let_def abs_le_iff)
qed

lemma rne_mono: "x \<le> y \<Longrightarrow> rne x \<le> rne y"
proof (cases "\<lfloor>x\<rfloor> = \<lfloor>y\<rfloor>")
  case True
  assume "x \<le> y"
  with True show ?thesis by (auto simp: rne_def Let_def)
next
  case False
  assume "x \<le> y"
  then have "\<lfloor>x\<rfloor> + 1 \<le> \<lfloor>y\<rfloor>" using False floor_mono [of x y] by simp
  then show ?thesis using rne_bounds(2) [of x] rne_bounds(1) [of y] by linarith
qed

lemma rne_of_int [simp]: "rne (of_int n) = n"
  by (simp add: rne_def)

lemma powi_less_iff: "(2 :: rat) powi a < 2 powi b \<longleftrightarrow> a < b"
  by (metis linorder_neqE order_less_asym power_int_strict_increasing one_less_numeral_iff semiring_norm(76))

lemma powi_le_iff: "(2 :: rat) powi a \<le> 2 powi b \<longleftrightarrow> a \<le> b"
  by (simp add: powi_less_iff flip: not_less)

lemma powi_pos [simp]: "0 < (2 :: rat) powi e"
  by (simp add: zero_less_power_int)

lemma blen_bounds: "0 < p \<Longrightarrow> 1 \<le> blen p \<and> 2 ^ nat (blen p - 1) \<le> p \<and> p < 2 ^ nat (blen p)"
proof (induction p rule: blen.induct)
  case (1 p)
  show ?case
  proof (cases "p = 1")
    case True
    then show ?thesis by (simp add: blen.simps)
  next
    case False
    with "1.prems" have "0 < p div 2" by simp
    with "1.IH" "1.prems" have h: "1 \<le> blen (p div 2)" "2 ^ nat (blen (p div 2) - 1) \<le> p div 2" "p div 2 < 2 ^ nat (blen (p div 2))"
      by auto
    have b: "blen p = blen (p div 2) + 1" using "1.prems" by (subst blen.simps) simp
    have "nat (blen p) = Suc (nat (blen (p div 2)))" "nat (blen (p div 2)) = Suc (nat (blen (p div 2) - 1))"
      using h(1) b by linarith+
    moreover have "2 * X \<le> p" if "X \<le> p div 2" for X :: int using that by linarith
    moreover have "p < 2 * X" if "p div 2 < X" for X :: int using that by linarith
    ultimately show ?thesis using h b by (metis power_Suc add_diff_cancel_right' le_add_same_cancel2 order_trans zero_le_one)
  qed
qed

lemma blen_powi:
  assumes "0 < p"
  shows "(2 :: rat) powi (blen p - 1) \<le> of_int p" and "of_int p < (2 :: rat) powi blen p"
proof -
  have 1: "1 \<le> blen p" and b: "2 ^ nat (blen p - 1) \<le> p" "p < 2 ^ nat (blen p)" using blen_bounds [OF assms] by auto
  have "(2 :: rat) powi (blen p - 1) = of_int (2 ^ nat (blen p - 1))" "(2 :: rat) powi blen p = of_int (2 ^ nat (blen p))"
    using 1 by (simp_all add: power_int_def)
  with b show "(2 :: rat) powi (blen p - 1) \<le> of_int p" "of_int p < (2 :: rat) powi blen p"
    by (simp_all only: of_int_le_iff of_int_less_iff)
qed

lemma ilog2_bounds:
  assumes "0 < x"
  shows "2 powi ilog2 x \<le> x" and "x < 2 powi (ilog2 x + 1)"
proof -
  obtain p q where pq: "quotient_of x = (p, q)" by fastforce
  have q: "0 < q" and x: "x = of_int p / of_int q" using quotient_of_denom_pos [OF pq] quotient_of_div [OF pq] by auto
  have p: "0 < p" using assms x q by (simp add: zero_less_divide_iff)
  let ?e = "blen p - blen q"
  have up: "x < 2 powi (?e + 1)"
  proof -
    have "x < 2 powi blen p / of_int q" unfolding x using blen_powi(2) [OF p] q by (intro divide_strict_right_mono) simp_all
    also have "\<dots> \<le> 2 powi blen p / 2 powi (blen q - 1)" using blen_powi(1) [OF q] q by (intro divide_left_mono) simp_all
    also have "\<dots> = 2 powi (?e + 1)" by (simp add: power_int_diff power_int_add)
    finally show ?thesis .
  qed
  have lo: "2 powi (?e - 1) \<le> x"
  proof -
    have "(2 :: rat) powi (?e - 1) = 2 powi (blen p - 1) / 2 powi blen q" by (simp add: power_int_diff)
    also have "\<dots> \<le> of_int p / 2 powi blen q" using blen_powi(1) [OF p] by (intro divide_right_mono) simp_all
    also have "\<dots> \<le> x" unfolding x using blen_powi(2) [OF q] p q by (intro divide_left_mono) simp_all
    finally show ?thesis .
  qed
  show "2 powi ilog2 x \<le> x" "x < 2 powi (ilog2 x + 1)"
    using up lo by (auto simp: ilog2_def pq Let_def)
qed

lemma ilog2_mono: "0 < x \<Longrightarrow> x \<le> y \<Longrightarrow> ilog2 x \<le> ilog2 y"
proof -
  assume "0 < x" "x \<le> y"
  then have "(2 :: rat) powi ilog2 x < 2 powi (ilog2 y + 1)" using ilog2_bounds(1) [of x] ilog2_bounds(2) [of y] by simp
  then show ?thesis unfolding powi_less_iff by simp
qed

lemma ilog2_le: "0 < x \<Longrightarrow> x < 2 powi (e + 1) \<Longrightarrow> ilog2 x \<le> e"
proof -
  assume "0 < x" "x < 2 powi (e + 1)"
  then have "(2 :: rat) powi ilog2 x < 2 powi (e + 1)" using ilog2_bounds(1) [of x] by simp
  then show ?thesis unfolding powi_less_iff by simp
qed

lemma ilog2_ge: "0 < x \<Longrightarrow> 2 powi e \<le> x \<Longrightarrow> e \<le> ilog2 x"
proof -
  assume "0 < x" "2 powi e \<le> x"
  then have "(2 :: rat) powi e < 2 powi (ilog2 x + 1)" using ilog2_bounds(2) [of x] by simp
  then show ?thesis unfolding powi_less_iff by simp
qed

text \<open>Bounds that are multiples of the last bit survive rounding.\<close>

lemma fl_pos_upper: "x \<le> of_int n * 2 powi last_bit x \<Longrightarrow> fl_pos x \<le> of_int n * 2 powi last_bit x"
proof -
  assume "x \<le> of_int n * 2 powi last_bit x"
  then have "x / 2 powi last_bit x \<le> of_int n" by (simp add: pos_divide_le_eq)
  from rne_mono [OF this] have "rne (x / 2 powi last_bit x) \<le> n" by simp
  then show ?thesis unfolding fl_pos_def by (intro mult_right_mono) simp_all
qed

lemma fl_pos_lower: "of_int n * 2 powi last_bit x \<le> x \<Longrightarrow> of_int n * 2 powi last_bit x \<le> fl_pos x"
proof -
  assume "of_int n * 2 powi last_bit x \<le> x"
  then have "of_int n \<le> x / 2 powi last_bit x" by (simp add: pos_le_divide_eq)
  from rne_mono [OF this] have "n \<le> rne (x / 2 powi last_bit x)" by simp
  then show ?thesis unfolding fl_pos_def by (intro mult_right_mono) simp_all
qed

lemma powi_split: "0 \<le> d \<Longrightarrow> (2 :: rat) powi (e + d) = of_int (2 ^ nat d) * 2 powi e"
proof -
  assume "0 \<le> d"
  then have "(2 :: rat) powi d = of_int (2 ^ nat d)" by (simp add: power_int_def)
  then show ?thesis by (simp add: power_int_add)
qed

lemma fl_pos_mono:
  assumes "0 < x" and "x \<le> y"
  shows "fl_pos x \<le> fl_pos y"
proof (cases "last_bit x = last_bit y")
  case True
  have "x / 2 powi last_bit y \<le> y / 2 powi last_bit y" using assms(2) by (intro divide_right_mono) simp_all
  then show ?thesis unfolding fl_pos_def True by (intro mult_right_mono of_int_le_iff [THEN iffD2] rne_mono) simp_all
next
  case False
  then have lt: "last_bit x < last_bit y" "last_bit y = ilog2 y - 52"
    using ilog2_mono [OF assms] by (auto simp: last_bit_def)
  have "(2 :: rat) powi (ilog2 x + 1) \<le> 2 powi (last_bit x + 53)" unfolding powi_le_iff by (simp add: last_bit_def)
  then have "x \<le> of_int (2 ^ 53) * 2 powi last_bit x"
    using ilog2_bounds(2) [OF assms(1)] powi_split [of 53 "last_bit x"] by simp
  then have "fl_pos x \<le> 2 powi (last_bit x + 53)" using fl_pos_upper [of x "2 ^ 53"] powi_split [of 53 "last_bit x"] by simp
  also have "\<dots> \<le> 2 powi (last_bit y + 52)" using lt(1) unfolding powi_le_iff by simp
  also have "\<dots> \<le> fl_pos y"
    using fl_pos_lower [of "2 ^ 52" y] ilog2_bounds(1) [of y] assms lt(2) powi_split [of 52 "last_bit y"] by simp
  finally show ?thesis .
qed

lemma fl_pos_grid:
  assumes "0 < m" and "m < 2 ^ 53" and "- 1074 \<le> e"
  shows "fl_pos (of_int m * 2 powi e) = of_int m * 2 powi e"
proof -
  let ?x = "of_int m * 2 powi e :: rat"
  have "(of_int m :: rat) < of_int (2 ^ 53)" using assms(2) by (simp only: of_int_less_iff)
  then have "?x < 2 powi (e + 52 + 1)" using powi_split [of 53 e] by (simp add: add.assoc)
  then have "last_bit ?x \<le> e" using ilog2_le [of ?x "e + 52"] assms by (simp add: last_bit_def)
  then have "?x = of_int (m * 2 ^ nat (e - last_bit ?x)) * 2 powi last_bit ?x"
    using powi_split [of "e - last_bit ?x" "last_bit ?x"] by simp
  then show ?thesis using fl_pos_upper [of ?x] fl_pos_lower [of _ ?x] by (metis order_antisym order_refl)
qed

lemma fl_pos_err:
  assumes "2 powi (- 1022) \<le> x"
  shows "\<bar>fl_pos x - x\<bar> \<le> x * 2 powi (- 53)"
proof -
  have x: "0 < x" using assms powi_pos [of "- 1022"] by linarith
  have lb: "last_bit x = ilog2 x - 52" using ilog2_ge [OF x assms] by (simp add: last_bit_def)
  have "fl_pos x - x = (of_int (rne (x / 2 powi last_bit x)) - x / 2 powi last_bit x) * 2 powi last_bit x"
    by (simp add: fl_pos_def algebra_simps)
  then have "\<bar>fl_pos x - x\<bar> = \<bar>of_int (rne (x / 2 powi last_bit x)) - x / 2 powi last_bit x\<bar> * 2 powi last_bit x"
    by (simp add: abs_mult)
  also have "\<dots> \<le> 1 / 2 * 2 powi last_bit x" by (intro mult_right_mono rne_bounds) simp
  also have "\<dots> = 2 powi ilog2 x * 2 powi (- 53)" by (simp add: lb power_int_diff power_int_minus)
  also have "\<dots> \<le> x * 2 powi (- 53)" using ilog2_bounds(1) [OF x] by (intro mult_right_mono) simp_all
  finally show ?thesis .
qed

lemma fl_pos_idem: "0 < x \<Longrightarrow> fl_pos x = 0 \<or> fl_pos (fl_pos x) = fl_pos x"
proof -
  assume x: "0 < x"
  let ?e = "last_bit x" and ?n = "rne (x / 2 powi last_bit x)"
  have e: "- 1074 \<le> ?e" by (simp add: last_bit_def)
  have up: "?n \<le> 2 ^ 53"
  proof -
    have "(2 :: rat) powi (ilog2 x + 1) \<le> 2 powi (?e + 53)" unfolding powi_le_iff by (simp add: last_bit_def)
    then have "x / 2 powi ?e \<le> of_int (2 ^ 53)"
      using ilog2_bounds(2) [OF x] powi_split [of 53 ?e] by (simp add: pos_divide_le_eq)
    from rne_mono [OF this] show ?thesis by (simp only: rne_of_int)
  qed
  have "0 \<le> ?n" using rne_mono [of 0 "x / 2 powi ?e"] x rne_of_int [of 0] by simp
  then consider "?n = 0" | "0 < ?n" "?n < 2 ^ 53" | "?n = 2 ^ 53" using up by linarith
  then show ?thesis
  proof cases
    case 1
    then show ?thesis by (simp add: fl_pos_def)
  next
    case 2
    then show ?thesis using fl_pos_grid [OF 2 e] by (simp add: fl_pos_def [of x])
  next
    case 3
    have "fl_pos x = of_int 1 * 2 powi (?e + 53)" unfolding fl_pos_def 3 using powi_split [of 53 ?e] by simp
    then show ?thesis using fl_pos_grid [of 1 "?e + 53"] e by simp
  qed
qed

section \<open>What programs rely on\<close>

text \<open>The relative error of one rounding, and the smallest number for which it holds.\<close>

definition unit_rd :: rat where
  "unit_rd = 2 powi (- 53)"

definition normal_min :: rat where
  "normal_min = 2 powi (- 1022)"

lemma unit_rd: "0 < unit_rd" "unit_rd < 1"
  by (simp_all add: unit_rd_def)

lemma normal_min: "0 < normal_min"
  by (simp add: normal_min_def)

locale rounding =
  fixes rd :: "rat \<Rightarrow> rat"
  assumes rd_mono: "0 \<le> x \<Longrightarrow> x \<le> y \<Longrightarrow> rd x \<le> rd y"
    and rd_grid: "0 \<le> m \<Longrightarrow> m < 2 ^ 53 \<Longrightarrow> - 1074 \<le> e \<Longrightarrow> rd (of_int m * 2 powi e) = of_int m * 2 powi e"
    and rd_err: "normal_min \<le> x \<Longrightarrow> \<bar>rd x - x\<bar> \<le> x * unit_rd"
    and rd_idem: "0 \<le> x \<Longrightarrow> rd (rd x) = rd x"
begin

lemma rd_0 [simp]: "rd 0 = 0"
  using rd_grid [of 0 0] by simp

lemma rd_nonneg: "0 \<le> x \<Longrightarrow> 0 \<le> rd x"
  using rd_mono [of 0 x] by simp

lemma rd_int: "0 \<le> m \<Longrightarrow> m < 2 ^ 53 \<Longrightarrow> rd (of_int m) = of_int m"
  using rd_grid [of m 0] by simp

lemma rd_powi: "- 1074 \<le> e \<Longrightarrow> rd (2 powi e) = 2 powi e"
  using rd_grid [of 1 e] by simp

text \<open>Bounds that are not too small are met up to one rounding.\<close>

lemma rd_le: "0 \<le> x \<Longrightarrow> x \<le> b \<Longrightarrow> normal_min \<le> b \<Longrightarrow> rd x \<le> b * (1 + unit_rd)"
  using rd_mono [of x b] rd_err [of b] by (simp add: distrib_left abs_le_iff)

lemma rd_ge: "b \<le> x \<Longrightarrow> normal_min \<le> b \<Longrightarrow> b * (1 - unit_rd) \<le> rd x"
  using rd_mono [of b x] rd_err [of b] normal_min by (simp add: right_diff_distrib abs_le_iff)

text \<open>A sum of terms that lie between two numbers.\<close>

lemma rd_sum_le:
  assumes "\<forall>x \<in> set xs. 0 \<le> x \<and> x \<le> b" and "normal_min \<le> b"
  shows "0 \<le> foldl (\<lambda>v x. rd (v + x)) 0 xs \<and> foldl (\<lambda>v x. rd (v + x)) 0 xs \<le> of_nat (length xs) * b * (1 + unit_rd) ^ length xs"
  using assms(1)
proof (induction xs rule: rev_induct)
  case (snoc x xs)
  let ?v = "foldl (\<lambda>v x. rd (v + x)) 0 xs" and ?c = "(1 + unit_rd) ^ length xs :: rat"
  have b: "0 < b" using assms(2) normal_min by linarith
  have c: "1 \<le> ?c" by (rule one_le_power) (use unit_rd in simp)
  have v: "0 \<le> ?v" "?v \<le> of_nat (length xs) * b * ?c" and x: "0 \<le> x" "x \<le> b" using snoc by auto
  have "b * 1 \<le> b * ?c" using b c by (intro mult_left_mono) simp_all
  then have "x \<le> b * ?c" using x(2) by linarith
  with v have le: "?v + x \<le> of_nat (length xs + 1) * b * ?c" by (simp add: algebra_simps)
  have "b * 1 \<le> (of_nat (length xs + 1) * b) * ?c" using b c by (intro mult_mono) (simp_all add: algebra_simps)
  then have "normal_min \<le> of_nat (length xs + 1) * b * ?c" using assms(2) by simp
  from rd_le [OF _ le this] v(1) x(1) rd_nonneg [of "?v + x"] show ?case by (simp add: mult.assoc mult.commute mult.left_commute)
qed simp

lemma rd_sum_ge:
  assumes "\<forall>x \<in> set xs. b \<le> x" and "2 * normal_min \<le> b" and "(1 :: rat) / 2 \<le> (1 - unit_rd) ^ length xs"
  shows "of_nat (length xs) * b * (1 - unit_rd) ^ length xs \<le> foldl (\<lambda>v x. rd (v + x)) 0 xs"
  using assms(1,3)
proof (induction xs rule: rev_induct)
  case (snoc x xs)
  let ?v = "foldl (\<lambda>v x. rd (v + x)) 0 xs" and ?c = "(1 - unit_rd) ^ length xs :: rat"
  have b: "0 < b" using assms(2) normal_min by linarith
  have c: "?c \<le> 1" by (rule power_le_one) (use unit_rd in simp_all)
  have "?c * (1 - unit_rd) \<le> ?c" by (rule mult_left_le) (use unit_rd in simp_all)
  then have half: "1 / 2 \<le> ?c" using snoc.prems(2) by (simp add: mult.commute)
  then have v: "of_nat (length xs) * b * ?c \<le> ?v" and x: "b \<le> x" using snoc by auto
  have "b * ?c \<le> b * 1" using b c by (intro mult_left_mono) simp_all
  then have "b * ?c \<le> x" using x by linarith
  with v have le: "of_nat (length xs + 1) * b * ?c \<le> ?v + x" by (simp add: algebra_simps)
  have "normal_min = 2 * normal_min * (1 / 2 :: rat)" by simp
  also have "\<dots> \<le> b * ?c" using assms(2) half b by (intro mult_mono) simp_all
  also have "\<dots> \<le> (of_nat (length xs + 1) * b) * ?c" using b half by (intro mult_right_mono) (simp_all add: algebra_simps)
  finally show ?case using rd_ge [OF le] by (simp add: mult.assoc mult.commute mult.left_commute)
qed simp

text \<open>Whoever stays below a number of few bits stays below it after rounding.\<close>

lemma rd_le_grid: "0 \<le> x \<Longrightarrow> x \<le> of_int m * 2 powi e \<Longrightarrow> 0 \<le> m \<Longrightarrow> m < 2 ^ 53 \<Longrightarrow> - 1074 \<le> e \<Longrightarrow> rd x \<le> of_int m * 2 powi e"
  using rd_mono [of x "of_int m * 2 powi e"] rd_grid by simp

lemma rd_le_powi: "0 \<le> x \<Longrightarrow> x \<le> 2 powi e \<Longrightarrow> - 1074 \<le> e \<Longrightarrow> rd x \<le> 2 powi e"
  using rd_le_grid [of x 1 e] by simp

end

lemma fl_idem_pos: "0 < x \<Longrightarrow> fl x = fl_pos x"
  by (simp add: fl_def)

lemma fl_pos_nonneg: "0 < x \<Longrightarrow> 0 \<le> fl_pos x"
  using fl_pos_lower [of 0 x] by simp

interpretation ieee: rounding fl
proof
  show "fl x \<le> fl y" if "0 \<le> x" "x \<le> y" for x y
    using that fl_pos_mono [of x y] fl_pos_nonneg [of y] by (cases "x = 0") (auto simp: fl_def)
  show "fl (of_int m * 2 powi e) = of_int m * 2 powi e" if "0 \<le> m" "m < 2 ^ 53" "- 1074 \<le> e" for m e
    using that fl_pos_grid [of m e] by (cases "m = 0") (auto simp: fl_def zero_less_mult_iff)
  show "\<bar>fl x - x\<bar> \<le> x * unit_rd" if "normal_min \<le> x" for x
  proof -
    have "0 < x" using that normal_min by linarith
    then show ?thesis using fl_pos_err [OF that [unfolded normal_min_def]] by (simp add: fl_def unit_rd_def)
  qed
  show "fl (fl x) = fl x" if "0 \<le> x" for x
    using that fl_pos_idem [of x] fl_pos_nonneg [of x] by (cases "x = 0") (auto simp: fl_def)
qed

end
