(* ===== verification/Sparse_Mat.thy ===== *)
theory Sparse_Mat
  imports Config_Parser
begin

text \<open>
  The data structures of the pagerank application, \<open>apps/pagerank/range.h\<close>, \<open>bin_data.h\<close> and
  \<open>rspmat.h\<close>: ranges of \<open>size_t\<close>, arrays in binary files, and sparse matrices by rows that are loaded
  from files and cut into blocks of columns. A file is what the name gives in \<open>files\<close>;
  a \<open>double\<close>, which is only copied, is its eight bytes.
\<close>

section \<open>Ranges\<close>

text \<open>\<open>Range<size_t>\<close>, the half-open interval from start to end.\<close>

record Range =
  rg_start :: i64
  rg_end :: i64

definition mk_range :: "i64 \<Rightarrow> i64 \<Rightarrow> Range" where
  "mk_range s e = \<lparr>rg_start = s, rg_end = e\<rparr>"

definition Range_Invalid :: Range where
  "Range_Invalid = mk_range 0 0"

definition Range_All :: Range where
  "Range_All = mk_range 1 0"

definition Range_Set :: "i64 \<Rightarrow> i64 \<Rightarrow> Range \<Rightarrow> Range" where
  "Range_Set s e r = r\<lparr>rg_start := s, rg_end := e\<rparr>"

definition SubsetEq :: "Range \<Rightarrow> Range \<Rightarrow> bool" where
  "SubsetEq r v \<longleftrightarrow> rg_start v \<le> rg_start r \<and> rg_end r \<le> rg_end v"

definition SupsetEq :: "Range \<Rightarrow> Range \<Rightarrow> bool" where
  "SupsetEq r v \<longleftrightarrow> rg_start r \<le> rg_start v \<and> rg_end v \<le> rg_end r"

definition Range_In :: "Range \<Rightarrow> i64 \<Rightarrow> bool" where
  "Range_In r v \<longleftrightarrow> rg_start r \<le> v \<and> v < rg_end r"

definition Range_less :: "Range \<Rightarrow> Range \<Rightarrow> bool" where
  "Range_less r rhs \<longleftrightarrow> rg_start r < rg_start rhs \<or> rg_end r < rg_end rhs"

definition Range_eq :: "Range \<Rightarrow> Range \<Rightarrow> bool" where
  "Range_eq r rhs \<longleftrightarrow> rg_start r = rg_start rhs \<and> rg_end r = rg_end rhs"

definition Limit :: "Range \<Rightarrow> Range \<Rightarrow> Range" where
  "Limit r dest = mk_range (max (rg_start r) (rg_start dest)) (min (rg_end r) (rg_end dest))"

definition Valid :: "Range \<Rightarrow> bool" where
  "Valid r \<longleftrightarrow> rg_start r < rg_end r"

definition Size :: "Range \<Rightarrow> i64" where
  "Size r = rg_end r - rg_start r"

definition EvenDivide :: "i64 \<Rightarrow> i64 \<Rightarrow> i64 \<Rightarrow> Range \<Rightarrow> Range res" where
  "EvenDivide n i min_seg r =
     bindR (checkR ''CHECK_LT(i, n)'' (i < n)) (\<lambda>_.
     if rg_end r - rg_start r < min_seg then
       if i = 0 then Inr r else Inr (mk_range (rg_end r) (rg_end r))
     else
       let itv = (rg_end r - rg_start r) div n;
           segment_start = max (rg_start r + itv * i) (rg_start r);
           segment_end = min (rg_start r + itv * (i + 1)) (rg_end r)
       in Inr (mk_range segment_start segment_end))"

section \<open>Arrays\<close>

text \<open>An array behind a pointer; \<open>None\<close> is the null pointer.\<close>

definition arr_get :: "'a list option \<Rightarrow> i64 \<Rightarrow> 'a res" where
  "arr_get a i =
     (case a of
        None \<Rightarrow> Inl Null_pointer
      | Some xs \<Rightarrow> if unat i < length xs then Inr (xs ! unat i) else Inl Out_of_bounds)"

definition arr_set :: "'a list option \<Rightarrow> i64 \<Rightarrow> 'a \<Rightarrow> 'a list option res" where
  "arr_set a i x =
     (case a of
        None \<Rightarrow> Inl Null_pointer
      | Some xs \<Rightarrow> if unat i < length xs then Inr (Some (xs[unat i := x])) else Inl Out_of_bounds)"

text \<open>\<open>new T[n]\<close>, with what the memory held, for elements of \<open>sz\<close> bytes.\<close>

definition new_array :: "nat \<Rightarrow> (nat \<Rightarrow> 'a) \<Rightarrow> i64 \<Rightarrow> 'a list res" where
  "new_array sz junk n = (if unat n * sz < 2 ^ 63 then Inr (map junk [0..<unat n]) else Inl Bad_alloc)"

section \<open>Binary files\<close>

type_synonym files = "string \<Rightarrow> bytes option"

text \<open>The whole elements of \<open>sz\<close> bytes at the front of a file.\<close>

function chunks :: "nat \<Rightarrow> bytes \<Rightarrow> bytes list" where
  "chunks sz bs = (if sz = 0 \<or> length bs < sz then [] else take sz bs # chunks sz (drop sz bs))"
  by auto
termination by (relation "measure (\<lambda>(sz, bs). length bs)") auto

declare chunks.simps [simp del]

text \<open>
  \<open>load_bin<T>\<close>: \<open>dec\<close> reads an element of \<open>sz\<close> bytes. The position is a \<open>long\<close>; \<open>fread\<close> stores the
  elements there are, at most \<open>n\<close>, before their number is checked. A new array is filled whole or the
  check fails, so what its memory held does not matter.
\<close>

definition load_bin ::
  "nat \<Rightarrow> (bytes \<Rightarrow> 'a) \<Rightarrow> files \<Rightarrow> string \<Rightarrow> 'a list option \<Rightarrow> i64 \<Rightarrow> i64 \<Rightarrow> ('a list \<times> i64) res" where
  "load_bin sz dec files filename buf offset n =
     (case files filename of
        None \<Rightarrow> Inl (Check_failed ''open for reading failed'')
      | Some bs \<Rightarrow>
          bindR (case buf of None \<Rightarrow> new_array sz (\<lambda>_. dec []) n | Some xs \<Rightarrow> Inr xs) (\<lambda>xs.
          let pos = offset * of_nat sz
          in bindR (checkR ''fseek failed'' (offset = 0 \<or> 0 \<le> sint pos)) (\<lambda>_.
             let got = map dec (take (unat n) (chunks sz (drop (unat pos) bs)))
             in if length xs < length got then Inl Out_of_bounds
                else bindR (checkR ''read failed'' (length got = unat n)) (\<lambda>_.
                     Inr (got @ drop (length got) xs, n)))))"

definition bin_length :: "nat \<Rightarrow> files \<Rightarrow> string \<Rightarrow> i64" where
  "bin_length sz files filename =
     (case files filename of None \<Rightarrow> 0 | Some bs \<Rightarrow> of_nat (length bs div sz))"

definition load_bin_all :: "nat \<Rightarrow> (bytes \<Rightarrow> 'a) \<Rightarrow> files \<Rightarrow> string \<Rightarrow> 'a list option \<Rightarrow> ('a list \<times> i64) res" where
  "load_bin_all sz dec files filename buf = load_bin sz dec files filename buf 0 (bin_length sz files filename)"

text \<open>\<open>can_open\<close>: the file can be opened for writing; \<open>room\<close>: how many elements can be written.\<close>

definition save_bin ::
  "('a \<Rightarrow> bytes) \<Rightarrow> bool \<Rightarrow> nat \<Rightarrow> string \<Rightarrow> 'a list \<Rightarrow> i64 \<Rightarrow> files \<Rightarrow> (files \<times> i64) res" where
  "save_bin enc can_open room filename buff n files =
     bindR (checkR ''open for writing failed'' can_open) (\<lambda>_.
     if length buff < min room (unat n) then Inl Out_of_bounds
     else bindR (checkR ''write failed'' (unat n \<le> room)) (\<lambda>_.
          Inr (files(filename \<mapsto> concat (map enc (take (unat n) buff))), n)))"

text \<open>The elements: \<open>size_t\<close>, and a \<open>double\<close> as its bytes.\<close>

definition load_size_t :: "files \<Rightarrow> string \<Rightarrow> i64 list option \<Rightarrow> i64 \<Rightarrow> i64 \<Rightarrow> (i64 list \<times> i64) res" where
  "load_size_t = load_bin 8 le_word"

definition load_double :: "files \<Rightarrow> string \<Rightarrow> bytes list option \<Rightarrow> i64 \<Rightarrow> i64 \<Rightarrow> (bytes list \<times> i64) res" where
  "load_double = load_bin 8 id"

section \<open>The size of a matrix\<close>

text \<open>
  \<open>in >> n\<close> for a \<open>size_t\<close>; a stream that has failed is \<open>None\<close> and changes no variable. A minus sign
  negates, a number that is too large gives the largest one and fails.
\<close>

definition stream_size_t :: "i64 \<Rightarrow> string option \<Rightarrow> i64 \<times> string option" where
  "stream_size_t old stream =
     (case stream of
        None \<Rightarrow> (old, None)
      | Some s \<Rightarrow>
          if dropWhile is_blank s = [] then (old, None)
          else
            let (neg, ds) = sign_and_digits s;
                n = decimal ds;
                rest = dropWhile (\<lambda>c. digit_of c \<noteq> None) (dropWhile (\<lambda>c. c = CHR ''-'' \<or> c = CHR ''+'') (dropWhile is_blank s))
            in if ds = [] then (0, None)
               else if 2 ^ 64 \<le> int n then (-1, None)
               else (if neg then - of_nat n else of_nat n, Some rest))"

definition open_text :: "files \<Rightarrow> string \<Rightarrow> string option" where
  "open_text files filename = map_option (map (\<lambda>b. char_of (unat b))) (files filename)"

definition RowSeg :: "files \<Rightarrow> string \<Rightarrow> Range res" where
  "RowSeg files name =
     (let inp = open_text files (name @ ''.size'')
      in bindR (checkR ''open .size failed.'' (inp \<noteq> None)) (\<lambda>_.
         let (s, inp) = stream_size_t 0 inp; (e, inp) = stream_size_t 0 inp;
             row = mk_range s e
         in bindR (checkR ''invalid row range'' (Valid row)) (\<lambda>_. Inr row)))"

definition ColSeg :: "files \<Rightarrow> string \<Rightarrow> Range res" where
  "ColSeg files name =
     (let inp = open_text files (name @ ''.size'')
      in bindR (checkR ''open .size failed.'' (inp \<noteq> None)) (\<lambda>_.
         let (rs, inp) = stream_size_t 0 inp; (re, inp) = stream_size_t 0 inp;
             (s, inp) = stream_size_t 0 inp; (e, inp) = stream_size_t 0 inp;
             col = mk_range s e
         in bindR (checkR ''invalid column range'' (Valid col)) (\<lambda>_. Inr col)))"

section \<open>Sparse matrices\<close>

text \<open>\<open>RSpMat<I, double>\<close> with an index of type \<open>'i\<close>.\<close>

record 'i RSpMat =
  m_row :: Range
  m_col :: Range
  m_nnz :: i64
  m_offset :: "i64 list option"
  m_index :: "'i list option"
  m_value :: "bytes list option"

definition RSpMat_Clear :: "'i RSpMat \<Rightarrow> 'i RSpMat" where
  "RSpMat_Clear m =
     m\<lparr>m_value := None, m_offset := None, m_index := None,
       m_row := Range_Invalid, m_col := Range_Invalid, m_nnz := 0\<rparr>"

definition m_rows :: "'i RSpMat \<Rightarrow> i64" where
  "m_rows m = Size (m_row m)"

definition m_cols :: "'i RSpMat \<Rightarrow> i64" where
  "m_cols m = Size (m_col m)"

definition has_value :: "'i RSpMat \<Rightarrow> bool" where
  "has_value m \<longleftrightarrow> m_value m \<noteq> None"

definition square :: "'i RSpMat \<Rightarrow> bool" where
  "square m \<longleftrightarrow> Range_eq (m_col m) (m_row m)"

text \<open>\<open>isz\<close> is the size of an index; \<open>jo\<close>, \<open>ji\<close> and \<open>jv\<close> are what the new memory held.\<close>

definition RSpMat_Init ::
  "nat \<Rightarrow> (nat \<Rightarrow> i64) \<Rightarrow> (nat \<Rightarrow> 'i) \<Rightarrow> (nat \<Rightarrow> bytes) \<Rightarrow> Range \<Rightarrow> Range \<Rightarrow> i64 \<Rightarrow> bool \<Rightarrow> 'i RSpMat \<Rightarrow> 'i RSpMat res" where
  "RSpMat_Init isz jo ji jv row col nnz has_val m =
     (let m = (RSpMat_Clear m)\<lparr>m_row := row, m_col := col, m_nnz := nnz\<rparr>
      in bindR (new_array 8 jo (m_rows m + 5)) (\<lambda>os.
         if length os < unat (m_rows m) then Inl Out_of_bounds
         else
           bindR (new_array isz ji (nnz + 5)) (\<lambda>is.
           bindR (if has_val then bindR (new_array 8 jv (nnz + 5)) (\<lambda>vs. Inr (Some vs)) else Inr None) (\<lambda>vs.
           Inr (m\<lparr>m_offset := Some (replicate (unat (m_rows m)) 0 @ drop (unat (m_rows m)) os),
                  m_index := Some is, m_value := vs\<rparr>)))))"

text \<open>The loop that makes the offsets relative, after the rows have been loaded.\<close>

definition shift_offset :: "i64 list \<Rightarrow> i64 list" where
  "shift_offset os = (let start = os ! 0 in if start \<noteq> 0 then map (\<lambda>x. x - start) os else os)"

text \<open>The rows to load: all of them, or those asked for if the files have them.\<close>

definition rows_to_load :: "Range \<Rightarrow> Range \<Rightarrow> Range res" where
  "rows_to_load row all =
     (if Range_eq row Range_All then Inr all
      else bindR (checkR ''try to read rows'' (SubsetEq row all)) (\<lambda>_. Inr row))"

definition load_values :: "files \<Rightarrow> string \<Rightarrow> bytes list option \<Rightarrow> i64 \<Rightarrow> i64 \<Rightarrow> bytes list option res" where
  "load_values files name buf off n =
     (if bin_length 8 files (name @ ''.value'') \<noteq> 0
      then bindR (load_double files (name @ ''.value'') buf off n) (\<lambda>(vs, _). Inr (Some vs))
      else Inr buf)"

definition RSpMat_Load :: "files \<Rightarrow> string \<Rightarrow> Range \<Rightarrow> i64 RSpMat \<Rightarrow> i64 RSpMat res" where
  "RSpMat_Load files name row m =
     (let m = RSpMat_Clear m
      in bindR (RowSeg files name) (\<lambda>all.
         bindR (rows_to_load row all) (\<lambda>row.
         bindR (ColSeg files name) (\<lambda>col.
         let m = m\<lparr>m_row := row, m_col := col\<rparr>;
             total_rows = bin_length 8 files (name @ ''.rowcnt'') - 1
         in bindR (checkR ''CHECK_EQ(total_rows, all.size())'' (total_rows = Size all)) (\<lambda>_.
            bindR (load_size_t files (name @ ''.rowcnt'') (m_offset m) (rg_start row) (m_rows m + 1)) (\<lambda>(os, _).
            bindR (arr_get (Some os) 0) (\<lambda>first.
            bindR (arr_get (Some os) (m_rows m)) (\<lambda>last.
            bindR (load_size_t files (name @ ''.colidx'') (m_index m) first last) (\<lambda>(is, nnz).
            bindR (load_values files name (m_value m) first last) (\<lambda>vs.
            Inr (m\<lparr>m_nnz := nnz, m_offset := Some (shift_offset os), m_index := Some is, m_value := vs\<rparr>)))))))))))"

text \<open>
  The loops of \<open>VSlice\<close>: over the entries of a row, writing at \<open>o\<close>, and over the rows. The result
  has \<open>uint32_t\<close> indices, so it is another object than the source.
\<close>

fun slice_row :: "i64 RSpMat \<Rightarrow> Range \<Rightarrow> i64 list \<Rightarrow> i64 \<Rightarrow> i32 RSpMat \<Rightarrow> (i64 \<times> i32 RSpMat) res" where
  "slice_row m col [] out res = Inr (out, res)"
| "slice_row m col (j # js) out res =
     bindR (arr_get (m_index m) j) (\<lambda>c.
     if Range_In col c then
       bindR (arr_set (m_index res) out (ucast (c - rg_start col))) (\<lambda>is.
       bindR (if has_value m then bindR (arr_get (m_value m) j) (\<lambda>v. arr_set (m_value res) out v)
              else Inr (m_value res)) (\<lambda>vs.
       slice_row m col js (out + 1) (res\<lparr>m_index := is, m_value := vs\<rparr>)))
     else slice_row m col js out res)"

fun slice_rows :: "i64 RSpMat \<Rightarrow> Range \<Rightarrow> i64 list \<Rightarrow> i32 RSpMat \<Rightarrow> i32 RSpMat res" where
  "slice_rows m col [] res = Inr res"
| "slice_rows m col (i # is) res =
     bindR (arr_get (m_offset res) i) (\<lambda>out.
     bindR (arr_get (m_offset m) i) (\<lambda>first.
     bindR (arr_get (m_offset m) (i + 1)) (\<lambda>last.
     bindR (slice_row m col (map of_nat [unat first..<unat last]) out res) (\<lambda>(out, res).
     bindR (arr_set (m_offset res) (i + 1) out) (\<lambda>os.
     slice_rows m col is (res\<lparr>m_offset := os\<rparr>))))))"

definition VSlice ::
  "(nat \<Rightarrow> i64) \<Rightarrow> (nat \<Rightarrow> i32) \<Rightarrow> (nat \<Rightarrow> bytes) \<Rightarrow> Range \<Rightarrow> i64 RSpMat \<Rightarrow> i32 RSpMat \<Rightarrow> i32 RSpMat res" where
  "VSlice jo ji jv col m res =
     bindR (checkR ''CHECK(col_.SupsetEq(col))'' (SupsetEq (m_col m) col)) (\<lambda>_.
     bindR (RSpMat_Init 4 jo ji jv (m_row m) col (m_nnz m) (has_value m) res) (\<lambda>res.
     slice_rows m col (map of_nat [0..<unat (m_rows m)]) res))"

end
