(* ===== verification/Sparse_Props.thy ===== *)
theory Sparse_Props
  imports Sparse_Mat
begin

text \<open>
  What dividing a range, loading a matrix and cutting out its columns do: the pieces of a range leave out a
  remainder; the rows of the files that can be loaded; and \<open>VSlice\<close> against the
  definition by filtering the entries of each row.
\<close>

section \<open>Pieces of a range\<close>

lemma unat_less_64: "unat (w :: i64) < 18446744073709551616"
  using unsigned_less [of w, where ?'a = nat] by simp

lemma EvenDivide_ok:
  assumes "rg_start r \<le> rg_end r" and "i < n" and "min_seg \<le> Size r"
  shows "\<exists>seg. EvenDivide n i min_seg r = Inr seg \<and>
    unat (rg_start seg) = unat (rg_start r) + unat i * (unat (Size r) div unat n) \<and>
    unat (rg_end seg) = unat (rg_start r) + (unat i + 1) * (unat (Size r) div unat n)"
proof -
  let ?q = "Size r div n" and ?s = "rg_start r" and ?e = "rg_end r"
  have in_: "unat i < unat n" using assms(2) by (simp add: word_less_nat_alt)
  have size: "unat (Size r) = unat ?e - unat ?s" using assms(1) by (simp add: Size_def unat_sub word_le_nat_alt)
  have q: "unat ?q = unat (Size r) div unat n" by (simp add: unat_div)
  have i1: "unat (i + 1) = unat i + 1" using in_ unat_less_64 [of n] by (simp add: unat_word_ariths)
  have le: "k * unat ?q \<le> unat (Size r)" if "k \<le> unat n" for k
    using that unfolding q by (meson div_times_less_eq_dividend le_trans mult_le_mono1 mult.commute times_div_less_eq_dividend)
  have below: "unat ?s + k * unat ?q \<le> unat ?e" if "k \<le> unat n" for k
    using le [OF that] size assms(1) by (simp add: word_le_nat_alt)
  have at: "unat (?s + ?q * k) = unat ?s + unat k * unat ?q" if "unat k \<le> unat n" for k
  proof -
    have b: "unat ?s + unat k * unat ?q < 2 ^ 64" using below [OF that] unat_less_64 [of ?e] by simp
    then have "unat (?q * k) = unat k * unat ?q" by (simp add: unat_word_ariths mult.commute)
    with b show ?thesis by (simp add: unat_word_ariths)
  qed
  have "unat (max (?s + ?q * i) ?s) = unat ?s + unat i * unat ?q"
    using at [of i] in_ by (simp add: max_def word_le_nat_alt)
  moreover have "unat (min (?s + ?q * (i + 1)) ?e) = unat ?s + (unat i + 1) * unat ?q"
    using at [of "i + 1"] in_ below [of "unat i + 1"] by (simp add: min_def word_le_nat_alt i1 del: mult_Suc)
  moreover have "EvenDivide n i min_seg r = Inr (mk_range (max (?s + ?q * i) ?s) (min (?s + ?q * (i + 1)) ?e))"
    using assms(2,3) by (simp add: EvenDivide_def Size_def Let_def not_less)
  ultimately show ?thesis by (simp add: mk_range_def q)
qed

lemma multiples_around:
  "{i :: i64. i < n \<and> unat i * q \<le> d \<and> d < (unat i + 1) * q} = (if d < unat n * q then {of_nat (d div q)} else {})"
proof -
  have "i = of_nat (d div q)" if "unat i * q \<le> d" "d < (unat i + 1) * q" for i :: i64
  proof -
    have "unat i = d div q" using that by (metis Suc_eq_plus1 div_nat_eqI mult.commute)
    then show ?thesis by (metis of_nat_unat ucast_id)
  qed
  moreover have "d < unat n * q" if "i < n" "d < (unat i + 1) * q" for i
    by (rule less_le_trans [OF that(2) mult_le_mono1]) (use that(1) in \<open>simp add: word_less_nat_alt\<close>)
  moreover have "of_nat (d div q) < n \<and> unat (of_nat (d div q) :: i64) = d div q" if "d < unat n * q"
  proof -
    have "0 < q" using that by (cases q) auto
    with that have "d div q < unat n" by (simp add: div_less_iff_less_mult)
    moreover then have "unat (of_nat (d div q) :: i64) = d div q" using unat_less_64 [of n] by (simp add: unat_of_nat)
    ultimately show ?thesis by (simp add: word_less_nat_alt)
  qed
  moreover have "(d div q) * q \<le> d" "0 < q \<Longrightarrow> d < (d div q + 1) * q"
    by (simp_all add: dividend_less_div_times add.commute)
  ultimately show ?thesis
    by (cases q) (auto simp del: mult_Suc)
qed

text \<open>
  The pieces of \<open>EvenDivide\<close>. Each lies in the range, and an element of the range is in exactly one piece when
  its distance from the start is below the largest multiple of \<open>n\<close> that fits; the
  elements behind, as many as the size leaves as remainder, are in none.
\<close>

theorem even_divide_pieces:
  assumes "rg_start r \<le> rg_end r" and "0 < n" and "min_seg \<le> Size r"
  shows "(\<forall>i seg. i < n \<longrightarrow> EvenDivide n i min_seg r = Inr seg \<longrightarrow> SubsetEq seg r) \<and>
    (\<forall>v. Range_In r v \<longrightarrow>
      card {i. i < n \<and> (\<exists>seg. EvenDivide n i min_seg r = Inr seg \<and> Range_In seg v)} =
      (if unat v - unat (rg_start r) < unat n * (unat (Size r) div unat n) then 1 else 0))"
proof -
  let ?s = "unat (rg_start r)" and ?q = "unat (Size r) div unat n"
  have seg: "SubsetEq seg r \<and> unat (rg_start seg) = ?s + unat i * ?q \<and> unat (rg_end seg) = ?s + (unat i + 1) * ?q"
    if "i < n" "EvenDivide n i min_seg r = Inr seg" for i seg
  proof -
    have e: "unat (rg_start seg) = ?s + unat i * ?q" "unat (rg_end seg) = ?s + (unat i + 1) * ?q"
      using EvenDivide_ok [OF assms(1) that(1) assms(3)] that(2) by auto
    have "(unat i + 1) * ?q \<le> unat n * ?q" using that(1) by (intro mult_le_mono1) (simp add: word_less_nat_alt)
    also have "\<dots> \<le> unat (Size r)" by (rule times_div_less_eq_dividend)
    also have "\<dots> = unat (rg_end r) - ?s" using assms(1) by (simp add: Size_def unat_sub word_le_nat_alt)
    finally show ?thesis using e assms(1) by (simp add: SubsetEq_def word_le_nat_alt)
  qed
  have pos: "?s \<le> unat v" if "Range_In r v" for v using that by (simp add: Range_In_def word_le_nat_alt)
  have piece: "(\<exists>seg. EvenDivide n i min_seg r = Inr seg \<and> Range_In seg v) \<longleftrightarrow>
      unat i * ?q \<le> unat v - ?s \<and> unat v - ?s < (unat i + 1) * ?q" if "i < n" "Range_In r v" for i v
  proof -
    from EvenDivide_ok [OF assms(1) that(1) assms(3)] obtain seg where "EvenDivide n i min_seg r = Inr seg" by blast
    with seg [OF that(1) this] pos [OF that(2)] show ?thesis
      by (auto simp: Range_In_def word_le_nat_alt word_less_nat_alt simp del: mult_Suc)
  qed
  have "card {i. i < n \<and> (\<exists>seg. EvenDivide n i min_seg r = Inr seg \<and> Range_In seg v)} =
      (if unat v - ?s < unat n * ?q then 1 else 0)" if "Range_In r v" for v
  proof -
    let ?d = "unat v - ?s"
    have "{i. i < n \<and> (\<exists>seg. EvenDivide n i min_seg r = Inr seg \<and> Range_In seg v)} =
        {i. i < n \<and> unat i * ?q \<le> ?d \<and> ?d < (unat i + 1) * ?q}"
      using piece [OF _ that] by blast
    also have "\<dots> = (if ?d < unat n * ?q then {of_nat (?d div ?q)} else {})" by (rule multiples_around)
    finally show ?thesis by simp
  qed
  with seg show ?thesis by blast
qed

theorem even_divide_pieces_witness:
  "card {i. i < 3 \<and> (\<exists>seg. EvenDivide 3 i 0 (mk_range 0 7) = Inr seg \<and> Range_In seg 5)} = 1 \<and>
   card {i. i < 3 \<and> (\<exists>seg. EvenDivide 3 i 0 (mk_range 0 7) = Inr seg \<and> Range_In seg 6)} = 0"
proof -
  have h: "rg_start (mk_range 0 7) \<le> rg_end (mk_range 0 7)" "(0 :: i64) < 3" "0 \<le> Size (mk_range 0 7)"
    by (simp_all add: mk_range_def)
  have "Range_In (mk_range 0 7) 5" "Range_In (mk_range 0 7) 6" by (simp_all add: Range_In_def mk_range_def)
  with even_divide_pieces [OF h] show ?thesis by (simp add: Size_def mk_range_def)
qed

section \<open>Cutting out columns\<close>

text \<open>The entries of a row: column and value.\<close>

definition entry :: "'i RSpMat \<Rightarrow> nat \<Rightarrow> 'i \<times> bytes option" where
  "entry m j = (the (m_index m) ! j, map_option (\<lambda>vs. vs ! j) (m_value m))"

definition row_entries :: "'i RSpMat \<Rightarrow> nat \<Rightarrow> ('i \<times> bytes option) list" where
  "row_entries m i = map (entry m) [unat (the (m_offset m) ! i)..<unat (the (m_offset m) ! Suc i)]"

lemma row_entries_offset:
  "row_entries (m\<lparr>m_offset := Some os\<rparr>) k = map (entry m) [unat (os ! k)..<unat (os ! Suc k)]"
  by (simp add: row_entries_def entry_def)

definition slice_entry :: "Range \<Rightarrow> i64 \<times> bytes option \<Rightarrow> i32 \<times> bytes option" where
  "slice_entry col x = (ucast (fst x - rg_start col), snd x)"

definition slice_entries :: "Range \<Rightarrow> (i64 \<times> bytes option) list \<Rightarrow> (i32 \<times> bytes option) list" where
  "slice_entries col xs = map (slice_entry col) (filter (\<lambda>x. Range_In col (fst x)) xs)"

text \<open>The arrays of a matrix that has \<open>l\<close> places for entries.\<close>

definition places :: "nat \<Rightarrow> bool \<Rightarrow> 'i RSpMat \<Rightarrow> bool" where
  "places l valued m \<longleftrightarrow> (\<exists>is. m_index m = Some is \<and> l \<le> length is) \<and>
     (if valued then \<exists>vs. m_value m = Some vs \<and> l \<le> length vs else m_value m = None)"

definition put_entry :: "nat \<Rightarrow> 'i \<times> bytes option \<Rightarrow> 'i RSpMat \<Rightarrow> 'i RSpMat" where
  "put_entry k x m = m\<lparr>m_index := map_option (\<lambda>is. is[k := fst x]) (m_index m),
     m_value := map_option (\<lambda>vs. vs[k := the (snd x)]) (m_value m)\<rparr>"

lemma put_entry_at:
  assumes "places l valued m" and "k < l" and "snd x \<noteq> None \<longleftrightarrow> valued"
  shows "entry (put_entry k x m) k = x" and "j \<noteq> k \<Longrightarrow> entry (put_entry k x m) j = entry m j"
    and "places l valued (put_entry k x m)"
  using assms by (cases x; auto simp: entry_def put_entry_def places_def split: if_split_asm)+

lemma slice_row_ok:
  assumes "places l valued m" and "\<forall>j \<in> set js. unat j < l"
    and "places l' valued res" and "unat out + length js \<le> l'" and "l' < 18446744073709551616"
  shows "\<exists>res'. slice_row m col js out res =
      Inr (out + of_nat (length (slice_entries col (map (entry m \<circ> unat) js))), res') \<and>
    places l' valued res' \<and> m_offset res' = m_offset res \<and> m_row res' = m_row res \<and> m_col res' = m_col res \<and>
    m_nnz res' = m_nnz res \<and> (\<forall>k < unat out. entry res' k = entry res k) \<and>
    map (entry res') [unat out..<unat out + length (slice_entries col (map (entry m \<circ> unat) js))] =
      slice_entries col (map (entry m \<circ> unat) js)"
  using assms(2-4)
proof (induction js arbitrary: out res)
  case Nil
  then show ?case by (auto simp: slice_entries_def)
next
  case (Cons j js)
  have j: "unat j < l" and js: "\<forall>j \<in> set js. unat j < l" using Cons.prems(1) by auto
  have c: "arr_get (m_index m) j = Inr (fst (entry m (unat j)))"
    using assms(1) j by (auto simp: places_def arr_get_def entry_def)
  show ?case
  proof (cases "Range_In col (fst (entry m (unat j)))")
    case False
    with Cons.IH [OF js Cons.prems(2)] Cons.prems(3) c show ?thesis by (simp add: slice_entries_def)
  next
    case True
    let ?x = "slice_entry col (entry m (unat j))"
    let ?res = "put_entry (unat out) ?x res"
    let ?ys = "slice_entries col (map (entry m \<circ> unat) js)"
    have v: "snd ?x \<noteq> None \<longleftrightarrow> valued" using assms(1) by (auto simp: slice_entry_def entry_def places_def split: if_split_asm)
    have lt: "unat out < l'" using Cons.prems(3) by simp
    have out1: "unat (out + 1) = unat out + 1" using lt assms(5) by (simp add: unat_word_ariths)
    note put = put_entry_at [OF Cons.prems(2) lt v]
    have step: "slice_row m col (j # js) out res = slice_row m col js (out + 1) ?res"
      using True c Cons.prems(2) assms(1) j lt
      by (cases valued) (auto simp: arr_get_def arr_set_def places_def has_value_def put_entry_def slice_entry_def entry_def)
    have "unat (out + 1) + length js \<le> l'" using Cons.prems(3) out1 by simp
    from Cons.IH [OF js put(3) this] obtain res' where r: "slice_row m col js (out + 1) ?res = Inr (out + 1 + of_nat (length ?ys), res')"
      "places l' valued res'" "m_offset res' = m_offset ?res" "m_row res' = m_row ?res" "m_col res' = m_col ?res" "m_nnz res' = m_nnz ?res"
      "\<forall>k < unat (out + 1). entry res' k = entry ?res k" "map (entry res') [unat (out + 1)..<unat (out + 1) + length ?ys] = ?ys"
      by blast
    have all: "slice_entries col (map (entry m \<circ> unat) (j # js)) = ?x # ?ys" using True by (simp add: slice_entries_def)
    have "entry res' (unat out) = ?x" using r(7) out1 put(1) by simp
    moreover have "\<forall>k < unat out. entry res' k = entry res k" using r(7) out1 put(2) by simp
    moreover have "[unat out..<unat out + Suc (length ?ys)] = unat out # [unat (out + 1)..<unat (out + 1) + length ?ys]"
      using out1 by (simp add: upt_conv_Cons del: upt_Suc)
    ultimately show ?thesis
      unfolding all using r(1-6,8) step
      by (intro exI [of _ res']) (simp add: put_entry_def add.assoc del: upt_Suc slice_row.simps)
  qed
qed

text \<open>
  A matrix whose offsets and arrays fit together: \<open>n\<close> rows, whose offsets grow up to the number
  of places.
\<close>

definition mat_ok :: "'i RSpMat \<Rightarrow> bool" where
  "mat_ok m \<longleftrightarrow> (\<exists>os. m_offset m = Some os \<and> unat (m_rows m) < length os \<and>
       (\<forall>i < unat (m_rows m). os ! i \<le> os ! Suc i) \<and> unat (os ! unat (m_rows m)) \<le> unat (m_nnz m)) \<and>
     places (unat (m_nnz m)) (has_value m) m \<and> unat (m_rows m) < 2 ^ 59 \<and> unat (m_nnz m) < 2 ^ 59"

text \<open>The result after the rows below \<open>i\<close>.\<close>

definition sliced :: "Range \<Rightarrow> i64 RSpMat \<Rightarrow> nat \<Rightarrow> i32 RSpMat \<Rightarrow> bool" where
  "sliced col m i res \<longleftrightarrow> (\<exists>ros. m_offset res = Some ros \<and> length ros = unat (m_rows m) + 5 \<and>
       unat (ros ! i) \<le> unat (the (m_offset m) ! i) \<and> (\<forall>k < i. ros ! k \<le> ros ! Suc k)) \<and>
     places (unat (m_nnz m) + 5) (has_value m) res \<and>
     m_row res = m_row m \<and> m_col res = col \<and> m_nnz res = m_nnz m \<and>
     (\<forall>k < i. row_entries res k = slice_entries col (row_entries m k))"

lemma le_chain: "(\<And>k. k < i \<Longrightarrow> f k \<le> f (Suc k)) \<Longrightarrow> j \<le> i \<Longrightarrow> f j \<le> (f i :: 'a :: order)"
  by (induction i) (auto simp: le_Suc_eq intro: order_trans)

lemma slice_rows_step:
  assumes "mat_ok m" and "i < unat (m_rows m)" and "sliced col m i res"
  shows "\<exists>res'. slice_rows m col (of_nat i # is) res = slice_rows m col is res' \<and> sliced col m (Suc i) res'"
proof -
  obtain os where os: "m_offset m = Some os" "unat (m_rows m) < length os"
      "\<forall>i < unat (m_rows m). os ! i \<le> os ! Suc i" "unat (os ! unat (m_rows m)) \<le> unat (m_nnz m)"
    and pm: "places (unat (m_nnz m)) (has_value m) m" and small: "unat (m_rows m) < 2 ^ 59" "unat (m_nnz m) < 2 ^ 59"
    using assms(1) by (auto simp: mat_ok_def)
  obtain ros where ros: "m_offset res = Some ros" "length ros = unat (m_rows m) + 5" "unat (ros ! i) \<le> unat (os ! i)"
      "\<forall>k < i. ros ! k \<le> ros ! Suc k"
    and pr: "places (unat (m_nnz m) + 5) (has_value m) res"
    and rest: "m_row res = m_row m" "m_col res = col" "m_nnz res = m_nnz m"
      "\<forall>k < i. row_entries res k = slice_entries col (row_entries m k)"
    using assms(3) os(1) by (auto simp: sliced_def)
  have i: "unat (of_nat i :: i64) = i" "unat (of_nat i + 1 :: i64) = Suc i"
    using assms(2) small(1) by (simp_all add: unat_of_nat unat_word_ariths)
  let ?a = "unat (os ! i)" and ?b = "unat (os ! Suc i)" and ?out = "ros ! i"
  let ?js = "map of_nat [?a..<?b] :: i64 list" and ?ys = "slice_entries col (row_entries m i)"
  have ab: "?a \<le> ?b" using os(3) assms(2) by (simp add: word_le_nat_alt)
  have b: "?b \<le> unat (m_nnz m)"
    using le_chain [of "unat (m_rows m)" "\<lambda>k. os ! k" "Suc i"] os(3,4) assms(2) by (simp add: word_le_nat_alt)
  have ents: "map (entry m \<circ> unat) ?js = row_entries m i"
    using b small(2) by (auto simp: row_entries_def os(1) unat_of_nat)
  have len: "length ?ys \<le> ?b - ?a"
    using length_filter_le [of "\<lambda>x. Range_In col (fst x)" "row_entries m i"] by (simp add: slice_entries_def row_entries_def os(1))
  have "\<forall>j \<in> set ?js. unat j < unat (m_nnz m)" using b small(2) by (auto simp: unat_of_nat)
  moreover have "unat ?out + length ?js \<le> unat (m_nnz m) + 5" using ros(3) ab b by simp
  ultimately obtain res1 where r: "slice_row m col ?js ?out res = Inr (?out + of_nat (length ?ys), res1)"
    "places (unat (m_nnz m) + 5) (has_value m) res1" "m_offset res1 = m_offset res" "m_row res1 = m_row res" "m_col res1 = m_col res"
    "m_nnz res1 = m_nnz res" "\<forall>k < unat ?out. entry res1 k = entry res k"
    "map (entry res1) [unat ?out..<unat ?out + length ?ys] = ?ys"
    using slice_row_ok [OF pm _ pr, of ?js ?out col] small(2) unfolding ents by auto
  let ?out' = "?out + of_nat (length ?ys)" and ?res = "res1\<lparr>m_offset := Some (ros[Suc i := ?out + of_nat (length ?ys)])\<rparr>"
  have out': "unat ?out' = unat ?out + length ?ys"
    using ros(3) len ab b small(2) by (simp add: unat_word_ariths unat_of_nat)
  have "slice_rows m col (of_nat i # is) res = slice_rows m col is ?res"
    using os(1,2) ros(1,2) assms(2) r(1,3) i by (simp add: arr_get_def arr_set_def)
  moreover have "row_entries ?res k = slice_entries col (row_entries m k)" if k: "k < Suc i" for k
  proof (cases "k = i")
    case True
    then show ?thesis using r(8) out' ros(2) assms(2) by (simp add: row_entries_offset)
  next
    case False
    with k have "ros ! Suc k \<le> ros ! i" using le_chain [of i "\<lambda>k. ros ! k" "Suc k"] ros(4) by auto
    then have "row_entries ?res k = row_entries res k"
      using False k r(7) ros(1,2) assms(2) by (auto simp: row_entries_offset row_entries_def [of res] word_le_nat_alt)
    with rest(4) False k show ?thesis by simp
  qed
  moreover have "places (unat (m_nnz m) + 5) (has_value m) ?res" using r(2) by (simp add: places_def)
  moreover have "unat ?out' \<le> ?b" using out' ros(3) len ab by simp
  moreover have "ros ! i \<le> ?out'" using out' by (simp add: word_le_nat_alt)
  ultimately show ?thesis
    using r rest ros(2,4) assms(2) os(1)
    by (intro exI [of _ ?res]) (auto simp: sliced_def less_Suc_eq nth_list_update)
qed

lemma slice_rows_ok:
  "mat_ok m \<Longrightarrow> sliced col m i res \<Longrightarrow> i \<le> unat (m_rows m) \<Longrightarrow>
   \<exists>res'. slice_rows m col (map of_nat [i..<unat (m_rows m)]) res = Inr res' \<and> sliced col m (unat (m_rows m)) res'"
proof (induction "unat (m_rows m) - i" arbitrary: i res)
  case (Suc d)
  then have "[i..<unat (m_rows m)] = i # [Suc i..<unat (m_rows m)]" by (simp add: upt_conv_Cons)
  moreover obtain res1 where "slice_rows m col (of_nat i # map of_nat [Suc i..<unat (m_rows m)]) res =
      slice_rows m col (map of_nat [Suc i..<unat (m_rows m)]) res1" "sliced col m (Suc i) res1"
    using slice_rows_step Suc.prems Suc.hyps(2) by (metis zero_less_Suc zero_less_diff)
  moreover have "d = unat (m_rows m) - Suc i" "Suc i \<le> unat (m_rows m)" using Suc.hyps(2) by auto
  ultimately show ?case using Suc.hyps(1) [of "Suc i" res1] Suc.prems(1) by simp
qed auto

lemma Init_ok:
  assumes "mat_ok m" and "0 < unat (m_rows m)"
  shows "\<exists>res'. RSpMat_Init 4 jo ji jv (m_row m) col (m_nnz m) (has_value m) res = Inr res' \<and> sliced col m 0 res'"
proof -
  have small: "unat (m_rows m) < 2 ^ 59" "unat (m_nnz m) < 2 ^ 59" using assms(1) by (auto simp: mat_ok_def)
  then have "unat (m_rows m + 5) = unat (m_rows m) + 5" "unat (m_nnz m + 5) = unat (m_nnz m) + 5"
    by (simp_all add: unat_word_ariths)
  with small assms(2) show ?thesis
    by (auto simp: RSpMat_Init_def new_array_def sliced_def places_def m_rows_def Let_def nth_append RSpMat_Clear_def)
qed

lemma VSlice_sliced:
  assumes "mat_ok m" and "SupsetEq (m_col m) col" and "0 < unat (m_rows m)"
  shows "\<exists>res'. VSlice jo ji jv col m res = Inr res' \<and> sliced col m (unat (m_rows m)) res'"
proof -
  from Init_ok [OF assms(1,3)] obtain res1 where
    1: "RSpMat_Init 4 jo ji jv (m_row m) col (m_nnz m) (has_value m) res = Inr res1" "sliced col m 0 res1" by blast
  with slice_rows_ok [OF assms(1) this(2)] assms(2) show ?thesis by (simp add: VSlice_def)
qed

text \<open>
  C20: \<open>VSlice\<close> agrees with filtering. On a matrix whose offsets and arrays fit together it makes, inside
  the arrays it allocates, a matrix with the same rows in which every row has exactly the entries of the source row
  whose column lies in the block, in the same order, with columns counted from the start of the
  block and cut to 32 bits. The number of entries it records is that of the source.
\<close>

theorem vslice_is_filter:
  assumes "mat_ok m" and "SupsetEq (m_col m) col"
  shows "\<exists>res'. VSlice jo ji jv col m res = Inr res' \<and> m_row res' = m_row m \<and> m_col res' = col \<and> m_nnz res' = m_nnz m \<and>
    (\<forall>i < unat (m_rows m). row_entries res' i =
       map (\<lambda>(c, v). (ucast (c - rg_start col), v)) (filter (\<lambda>(c, v). Range_In col c) (row_entries m i)))"
proof (cases "0 < unat (m_rows m)")
  case True
  with VSlice_sliced [OF assms this, of jo ji jv res] show ?thesis
    by (auto simp: sliced_def slice_entries_def slice_entry_def case_prod_unfold)
next
  case False
  then have z: "Size (m_row m) = 0" by (simp add: m_rows_def unat_eq_zero)
  moreover have "unat (m_nnz m) < 2 ^ 59" using assms(1) by (simp add: mat_ok_def)
  then have "unat (m_nnz m + 5) = unat (m_nnz m) + 5" by (simp add: unat_word_ariths)
  ultimately show ?thesis
    using assms(2) \<open>unat (m_nnz m) < 2 ^ 59\<close> False
    by (simp add: VSlice_def RSpMat_Init_def new_array_def m_rows_def RSpMat_Clear_def Let_def)
qed

text \<open>Two rows and three columns, cut to the last two columns.\<close>

definition sample_mat :: "i64 RSpMat" where
  "sample_mat = \<lparr>m_row = mk_range 0 2, m_col = mk_range 0 3, m_nnz = 3, m_offset = Some [0, 2, 3], m_index = Some [0, 2, 1], m_value = None\<rparr>"

definition empty_mat :: "'i RSpMat" where
  "empty_mat = \<lparr>m_row = Range_Invalid, m_col = Range_Invalid, m_nnz = 0, m_offset = None, m_index = None, m_value = None\<rparr>"

theorem vslice_is_filter_witness:
  "\<exists>res'. VSlice (\<lambda>_. 7) (\<lambda>_. 7) (\<lambda>_. []) (mk_range 1 3) sample_mat empty_mat = Inr res' \<and>
     row_entries res' 0 = [(1, None)] \<and> row_entries res' 1 = [(0, None)]"
proof -
  have m: "unat (m_rows sample_mat) = 2" by (simp add: sample_mat_def m_rows_def Size_def mk_range_def)
  have ok: "mat_ok sample_mat"
    unfolding mat_ok_def m by (auto simp: sample_mat_def places_def has_value_def less_2_cases_iff)
  have sup: "SupsetEq (m_col sample_mat) (mk_range 1 3)" by (simp add: sample_mat_def SupsetEq_def mk_range_def)
  have rows: "row_entries sample_mat 0 = [(0, None), (2, None)]" "row_entries sample_mat 1 = [(1, None)]"
    by (simp_all add: row_entries_def entry_def sample_mat_def upt_rec)
  have ix: "(0 :: nat) < unat (m_rows sample_mat)" "(1 :: nat) < unat (m_rows sample_mat)" by (simp_all add: m)
  from vslice_is_filter [OF ok sup, of "\<lambda>_. 7" "\<lambda>_. 7" "\<lambda>_. []" empty_mat] obtain res' where
    "VSlice (\<lambda>_. 7) (\<lambda>_. 7) (\<lambda>_. []) (mk_range 1 3) sample_mat empty_mat = Inr res'"
    "\<forall>i < unat (m_rows sample_mat). row_entries res' i =
       map (\<lambda>(c, v). (ucast (c - rg_start (mk_range 1 3)), v)) (filter (\<lambda>(c, v). Range_In (mk_range 1 3) c) (row_entries sample_mat i))"
    by blast
  moreover from this(2) ix have "row_entries res' 0 = [(1, None)]" "row_entries res' 1 = [(0, None)]"
    by (simp_all add: rows rows(2) [unfolded One_nat_def] Range_In_def mk_range_def)
  ultimately show ?thesis by blast
qed

section \<open>Loading\<close>

lemma ColSeg_Valid: "ColSeg fsys f = Inr col \<Longrightarrow> Valid col"
  by (auto simp: ColSeg_def Let_def bindR_Inr_iff split: prod.splits)

lemma chunks_concat:
  "(\<And>x. x \<in> set xs \<Longrightarrow> length (enc x) = sz) \<Longrightarrow> 0 < sz \<Longrightarrow> chunks sz (concat (map enc xs)) = map enc xs"
  by (induction xs) (simp_all add: chunks.simps [of sz "[]"] chunks.simps [of sz "_ @ _"])

lemma drop_concat:
  "(\<And>x. x \<in> set xs \<Longrightarrow> length (enc x) = sz) \<Longrightarrow> drop (k * sz) (concat (map enc xs)) = concat (map enc (drop k xs))"
proof (induction xs arbitrary: k)
  case (Cons x xs)
  then show ?case by (cases k) auto
qed simp

text \<open>Elements \<open>off\<close> to \<open>off + n\<close> of a file, if there are so many.\<close>

lemma load_bin_ok:
  assumes "files f = Some (concat (map enc xs))" and "\<And>x. x \<in> set xs \<Longrightarrow> length (enc x) = 8" and "\<And>x. x \<in> set xs \<Longrightarrow> dec (enc x) = x"
    and "unat off < 2 ^ 59" and "unat n < 2 ^ 59"
  shows "load_bin 8 dec files f None off n =
    (if unat n \<le> length xs - unat off then Inr (take (unat n) (drop (unat off) xs), n) else Inl (Check_failed ''read failed''))"
proof -
  have pos: "unat (off * 8) = unat off * 8" using assms(4) by (simp add: unat_word_ariths)
  have "unat (off * 8) < 2 ^ 63" unfolding pos using assms(4) by simp
  then have "int (unat (off * 8)) < int (2 ^ 63)" by (simp only: of_nat_less_iff)
  then have "uint (off * 8) < 2 ^ 63" by simp
  moreover have "- (2 ^ 63) \<le> uint (off * 8)" by (rule order_trans [OF _ uint_ge_0]) simp
  ultimately have "sint (off * 8) = uint (off * 8)"
    using signed_take_bit_int_eq_self [of 63 "uint (off * 8)"] by (simp add: sint_uint)
  then have seek: "0 \<le> sint (off * 8)" by simp
  have "chunks 8 (concat (map enc (drop (unat off) xs))) = map enc (drop (unat off) xs)"
    by (rule chunks_concat) (auto dest: in_set_dropD simp: assms(2))
  moreover have "map dec (map enc (take (unat n) (drop (unat off) xs))) = take (unat n) (drop (unat off) xs)"
    by (auto simp: comp_def intro!: map_idI assms(3) dest!: in_set_takeD in_set_dropD)
  ultimately show ?thesis
    using assms(1,5) seek
    by (simp add: load_bin_def new_array_def Let_def pos drop_concat [OF assms(2)] take_map)
qed

text \<open>
  The files of a matrix: \<open>os\<close> the offsets of its rows, \<open>is\<close> and \<open>vs\<close> its entries. The sizes are
  read from the text file.
\<close>

definition mat_files :: "files \<Rightarrow> string \<Rightarrow> Range \<Rightarrow> Range \<Rightarrow> i64 list \<Rightarrow> i64 list \<Rightarrow> bytes list option \<Rightarrow> bool" where
  "mat_files files name all col os is vs \<longleftrightarrow>
     RowSeg files name = Inr all \<and> ColSeg files name = Inr col \<and>
     files (name @ ''.rowcnt'') = Some (concat (map i64_bytes os)) \<and>
     files (name @ ''.colidx'') = Some (concat (map i64_bytes is)) \<and>
     files (name @ ''.value'') = map_option concat vs \<and>
     length os = unat (Size all) + 1 \<and> length os < 2 ^ 59 \<and> length is < 2 ^ 59 \<and> is \<noteq> [] \<and>
     (\<forall>ws. vs = Some ws \<longrightarrow> length ws = length is \<and> (\<forall>w \<in> set ws. length w = 8)) \<and>
     (\<forall>i < unat (Size all). os ! i \<le> os ! Suc i) \<and> unat (last os) \<le> length is"

lemma bin_length_ok:
  "files f = Some (concat (map enc xs)) \<Longrightarrow> (\<And>x. x \<in> set xs \<Longrightarrow> length (enc x) = 8) \<Longrightarrow> bin_length 8 files f = of_nat (length xs)"
  using length_concat_map_fixed [of xs enc 8] by (simp add: bin_length_def)

text \<open>What was saved is loaded back.\<close>

lemma save_load_bin:
  assumes "unat n \<le> length buff" and "unat n \<le> room" and "unat n < 2 ^ 59"
    and "\<And>x. x \<in> set buff \<Longrightarrow> length (enc x) = 8" and "\<And>x. x \<in> set buff \<Longrightarrow> dec (enc x) = x"
  shows "\<exists>files'. save_bin enc True room f buff n files = Inr (files', n) \<and>
    load_bin_all 8 dec files' f None = Inr (take (unat n) buff, n)"
proof -
  let ?fs = "files(f \<mapsto> concat (map enc (take (unat n) buff)))"
  have "bin_length 8 ?fs f = of_nat (length (take (unat n) buff))"
    by (rule bin_length_ok [of _ _ enc]) (auto dest!: in_set_takeD simp: assms(4))
  then have n: "bin_length 8 ?fs f = n" using assms(1) by simp
  have "load_bin 8 dec ?fs f None 0 n =
      (if unat n \<le> length (take (unat n) buff) - unat (0 :: i64) then Inr (take (unat n) (drop (unat (0 :: i64)) (take (unat n) buff)), n)
       else Inl (Check_failed ''read failed''))"
    by (rule load_bin_ok [where enc = enc]) (use assms(3) in \<open>auto dest!: in_set_takeD simp: assms(4,5)\<close>)
  with n assms(1,2) show ?thesis by (simp add: save_bin_def load_bin_all_def)
qed

lemma load_size_t_ok:
  "files f = Some (concat (map i64_bytes xs)) \<Longrightarrow> unat off < 2 ^ 59 \<Longrightarrow> unat n < 2 ^ 59 \<Longrightarrow>
   load_size_t files f None off n =
    (if unat n \<le> length xs - unat off then Inr (take (unat n) (drop (unat off) xs), n) else Inl (Check_failed ''read failed''))"
  unfolding load_size_t_def by (rule load_bin_ok) auto

lemma load_double_ok:
  assumes "files f = Some (concat ws)" and "\<forall>w \<in> set ws. length w = 8" and "unat off < 2 ^ 59" and "unat n < 2 ^ 59"
  shows "load_double files f None off n =
    (if unat n \<le> length ws - unat off then Inr (take (unat n) (drop (unat off) ws), n) else Inl (Check_failed ''read failed''))"
  unfolding load_double_def by (rule load_bin_ok [where enc = id]) (use assms in auto)

lemma mat_files_offsets:
  assumes "mat_files files name all col os is vs" and "i \<le> j" and "j < length os"
  shows "unat (os ! i) \<le> unat (os ! j)" and "unat (os ! j) \<le> length is" and "unat (os ! j) < 2 ^ 59"
proof -
  have os: "length os = unat (Size all) + 1" "\<And>i. i < unat (Size all) \<Longrightarrow> os ! i \<le> os ! Suc i" "unat (last os) \<le> length is"
      "length is < 2 ^ 59"
    using assms(1) by (auto simp: mat_files_def)
  show "unat (os ! i) \<le> unat (os ! j)"
    using le_chain [of j "\<lambda>k. os ! k" i] os(1,2) assms(2,3) by (simp add: word_le_nat_alt)
  have "last os = os ! unat (Size all)" using os(1) by (cases "os = []") (simp_all add: last_conv_nth)
  then show j: "unat (os ! j) \<le> length is"
    using le_chain [of "unat (Size all)" "\<lambda>k. os ! k" j] os assms(3) by (simp add: word_le_nat_alt)
  with os(4) show "unat (os ! j) < 2 ^ 59" by simp
qed

lemma map_upt_shift: "c \<le> p \<Longrightarrow> map (\<lambda>j. g (c + j)) [p - c..<q - c] = map g [p..<q :: nat]"
  by (rule nth_equalityI) auto

lemma shift_offset_at:
  assumes "os \<noteq> []" and "i < length os" and "os ! 0 \<le> os ! i"
  shows "unat (shift_offset os ! i) = unat (os ! i) - unat (os ! 0)"
  using assms by (auto simp: shift_offset_def Let_def unat_sub word_le_nat_alt)

text \<open>The rows of a loaded matrix are those of the files.\<close>

lemma loaded_rows:
  assumes "mat_files files name all col os is vs" and "a < b" and "b < length os" and "i < b - a"
    and "m_offset m' = Some (shift_offset (take (b - a + 1) (drop a os)))"
    and "m_index m' = Some (take (unat (os ! b)) (drop (unat (os ! a)) is))"
    and "m_value m' = map_option (\<lambda>ws. take (unat (os ! b)) (drop (unat (os ! a)) ws)) vs"
  shows "row_entries m' i = map (\<lambda>j. (is ! j, map_option (\<lambda>ws. ws ! j) vs)) [unat (os ! (a + i))..<unat (os ! (a + i + 1))]"
proof -
  let ?os = "take (b - a + 1) (drop a os)" and ?c = "unat (os ! a)"
  note mono = mat_files_offsets [OF assms(1)]
  have at: "?os ! k = os ! (a + k)" if "k \<le> b - a" for k using that assms(2,3) by simp
  have off: "unat (shift_offset ?os ! k) = unat (os ! (a + k)) - ?c" if "k \<le> b - a" for k
    using shift_offset_at [of ?os k] that assms(2,3) mono(1) [of a "a + k"] at [OF that] at [of 0]
    by (auto simp: word_le_nat_alt)
  have "i \<le> b - a" "Suc i \<le> b - a" using assms(4) by auto
  then have "row_entries m' i = map (entry m') [unat (os ! (a + i)) - ?c..<unat (os ! (a + i + 1)) - ?c]"
    using off by (simp add: row_entries_def assms(5))
  also have "\<dots> = map (\<lambda>j. (is ! (?c + j), map_option (\<lambda>ws. ws ! (?c + j)) vs)) [unat (os ! (a + i)) - ?c..<unat (os ! (a + i + 1)) - ?c]"
  proof (rule map_cong [OF refl])
    fix j assume "j \<in> set [unat (os ! (a + i)) - ?c..<unat (os ! (a + i + 1)) - ?c]"
    moreover have "unat (os ! (a + i + 1)) \<le> unat (os ! b)" "unat (os ! b) \<le> length is"
      using mono(1) [of "a + i + 1" b] mono(2) [of b b] assms(3,4) by auto
    moreover have "length ws = length is" if "vs = Some ws" for ws using assms(1) that by (simp add: mat_files_def)
    ultimately show "entry m' j = (is ! (?c + j), map_option (\<lambda>ws. ws ! (?c + j)) vs)"
      by (cases vs) (auto simp: entry_def assms(6,7))
  qed
  also have "\<dots> = map (\<lambda>j. (is ! j, map_option (\<lambda>ws. ws ! j) vs)) [unat (os ! (a + i))..<unat (os ! (a + i + 1))]"
    using mono(1) [of a "a + i"] assms(3,4) by (intro map_upt_shift) auto
  finally show ?thesis .
qed

lemma load_values_ok:
  assumes "mat_files files name all col os is vs" and "unat off < 2 ^ 59" and "unat n < 2 ^ 59"
    and "unat off + unat n \<le> length is"
  shows "load_values files name None off n =
    Inr (map_option (\<lambda>ws. take (unat n) (drop (unat off) ws)) vs)"
proof (cases vs)
  case None
  then show ?thesis using assms(1) by (simp add: load_values_def bin_length_def mat_files_def)
next
  case (Some ws)
  have ws: "files (name @ ''.value'') = Some (concat ws)" "length ws = length is" "\<forall>w \<in> set ws. length w = 8"
    and small: "length is < 2 ^ 59" "is \<noteq> []"
    using assms(1) Some by (auto simp: mat_files_def)
  have "bin_length 8 files (name @ ''.value'') = of_nat (length is)"
    using bin_length_ok [of files "name @ ''.value''" id ws] ws by simp
  moreover have "(of_nat (length is) :: i64) \<noteq> 0" using small by (simp add: word_unat_eq_iff unat_of_nat)
  moreover have "unat n \<le> length ws - unat off" using assms(4) ws(2) by simp
  ultimately show ?thesis
    using load_double_ok [of files "name @ ''.value''" ws off n] ws(1,3) assms(2,3) Some by (simp add: load_values_def)
qed

text \<open>Loading as a whole, for the rows from \<open>a\<close> to \<open>b\<close>.\<close>

lemma load_eq:
  assumes "mat_files files name all col os is vs" and "rows_to_load row all = Inr r"
    and "a = unat (rg_start r)" and "b = unat (rg_end r)" and "a < b" and "b < 2 ^ 58"
  shows "RSpMat_Load files name row m = (if b < length os \<and> unat (os ! a) + unat (os ! b) \<le> length is
      then Inr ((RSpMat_Clear m)\<lparr>m_row := r, m_col := col, m_nnz := os ! b, m_offset := Some (shift_offset (take (b - a + 1) (drop a os))),
        m_index := Some (take (unat (os ! b)) (drop (unat (os ! a)) is)),
        m_value := map_option (\<lambda>ws. take (unat (os ! b)) (drop (unat (os ! a)) ws)) vs\<rparr>)
      else Inl (Check_failed ''read failed''))"
proof -
  have f: "RowSeg files name = Inr all" "ColSeg files name = Inr col" "files (name @ ''.rowcnt'') = Some (concat (map i64_bytes os))"
      "files (name @ ''.colidx'') = Some (concat (map i64_bytes is))" "length os = unat (Size all) + 1"
    using assms(1) unfolding mat_files_def by blast+
  have rows: "unat (Size r) = b - a" "unat (Size r + 1) = b - a + 1"
    using assms(3-6) by (simp_all add: Size_def unat_sub word_le_nat_alt unat_word_ariths)
  have total: "bin_length 8 files (name @ ''.rowcnt'') - 1 = Size all"
    using bin_length_ok [of files "name @ ''.rowcnt''" i64_bytes os] f(3,5) by simp
  have le: "b - a + 1 \<le> length os - a \<longleftrightarrow> b < length os" using assms(5) by auto
  have rowcnt: "load_size_t files (name @ ''.rowcnt'') None (rg_start r) (Size r + 1) =
      (if b < length os then Inr (take (b - a + 1) (drop a os), Size r + 1) else Inl (Check_failed ''read failed''))"
    using load_size_t_ok [of files "name @ ''.rowcnt''" os "rg_start r" "Size r + 1"] f(3) assms(5,6) rows assms(3) [symmetric] le
    by simp
  show ?thesis
  proof (cases "b < length os")
    case True
    have ends: "arr_get (Some (take (b - a + 1) (drop a os))) 0 = Inr (os ! a)"
      "arr_get (Some (take (b - a + 1) (drop a os))) (Size r) = Inr (os ! b)"
      using True assms(5) rows by (simp_all add: arr_get_def)
    have small: "unat (os ! a) < 2 ^ 59" "unat (os ! b) < 2 ^ 59" "unat (os ! a) \<le> length is"
      using mat_files_offsets(2,3) [OF assms(1), of a a] mat_files_offsets(3) [OF assms(1), of b b] True assms(5) by auto
    then have "unat (os ! b) \<le> length is - unat (os ! a) \<longleftrightarrow> unat (os ! a) + unat (os ! b) \<le> length is" by auto
    then have colidx: "load_size_t files (name @ ''.colidx'') None (os ! a) (os ! b) =
        (if unat (os ! a) + unat (os ! b) \<le> length is then Inr (take (unat (os ! b)) (drop (unat (os ! a)) is), os ! b)
         else Inl (Check_failed ''read failed''))"
      using load_size_t_ok [of files "name @ ''.colidx''" "is" "os ! a" "os ! b"] f(4) small(1,2) by simp
    show ?thesis
      using f(1,2) total assms(2) rowcnt True ends colidx load_values_ok [OF assms(1) small(1,2)]
      by (simp add: RSpMat_Load_def RSpMat_Clear_def m_rows_def Let_def)
  next
    case False
    then show ?thesis
      using f(1,2) total assms(2) rowcnt by (simp add: RSpMat_Load_def RSpMat_Clear_def m_rows_def Let_def)
  qed
qed

text \<open>
  C37: which rows can be loaded. From the files of a matrix, the rows from \<open>a\<close> to \<open>b\<close> are loaded exactly when
  row \<open>b\<close>, counted from the start of the file, is there, and the entries before row \<open>a\<close> and those before row \<open>b\<close> together are
  not more than the file has: the number of entries to read is given as the offset of row \<open>b\<close> instead of
  the difference of the two offsets. What is loaded has the right entries, and the recorded number of
  entries is the offset of row \<open>b\<close>.
\<close>

theorem load_rows_iff:
  assumes "mat_files files name all col os is vs" and "rows_to_load row all = Inr r" and "Valid r"
    and "a = unat (rg_start r)" and "b = unat (rg_end r)" and "b < 2 ^ 58"
  shows "((\<exists>m'. RSpMat_Load files name row m = Inr m') \<longleftrightarrow>
      b < length os \<and> unat (os ! a) + unat (os ! b) \<le> length is) \<and>
    (\<forall>m'. RSpMat_Load files name row m = Inr m' \<longrightarrow>
      m_row m' = r \<and> m_col m' = col \<and> m_nnz m' = os ! b \<and>
      (\<forall>i < b - a. row_entries m' i =
         map (\<lambda>j. (is ! j, map_option (\<lambda>ws. ws ! j) vs)) [unat (os ! (a + i))..<unat (os ! (a + i + 1))]))"
proof -
  have ab: "a < b" using assms(3-5) by (simp add: Valid_def word_less_nat_alt)
  show ?thesis
    unfolding load_eq [OF assms(1,2,4,5) ab assms(6)] using loaded_rows [OF assms(1) ab] by auto
qed

text \<open>Two rows with three entries. Both rows are loaded; the second row alone is not.\<close>

definition sample_files :: files where
  "sample_files = (\<lambda>_. None)
     (''m.size'' := Some (map (\<lambda>c. of_nat (of_char c)) ''0 2 0 3''),
      ''m.rowcnt'' := Some (concat (map i64_bytes [0, 2, 3])),
      ''m.colidx'' := Some (concat (map i64_bytes [0, 2, 1])))"

lemma text_bytes: "map (\<lambda>b. char_of (unat b)) (map (\<lambda>c. of_nat (of_char c) :: byte) s) = s"
proof -
  have "char_of (unat (of_nat (of_char c) :: byte)) = c" for c :: char
    by (simp add: unat_of_nat)
  then show ?thesis by (simp add: comp_def)
qed

lemma sample_mat_files: "mat_files sample_files ''m'' (mk_range 0 2) (mk_range 0 3) [0, 2, 3] [0, 2, 1] None"
proof -
  have "open_text sample_files (''m'' @ ''.size'') = Some ''0 2 0 3''"
    unfolding open_text_def sample_files_def by (simp add: text_bytes [unfolded map_map] del: list.map)
  moreover have "stream_size_t 0 (Some ''0 2 0 3'') = (0, Some '' 2 0 3'')" "stream_size_t 0 (Some '' 2 0 3'') = (2, Some '' 0 3'')"
    "stream_size_t 0 (Some '' 0 3'') = (0, Some '' 3'')" "stream_size_t 0 (Some '' 3'') = (3, Some [])"
    by code_simp+
  ultimately have "RowSeg sample_files ''m'' = Inr (mk_range 0 2)" "ColSeg sample_files ''m'' = Inr (mk_range 0 3)"
    by (simp_all add: RowSeg_def ColSeg_def Valid_def mk_range_def)
  moreover have "unat (Size (mk_range 0 2)) = 2" by (simp add: Size_def mk_range_def)
  ultimately show ?thesis by (auto simp: mat_files_def sample_files_def less_2_cases_iff)
qed

theorem load_rows_iff_witness:
  "(\<exists>m'. RSpMat_Load sample_files ''m'' Range_All empty_mat = Inr m' \<and> row_entries m' 0 = [(0, None), (2, None)]) \<and>
   (\<nexists>m'. RSpMat_Load sample_files ''m'' (mk_range 1 2) empty_mat = Inr m')"
proof -
  have all: "rows_to_load Range_All (mk_range 0 2) = Inr (mk_range 0 2)" "Valid (mk_range 0 2)"
    "0 = unat (rg_start (mk_range 0 2))" "2 = unat (rg_end (mk_range 0 2))"
    by (simp_all add: rows_to_load_def Range_eq_def Valid_def mk_range_def)
  have one: "rows_to_load (mk_range 1 2) (mk_range 0 2) = Inr (mk_range 1 2)" "Valid (mk_range 1 2)"
    "1 = unat (rg_start (mk_range 1 2))" "2 = unat (rg_end (mk_range 1 2))"
    by (simp_all add: rows_to_load_def Range_eq_def Range_All_def SubsetEq_def Valid_def mk_range_def)
  have b: "(2 :: nat) < 2 ^ 58" by simp
  from load_rows_iff [OF sample_mat_files one b, of empty_mat]
  have "\<nexists>m'. RSpMat_Load sample_files ''m'' (mk_range 1 2) empty_mat = Inr m'" by simp
  moreover from load_rows_iff [OF sample_mat_files all b, of empty_mat]
  have "\<exists>m'. RSpMat_Load sample_files ''m'' Range_All empty_mat = Inr m' \<and> row_entries m' 0 = [(0, None), (2, None)]"
    by (auto simp: upt_rec)
  ultimately show ?thesis by blast
qed

end
