(* ===== verification/Pagerank.thy ===== *)
theory Pagerank
  imports Double Sparse_Props
begin

text \<open>
  The pagerank program, \<open>apps/pagerank/pagerank.cpp\<close> and \<open>pagerank.h\<close>: the shares of the data files and
  blocks of columns, the loading of the own block, and forty rounds of the iteration.
  The vectors of Eigen are a parameter. The norms that are only logged are not modelled. Then what
  \<open>Linspace\<close> gives in spite of the rounding of its steps, and that the shares and the blocks are a partition.
\<close>

section \<open>Vectors and loops\<close>

definition vec_at :: "'a list \<Rightarrow> int \<Rightarrow> 'a res" where
  "vec_at xs i = (if 0 \<le> i \<and> i < int (length xs) then Inr (xs ! nat i) else Inl Out_of_bounds)"

fun mapR :: "('a \<Rightarrow> 'b res) \<Rightarrow> 'a list \<Rightarrow> 'b list res" where
  "mapR f [] = Inr []"
| "mapR f (x # xs) = bindR (f x) (\<lambda>y. bindR (mapR f xs) (\<lambda>ys. Inr (y # ys)))"

text \<open>The number as \<open>%03d\<close> prints it, for a number that is not negative.\<close>

function digits :: "nat \<Rightarrow> string" where
  "digits n = (if n < 10 then [char_of (48 + n)] else digits (n div 10) @ [char_of (48 + n mod 10)])"
  by auto
termination by (relation "measure id") auto

declare digits.simps [simp del]

definition fmt03d :: "nat \<Rightarrow> string" where
  "fmt03d n = replicate (3 - length (digits n)) (CHR ''0'') @ digits n"

section \<open>Linspace\<close>

text \<open>
  The template, with the operations of the type \<open>T\<close>: sum, difference, value, and conversion from \<open>double\<close>.
  With the largest \<open>int\<close> as \<open>k\<close> the loop counter overflows.
\<close>

definition Linspace ::
  "('t \<Rightarrow> 't \<Rightarrow> 't res) \<Rightarrow> ('t \<Rightarrow> 't \<Rightarrow> 't res) \<Rightarrow> ('t \<Rightarrow> int) \<Rightarrow> (double \<Rightarrow> 't res) \<Rightarrow> 't \<Rightarrow> 't \<Rightarrow> i32 \<Rightarrow> 't list res" where
  "Linspace add sub val cast start end k =
     bindR (sub end start) (\<lambda>d.
     let itv = d_div (d_of_int (val d)) (d_of_int (sint k))
     in if sint k = 2 ^ 31 - 1 then Inl Undefined
        else mapR (\<lambda>i. bindR (cast (d_round (d_mul itv (d_of_int i)))) (\<lambda>x. add x start)) [0..sint k])"

text \<open>\<open>int\<close>: a result that the type does not have is undefined. \<open>size_t\<close> wraps.\<close>

definition int_res :: "int \<Rightarrow> i32 res" where
  "int_res n = (if - (2 ^ 31) \<le> n \<and> n < 2 ^ 31 then Inr (word_of_int n) else Inl Undefined)"

definition Linspace_int :: "i32 \<Rightarrow> i32 \<Rightarrow> i32 \<Rightarrow> i32 list res" where
  "Linspace_int =
     Linspace (\<lambda>a b. int_res (sint a + sint b)) (\<lambda>a b. int_res (sint a - sint b)) sint
       (\<lambda>d. bindR (d_trunc (- (2 ^ 31)) (2 ^ 31 - 1) d) int_res)"

definition Linspace_size_t :: "i64 \<Rightarrow> i64 \<Rightarrow> i32 \<Rightarrow> i64 list res" where
  "Linspace_size_t =
     Linspace (\<lambda>a b. Inr (a + b)) (\<lambda>a b. Inr (a - b)) uint
       (\<lambda>d. bindR (d_trunc 0 (2 ^ 64 - 1) d) (\<lambda>n. Inr (word_of_int n)))"

section \<open>Partitioning the data\<close>

text \<open>The flags, and the values they are defined with; nothing in the program parses the command line.\<close>

record flags =
  FLAGS_data_input :: string
  FLAGS_data_part_num :: i32
  FLAGS_grid_row_num :: i32
  FLAGS_grid_col_num :: i32
  FLAGS_my_row_rank :: i32
  FLAGS_my_col_rank :: i32
  FLAGS_alpha :: double

definition default_flags :: flags where
  "default_flags =
     \<lparr>FLAGS_data_input = ''data/stanford-'', FLAGS_data_part_num = 1, FLAGS_grid_row_num = 1, FLAGS_grid_col_num = 1,
      FLAGS_my_row_rank = 0, FLAGS_my_col_rank = 0, FLAGS_alpha = mk_double (8 / 10)\<rparr>"

definition part_files :: "flags \<Rightarrow> string list" where
  "part_files fs = map (\<lambda>i. FLAGS_data_input fs @ fmt03d (nat i)) [0..sint (FLAGS_data_part_num fs) - 1]"

definition AssignData :: "files \<Rightarrow> flags \<Rightarrow> (string list list \<times> Range list) res" where
  "AssignData fsys fs =
     (let files = part_files fs
      in bindR (Linspace_int 0 (FLAGS_data_part_num fs) (FLAGS_grid_row_num fs)) (\<lambda>parts.
         bindR (mapR (\<lambda>i. bindR (vec_at parts i) (\<lambda>a. bindR (vec_at parts (i + 1)) (\<lambda>b.
                  mapR (vec_at files) [sint a..sint b - 1])))
                  [0..sint (FLAGS_grid_row_num fs) - 1]) (\<lambda>node_files.
         bindR (vec_at files 0) (\<lambda>file.
         bindR (ColSeg fsys file) (\<lambda>colseg.
         bindR (Linspace_size_t (rg_start colseg) (rg_end colseg) (FLAGS_grid_col_num fs)) (\<lambda>cols.
         bindR (mapR (\<lambda>i. bindR (vec_at cols i) (\<lambda>a. bindR (vec_at cols (i + 1)) (\<lambda>b. Inr (mk_range a b))))
                  [0..sint (FLAGS_grid_col_num fs) - 1]) (\<lambda>col_blocks.
         Inr (node_files, col_blocks))))))))"

section \<open>The iteration\<close>

text \<open>
  What the program calls of Eigen's vectors of \<open>double\<close>: the vector of ones times a number, a new vector, reading and
  writing a coefficient, and assignment.
\<close>

record 'v eigen =
  e_ones_times :: "i64 \<Rightarrow> double \<Rightarrow> 'v res"
  e_new :: "i64 \<Rightarrow> 'v res"
  e_get :: "'v \<Rightarrow> i64 \<Rightarrow> double res"
  e_set :: "'v \<Rightarrow> i64 \<Rightarrow> double \<Rightarrow> 'v res"
  e_assign :: "'v \<Rightarrow> 'v \<Rightarrow> 'v"

text \<open>The loop over the entries of a row.\<close>

fun add_entries :: "'v eigen \<Rightarrow> i32 list option \<Rightarrow> 'v \<Rightarrow> double \<Rightarrow> i32 list \<Rightarrow> double \<Rightarrow> double res" where
  "add_entries lib index w degree [] v = Inr v"
| "add_entries lib index w degree (j # js) v =
     bindR (arr_get index (ucast j)) (\<lambda>c.
     bindR (e_get lib w (ucast c)) (\<lambda>x.
     add_entries lib index w degree js (d_add v (d_div x degree))))"

text \<open>
  Its counter is an \<open>uint32_t\<close>. It never reaches an end of \<open>2 ^ 32\<close> or more: the loop goes through all
  values, and when no access faults it goes on for ever.
\<close>

definition row_sum :: "'v eigen \<Rightarrow> i32 list option \<Rightarrow> 'v \<Rightarrow> i64 \<Rightarrow> i64 \<Rightarrow> double res" where
  "row_sum lib index w first end =
     (let degree = d_of_int (uint (end - first));
          j0 = unat (ucast first :: i32)
      in if unat end < 2 ^ 32 then add_entries lib index w degree (map of_nat [j0..<unat end]) (Fin 0)
         else bindR (add_entries lib index w degree (map of_nat ([j0..<2 ^ 32] @ [0..<j0])) (Fin 0)) (\<lambda>_. Inl Diverges))"

fun rank_rows :: "'v eigen \<Rightarrow> double \<Rightarrow> double \<Rightarrow> i32 RSpMat \<Rightarrow> 'v \<Rightarrow> i64 list \<Rightarrow> 'v \<Rightarrow> 'v res" where
  "rank_rows lib alpha penalty adj w [] u = Inr u"
| "rank_rows lib alpha penalty adj w (i # is) u =
     bindR (arr_get (m_offset adj) (i + 1)) (\<lambda>end.
     bindR (arr_get (m_offset adj) i) (\<lambda>first.
     bindR (row_sum lib (m_index adj) w first end) (\<lambda>v.
     bindR (e_set lib u i (d_add (d_mul v alpha) penalty)) (\<lambda>u.
     rank_rows lib alpha penalty adj w is u))))"

text \<open>The rounds; \<open>w\<close> is the result.\<close>

fun rank_iter :: "'v eigen \<Rightarrow> double \<Rightarrow> double \<Rightarrow> i32 RSpMat \<Rightarrow> nat \<Rightarrow> 'v \<Rightarrow> 'v \<Rightarrow> 'v res" where
  "rank_iter lib alpha penalty adj 0 w u = Inr w"
| "rank_iter lib alpha penalty adj (Suc n) w u =
     bindR (rank_rows lib alpha penalty adj w (map of_nat [0..<unat (m_rows adj)]) u) (\<lambda>u.
     rank_iter lib alpha penalty adj n (e_assign lib w u) u)"

section \<open>The program\<close>

text \<open>What the memory held that the program does not initialise: \<open>nnz_\<close> of a new matrix, and the arrays of the i-th block.\<close>

record memory =
  j_nnz :: i64
  j_offset :: "nat \<Rightarrow> nat \<Rightarrow> i64"
  j_index :: "nat \<Rightarrow> nat \<Rightarrow> i32"
  j_value :: "nat \<Rightarrow> nat \<Rightarrow> bytes"

definition new_RSpMat :: "i64 \<Rightarrow> 'i RSpMat" where
  "new_RSpMat nnz = \<lparr>m_row = mk_range 0 0, m_col = mk_range 0 0, m_nnz = nnz, m_offset = None, m_index = None, m_value = None\<rparr>"

fun load_blocks :: "files \<Rightarrow> memory \<Rightarrow> Range \<Rightarrow> nat \<Rightarrow> string list \<Rightarrow> i64 RSpMat \<Rightarrow> i32 RSpMat list res" where
  "load_blocks fsys mem col i [] tmp = Inr []"
| "load_blocks fsys mem col i (name # names) tmp =
     bindR (RSpMat_Load fsys name Range_All tmp) (\<lambda>tmp.
     bindR (VSlice (j_offset mem i) (j_index mem i) (j_value mem i) col tmp (new_RSpMat (j_nnz mem))) (\<lambda>adj.
     bindR (load_blocks fsys mem col (i + 1) names tmp) (\<lambda>adjs. Inr (adj # adjs))))"

definition pagerank_main :: "'v eigen \<Rightarrow> files \<Rightarrow> memory \<Rightarrow> flags \<Rightarrow> (int \<times> 'v) res" where
  "pagerank_main lib fsys mem fs =
     bindR (AssignData fsys fs) (\<lambda>(node_files, col_blocks).
     bindR (vec_at node_files (sint (FLAGS_my_row_rank fs))) (\<lambda>in_files.
     bindR (vec_at col_blocks (sint (FLAGS_my_col_rank fs))) (\<lambda>col.
     bindR (load_blocks fsys mem col 0 in_files (new_RSpMat (j_nnz mem))) (\<lambda>adjs.
     bindR (checkR ''CHECK_EQ(nf, 1)'' (length in_files = 1)) (\<lambda>_.
     bindR (vec_at adjs 0) (\<lambda>adj.
     bindR (checkR ''CHECK(adjs[0].square())'' (square adj)) (\<lambda>_.
     let penalty = d_div (d_sub (d_of_int 1) (FLAGS_alpha fs)) (d_of_int (uint (m_rows adj)))
     in bindR (e_ones_times lib (Size col) penalty) (\<lambda>w.
        bindR (e_new lib (m_rows adj)) (\<lambda>u.
        bindR (rank_iter lib (FLAGS_alpha fs) penalty adj 40 w u) (\<lambda>w.
        Inr (0, w)))))))))))"

section \<open>Facts about the loops and the numbers\<close>

lemma mapR_Inr: "(\<And>x. x \<in> set xs \<Longrightarrow> f x = Inr (g x)) \<Longrightarrow> mapR f xs = Inr (map g xs)"
  by (induction xs) simp_all

lemma vec_at_nth: "i < length xs \<Longrightarrow> vec_at xs (int i) = Inr (xs ! i)"
  by (simp add: vec_at_def)

lemma mk_double_ok: "0 \<le> x \<Longrightarrow> x \<le> 2 powi 1000 \<Longrightarrow> mk_double x = Fin (fl x)"
proof -
  assume "0 \<le> x" "x \<le> 2 powi 1000"
  then have b: "0 \<le> fl x" "fl x \<le> 2 powi 1000" using ieee.rd_nonneg [of x] ieee.rd_le_powi [of x 1000] by auto
  have "fl x < 2 powi (1000 + 1)" by (rule le_less_trans [OF b(2)]) (simp only: powi_less_iff)
  with b(1) have "ilog2 \<bar>fl x\<bar> \<le> 1000" if "fl x \<noteq> 0" using ilog2_le [of "fl x" 1000] that by simp
  then show ?thesis by (auto simp: mk_double_def Let_def)
qed

lemma powi_1000: "(2 :: rat) powi 1000 = 2 ^ 1000"
  using power_int_of_nat [of "2 :: rat" 1000] by simp

lemma d_of_int_ok: "0 \<le> n \<Longrightarrow> n < 2 ^ 53 \<Longrightarrow> d_of_int n = Fin (of_int n)"
proof -
  assume n: "0 \<le> n" "n < 2 ^ 53"
  have "(of_int n :: rat) \<le> of_int (2 ^ 53)" using n(2) by (simp only: of_int_le_iff)
  also have "\<dots> \<le> 2 powi 1000" by simp
  finally show ?thesis using mk_double_ok [of "of_int n"] ieee.rd_int [OF n] n(1) by (simp add: d_of_int_def)
qed

context rounding
begin

lemma rd_div_mul:
  assumes "0 \<le> n" and "n \<le> 2 ^ 50" and "1 \<le> k" and "k < 2 ^ 31"
  shows "\<bar>rd (rd (of_int n / of_int k) * of_int k) - of_int n\<bar> < 1 / 2"
proof (cases "n = 0")
  case False
  define r k' :: rat where "r = of_int n" and "k' = of_int k"
  have "1 \<le> n" using assms(1) False by simp
  then have r: "1 \<le> r" "r \<le> 2 ^ 50" unfolding r_def using assms(2) by (metis of_int_le_iff of_int_1, metis of_int_le_iff of_int_numeral of_int_power)
  have k: "1 \<le> k'" "k' \<le> 2 ^ 31" unfolding k'_def using assms(3,4) by (metis of_int_le_iff of_int_1, metis of_int_le_iff of_int_numeral of_int_power less_imp_le)
  have u: "unit_rd = 1 / 2 ^ 53" by (simp add: unit_rd_def power_int_minus)
  have nm: "normal_min \<le> 1 / 2 ^ 31" by (simp add: normal_min_def)
  have "1 / 2 ^ 31 \<le> r / k'" using r k by (intro frac_le) simp_all
  with nm have e1: "\<bar>rd (r / k') - r / k'\<bar> \<le> r / k' * unit_rd" by (intro rd_err) (rule order_trans)
  define y where "y = rd (r / k') * k'"
  have "y - r = (rd (r / k') - r / k') * k'" using k(1) by (simp add: y_def left_diff_distrib)
  then have "\<bar>y - r\<bar> = \<bar>rd (r / k') - r / k'\<bar> * k'" using k(1) by (simp add: abs_mult)
  also have "\<dots> \<le> r / k' * unit_rd * k'" using e1 k(1) by (intro mult_right_mono) simp_all
  also have "\<dots> = r * unit_rd" using k(1) by simp
  also have "\<dots> \<le> 1 / 8" using r(2) by (simp add: u)
  finally have d: "\<bar>y - r\<bar> \<le> 1 / 8" .
  with r have y: "1 / 2 \<le> y" "y \<le> 2 ^ 50 + 1" by linarith+
  have "\<bar>rd y - y\<bar> \<le> y * unit_rd" using y(1) by (intro rd_err) (simp add: normal_min_def)
  also have "\<dots> \<le> 1 / 4" using y(2) by (simp add: u)
  finally have "\<bar>rd y - y\<bar> \<le> 1 / 4" .
  with d have "\<bar>rd y - r\<bar> < 1 / 2" by linarith
  then show ?thesis by (simp add: y_def r_def k'_def)
qed simp

text \<open>The i-th point of \<open>k\<close> equal steps from 0 to \<open>n\<close>, rounded to an integer.\<close>

lemma points:
  assumes "0 \<le> n" and "n \<le> 2 ^ 50" and "1 \<le> k" and "k < 2 ^ 31"
  defines "p \<equiv> \<lambda>i. \<lfloor>rd (rd (of_int n / of_int k) * of_int i) + 1 / 2\<rfloor>"
  shows "p 0 = 0" and "p k = n" and "0 \<le> i \<Longrightarrow> i \<le> j \<Longrightarrow> p i \<le> p j" and "0 \<le> i \<Longrightarrow> 0 \<le> rd (rd (of_int n / of_int k) * of_int i)"
proof -
  have nn: "0 \<le> rd (of_int n / of_int k)" using assms by (intro rd_nonneg) simp
  show "p 0 = 0" by (simp add: p_def floor_eq_iff)
  show "p k = n" unfolding p_def floor_eq_iff using rd_div_mul [OF assms(1-4)] by linarith
  show "0 \<le> i \<Longrightarrow> i \<le> j \<Longrightarrow> p i \<le> p j"
    unfolding p_def using nn by (intro floor_mono add_right_mono rd_mono mult_left_mono) simp_all
  show "0 \<le> i \<Longrightarrow> 0 \<le> rd (rd (of_int n / of_int k) * of_int i)"
    using nn by (intro rd_nonneg) simp
qed

end

text \<open>\<open>Linspace\<close>: points that grow from the start to the end.\<close>

definition lin_point :: "int \<Rightarrow> int \<Rightarrow> int \<Rightarrow> int" where
  "lin_point n k i = \<lfloor>fl (fl (of_int n / of_int k) * of_int i) + 1 / 2\<rfloor>"

lemma lin_point:
  assumes "0 \<le> n" and "n \<le> 2 ^ 50" and "1 \<le> k" and "k < 2 ^ 31"
  shows "lin_point n k 0 = 0" and "lin_point n k k = n" and "0 \<le> i \<Longrightarrow> i \<le> j \<Longrightarrow> lin_point n k i \<le> lin_point n k j"
  unfolding lin_point_def using ieee.points [OF assms] by auto

lemma lin_element:
  assumes "0 \<le> n" and "n \<le> 2 ^ 50" and "1 \<le> k" and "k < 2 ^ 31" and "0 \<le> i" and "i \<le> k"
  shows "d_round (d_mul (d_div (d_of_int n) (d_of_int k)) (d_of_int i)) = Fin (of_int (lin_point n k i))"
proof -
  let ?q = "of_int n / of_int k :: rat"
  have n: "0 \<le> (of_int n :: rat)" "(of_int n :: rat) \<le> 2 ^ 50" and k: "(1 :: rat) \<le> of_int k" and i: "0 \<le> (of_int i :: rat)" "(of_int i :: rat) \<le> 2 ^ 31"
    using assms of_int_le_iff [of n "2 ^ 50", where ?'a = rat] of_int_le_iff [of 1 k, where ?'a = rat] of_int_le_iff [of i "2 ^ 31", where ?'a = rat] by simp_all
  have "?q \<le> of_int n / 1" using n k by (intro divide_left_mono) simp_all
  with n have q: "0 \<le> ?q" "?q \<le> 2 powi 50" using k by simp_all
  have fq: "0 \<le> fl ?q" "fl ?q \<le> 2 powi 50" using ieee.rd_nonneg [OF q(1)] ieee.rd_le_powi [OF q] by auto
  have "fl ?q * of_int i \<le> 2 powi 50 * 2 ^ 31" using fq i by (intro mult_mono) simp_all
  also have "\<dots> \<le> 2 powi 1000" by simp
  finally have m: "mk_double (fl ?q * of_int i) = Fin (fl (fl ?q * of_int i))" using fq i by (intro mk_double_ok) simp_all
  have "?q \<le> 2 powi 1000" by (rule order_trans [OF q(2)]) simp
  then have "mk_double ?q = Fin (fl ?q)" using q(1) by (intro mk_double_ok)
  moreover have "0 \<le> fl (fl ?q * of_int i)" using fq i by (intro ieee.rd_nonneg) simp
  ultimately show ?thesis using assms m k by (simp add: d_of_int_ok lin_point_def)
qed

lemma lin_point_range:
  assumes "0 \<le> n" and "n \<le> 2 ^ 50" and "1 \<le> k" and "k < 2 ^ 31" and "0 \<le> i" and "i \<le> k"
  shows "0 \<le> lin_point n k i" and "lin_point n k i \<le> n"
  using lin_point(1,2) [OF assms(1-4)] lin_point(3) [OF assms(1-4), of 0 i] lin_point(3) [OF assms(1-4), of i k] assms(5,6) by auto

lemma d_trunc_int: "lo \<le> n \<Longrightarrow> n \<le> hi \<Longrightarrow> d_trunc lo hi (Fin (of_int n)) = Inr n"
  by (simp add: d_trunc_def)

lemma Linspace_int_ok:
  assumes "0 \<le> sint n" and "1 \<le> sint k" and "sint k < 2 ^ 31 - 1"
  shows "Linspace_int 0 n k = Inr (map (\<lambda>i. word_of_int (lin_point (sint n) (sint k) i)) [0..sint k])"
proof -
  have n: "sint n < 2 ^ 31" "sint n \<le> 2 ^ 50" using sint_i32_range [of n] by auto
  have "bindR (bindR (d_trunc (- (2 ^ 31)) (2 ^ 31 - 1) (d_round (d_mul (d_div (d_of_int (sint n)) (d_of_int (sint k))) (d_of_int i)))) int_res)
      (\<lambda>x. int_res (sint x + sint (0 :: i32))) = Inr (word_of_int (lin_point (sint n) (sint k) i))" if "0 \<le> i" "i \<le> sint k" for i
    using lin_element [OF assms(1) n(2) assms(2) _ that] lin_point_range [OF assms(1) n(2) assms(2) _ that] assms(3) n(1)
    by (simp add: d_trunc_int int_res_def sint_of_int_i32)
  moreover have "int_res (sint n - sint (0 :: i32)) = Inr n" using sint_i32_range [of n] by (simp add: int_res_def)
  ultimately show ?thesis using assms(3) unfolding Linspace_int_def Linspace_def by (auto intro!: mapR_Inr)
qed

lemma Linspace_size_t_ok:
  assumes "s \<le> e" and "uint (e - s) \<le> 2 ^ 50" and "1 \<le> sint k" and "sint k < 2 ^ 31 - 1"
  shows "Linspace_size_t s e k = Inr (map (\<lambda>i. word_of_int (uint s + lin_point (uint (e - s)) (sint k) i)) [0..sint k])"
proof -
  have "bindR (bindR (d_trunc 0 (2 ^ 64 - 1) (d_round (d_mul (d_div (d_of_int (uint (e - s))) (d_of_int (sint k))) (d_of_int i)))) (\<lambda>n. Inr (word_of_int n)))
      (\<lambda>x. Inr (x + s)) = Inr (word_of_int (uint s + lin_point (uint (e - s)) (sint k) i))" if "0 \<le> i" "i \<le> sint k" for i
    using lin_element [OF _ assms(2,3) _ that] lin_point_range [OF _ assms(2,3) _ that] assms(2,4)
    by (simp add: d_trunc_int add.commute)
  then show ?thesis using assms(4) unfolding Linspace_size_t_def Linspace_def by (auto intro!: mapR_Inr)
qed

section \<open>The partition of the data\<close>

lemma vec_at_upto: "0 \<le> i \<Longrightarrow> i \<le> k \<Longrightarrow> vec_at (map g [0..k]) i = Inr (g i)"
  by (simp add: vec_at_def)

lemma concat_intervals:
  "(\<And>i. i < n \<Longrightarrow> f (int i) \<le> f (int i + 1)) \<Longrightarrow> concat (map (\<lambda>i. [f i..f (i + 1) - 1]) [0..int n - 1]) = [f 0..f (int n) - 1]"
proof (induction n)
  case (Suc n)
  have "f 0 \<le> f (int n)" using le_chain [of n "\<lambda>i. f (int i)" 0] Suc.prems by (simp add: add.commute)
  moreover have "f (int n) \<le> f (int n + 1)" using Suc.prems by simp
  ultimately have "[f 0..f (int n) - 1] @ [f (int n)..f (int n + 1) - 1] = [f 0..f (int n + 1) - 1]"
    using upto_split1 [of "f 0" "f (int n)" "f (int n + 1) - 1"] by (cases "f (int n) = f (int n + 1)") auto
  moreover have "[0..int (Suc n) - 1] = [0..int n - 1] @ [int n]" by (simp add: upto_rec2)
  ultimately show ?case using Suc.IH Suc.prems by (simp add: add.commute)
qed simp

lemma unique_interval:
  assumes "\<And>i. i < n \<Longrightarrow> f i \<le> f (Suc i)" and "f 0 \<le> d" and "d < (f n :: int)"
  shows "\<exists>!i. i < n \<and> f i \<le> d \<and> d < f (Suc i)"
proof -
  define i where "i = (GREATEST i. i \<le> n \<and> f i \<le> d)"
  have i: "i \<le> n \<and> f i \<le> d" unfolding i_def by (rule GreatestI_nat [of _ 0 n]) (use assms(2) in auto)
  have g: "j \<le> i" if "j \<le> n \<and> f j \<le> d" for j unfolding i_def by (rule Greatest_le_nat [where b = n]) (use that in auto)
  have lt: "i < n" using i assms(3) by (cases "i = n") auto
  have up: "d < f (Suc i)" using g [of "Suc i"] lt by force
  show ?thesis
  proof (rule ex1I [of _ i])
    show "i < n \<and> f i \<le> d \<and> d < f (Suc i)" using i lt up by simp
    fix j assume j: "j < n \<and> f j \<le> d \<and> d < f (Suc j)"
    then have "j \<le> i" using g [of j] by simp
    moreover have "\<not> Suc j \<le> i" using le_chain [of i f "Suc j"] assms(1) i j by fastforce
    ultimately show "j = i" by simp
  qed
qed

lemma part_files_nth: "0 \<le> i \<Longrightarrow> i < sint (FLAGS_data_part_num fs) \<Longrightarrow>
    vec_at (part_files fs) i = Inr (FLAGS_data_input fs @ fmt03d (nat i))"
  by (simp add: part_files_def vec_at_upto)

lemma AssignData_ok:
  fixes fs
  defines "p \<equiv> sint (FLAGS_data_part_num fs)" and "r \<equiv> sint (FLAGS_grid_row_num fs)" and "c \<equiv> sint (FLAGS_grid_col_num fs)"
  assumes "1 \<le> p" and "1 \<le> r" and "r < 2 ^ 31 - 1" and "1 \<le> c" and "c < 2 ^ 31 - 1"
    and col: "ColSeg fsys (FLAGS_data_input fs @ ''000'') = Inr col" and "uint (Size col) \<le> 2 ^ 50"
  defines "cutp \<equiv> \<lambda>i. uint (rg_start col) + lin_point (uint (Size col)) c i"
  shows "AssignData fsys fs =
    Inr (map (\<lambda>i. map (\<lambda>j. FLAGS_data_input fs @ fmt03d (nat j)) [lin_point p r i..lin_point p r (i + 1) - 1]) [0..r - 1],
         map (\<lambda>i. mk_range (word_of_int (cutp i)) (word_of_int (cutp (i + 1)))) [0..c - 1])"
proof -
  have p: "p < 2 ^ 31" "p \<le> 2 ^ 50" "0 \<le> p" using sint_i32_range [of "FLAGS_data_part_num fs"] assms(4) by (auto simp: p_def)
  have "Valid col" using col by (rule ColSeg_Valid)
  then have le: "rg_start col \<le> rg_end col" by (simp add: Valid_def)
  have parts: "Linspace_int 0 (FLAGS_data_part_num fs) (FLAGS_grid_row_num fs) = Inr (map (\<lambda>i. word_of_int (lin_point p r i)) [0..r])"
    using Linspace_int_ok [of "FLAGS_data_part_num fs" "FLAGS_grid_row_num fs"] assms(4-6) by (simp add: p_def r_def)
  have cols: "Linspace_size_t (rg_start col) (rg_end col) (FLAGS_grid_col_num fs) = Inr (map (\<lambda>i. word_of_int (cutp i)) [0..c])"
    unfolding cutp_def c_def Size_def by (rule Linspace_size_t_ok [OF le]) (use assms(7,8,10) in \<open>simp_all add: c_def Size_def\<close>)
  have at: "sint (word_of_int (lin_point p r i) :: i32) = lin_point p r i" "0 \<le> lin_point p r i" "lin_point p r i \<le> p" if "0 \<le> i" "i \<le> r" for i
    using lin_point_range [OF p(3,2) assms(5) _ that] assms(6) p(1) by (simp_all add: sint_of_int_i32)
  have names: "mapR (vec_at (part_files fs)) [lin_point p r i..lin_point p r (i + 1) - 1] =
      Inr (map (\<lambda>j. FLAGS_data_input fs @ fmt03d (nat j)) [lin_point p r i..lin_point p r (i + 1) - 1])" if "0 \<le> i" "i < r" for i
    using at(2,3) [of i] at(2,3) [of "i + 1"] that p_def by (intro mapR_Inr part_files_nth) auto
  have node_files: "mapR (\<lambda>i. bindR (vec_at (map (\<lambda>i. word_of_int (lin_point p r i) :: i32) [0..r]) i) (\<lambda>a.
      bindR (vec_at (map (\<lambda>i. word_of_int (lin_point p r i) :: i32) [0..r]) (i + 1)) (\<lambda>b. mapR (vec_at (part_files fs)) [sint a..sint b - 1]))) [0..r - 1] =
      Inr (map (\<lambda>i. map (\<lambda>j. FLAGS_data_input fs @ fmt03d (nat j)) [lin_point p r i..lin_point p r (i + 1) - 1]) [0..r - 1])"
    by (rule mapR_Inr) (use at(1) names in \<open>auto simp: vec_at_upto\<close>)
  have blocks: "mapR (\<lambda>i. bindR (vec_at (map (\<lambda>i. word_of_int (cutp i)) [0..c]) i) (\<lambda>a.
      bindR (vec_at (map (\<lambda>i. word_of_int (cutp i)) [0..c]) (i + 1)) (\<lambda>b. Inr (mk_range a b)))) [0..c - 1] =
      Inr (map (\<lambda>i. mk_range (word_of_int (cutp i)) (word_of_int (cutp (i + 1)))) [0..c - 1])"
    by (rule mapR_Inr) (auto simp: vec_at_upto)
  have "fmt03d (nat 0) = ''000''" by code_simp
  then have "vec_at (part_files fs) 0 = Inr (FLAGS_data_input fs @ ''000'')" using part_files_nth [of 0 fs] assms(4) p_def by simp
  then show ?thesis
    unfolding AssignData_def Let_def
    using parts cols node_files blocks col by (simp add: p_def r_def c_def)
qed

lemma Size_col: "ColSeg fsys f = Inr col \<Longrightarrow> uint (rg_end col) = uint (rg_start col) + uint (Size col)"
  using ColSeg_Valid [of fsys f col] by (simp add: Valid_def Size_def uint_sub_if' word_less_def)

lemma block_cuts:
  assumes "ColSeg fsys f = Inr col" and "uint (Size col) \<le> 2 ^ 50" and "1 \<le> c" and "c < 2 ^ 31" and "0 \<le> i" and "i \<le> c"
  defines "v \<equiv> uint (rg_start col) + lin_point (uint (Size col)) c i"
  shows "uint (word_of_int v :: i64) = v" and "uint (rg_start col) \<le> v" and "v \<le> uint (rg_end col)"
proof -
  show b: "uint (rg_start col) \<le> v" "v \<le> uint (rg_end col)"
    using lin_point_range [OF _ assms(2-6)] Size_col [OF assms(1)] by (simp_all add: v_def)
  have "v < 2 ^ 64" using b(2) uint_lt2p [of "rg_end col"] by simp
  then show "uint (word_of_int v :: i64) = v" using order_trans [OF uint_ge_0 b(1)] by (simp add: uint_word_of_int)
qed

text \<open>
  C22: the partition of the data is complete. Whenever there is a file, a row and a column of machines, the column
  range of the first file can be read and has at most \<open>2 ^ 50\<close> columns, \<open>AssignData\<close>
  returns. The machines of a column get the data files, each file exactly once and in order; the column blocks
  lie in the column range, and every column is in exactly one block, in spite of the rounding of the
  cut points that are computed as \<open>double\<close>.
\<close>

theorem assign_data_partitions:
  assumes "1 \<le> sint (FLAGS_data_part_num fs)" and "1 \<le> sint (FLAGS_grid_row_num fs)" and "sint (FLAGS_grid_row_num fs) < 2 ^ 31 - 1"
    and "1 \<le> sint (FLAGS_grid_col_num fs)" and "sint (FLAGS_grid_col_num fs) < 2 ^ 31 - 1"
    and "ColSeg fsys (FLAGS_data_input fs @ ''000'') = Inr col" and "uint (Size col) \<le> 2 ^ 50"
  shows "\<exists>node_files col_blocks. AssignData fsys fs = Inr (node_files, col_blocks) \<and>
    int (length node_files) = sint (FLAGS_grid_row_num fs) \<and> concat node_files = part_files fs \<and>
    int (length col_blocks) = sint (FLAGS_grid_col_num fs) \<and> (\<forall>b \<in> set col_blocks. SubsetEq b col) \<and>
    (\<forall>v. Range_In col v \<longrightarrow> (\<exists>!i. i < length col_blocks \<and> Range_In (col_blocks ! i) v))"
proof -
  let ?p = "sint (FLAGS_data_part_num fs)" and ?r = "sint (FLAGS_grid_row_num fs)" and ?c = "sint (FLAGS_grid_col_num fs)"
  let ?f = "lin_point ?p ?r" and ?g = "lin_point (uint (Size col)) ?c"
  let ?name = "\<lambda>j. FLAGS_data_input fs @ fmt03d (nat j)" and ?cut = "\<lambda>i. uint (rg_start col) + ?g i"
  have p: "0 \<le> ?p" "?p \<le> 2 ^ 50" using assms(1) sint_i32_range [of "FLAGS_data_part_num fs"] by simp_all
  have r31: "?r < 2 ^ 31" and c31: "?c < 2 ^ 31" using assms(3,5) by simp_all
  note f = lin_point [OF p assms(2) r31] and g = lin_point [OF _ assms(7,4) c31]
  have "concat (map (\<lambda>i. map ?name [?f i..?f (i + 1) - 1]) [0..?r - 1]) = map ?name (concat (map (\<lambda>i. [?f i..?f (i + 1) - 1]) [0..?r - 1]))"
    by (simp add: map_concat comp_def)
  also have "\<dots> = part_files fs"
    using concat_intervals [of "nat ?r" ?f] f assms(2) by (simp add: part_files_def)
  finally have files: "concat (map (\<lambda>i. map ?name [?f i..?f (i + 1) - 1]) [0..?r - 1]) = part_files fs" .
  have size: "uint (rg_end col) = uint (rg_start col) + uint (Size col)" by (rule Size_col [OF assms(6)])
  note cuts = block_cuts [OF assms(6,7,4) c31]
  let ?bs = "map (\<lambda>i. mk_range (word_of_int (?cut i)) (word_of_int (?cut (i + 1)))) [0..?c - 1]"
  have sub: "\<forall>b \<in> set ?bs. SubsetEq b col"
    using cuts by (auto simp: SubsetEq_def mk_range_def word_le_def simp del: of_int_add)
  have nth: "?bs ! i = mk_range (word_of_int (?cut (int i))) (word_of_int (?cut (int i + 1)))" if "i < nat ?c" for i
    using that by simp
  have one: "\<exists>!i. i < length ?bs \<and> Range_In (?bs ! i) v" if v: "Range_In col v" for v
  proof -
    have "Range_In (?bs ! i) v \<longleftrightarrow> ?cut (int i) \<le> uint v \<and> uint v < ?cut (int (Suc i))" if "i < nat ?c" for i
      unfolding nth [OF that] using cuts(1) [of "int i"] cuts(1) [of "int i + 1"] that
      by (simp add: Range_In_def mk_range_def word_le_def word_less_def add.commute del: of_int_add)
    moreover have "\<exists>!i. i < nat ?c \<and> ?cut (int i) \<le> uint v \<and> uint v < ?cut (int (Suc i))"
      by (rule unique_interval) (use g v size assms(4) in \<open>auto simp: Range_In_def word_le_def word_less_def\<close>)
    ultimately show ?thesis by (auto cong: conj_cong)
  qed
  have len: "int (length (map (\<lambda>i. map ?name [?f i..?f (i + 1) - 1]) [0..?r - 1])) = ?r" "int (length ?bs) = ?c"
    using assms(2,4) by simp_all
  show ?thesis
    by (intro exI conjI allI impI, rule AssignData_ok [OF assms], rule len(1), rule files, rule len(2), rule sub, rule one)
qed

theorem assign_data_partitions_witness:
  "\<exists>node_files col_blocks. AssignData (sample_files(''m000.size'' := sample_files ''m.size''))
      (default_flags\<lparr>FLAGS_data_input := ''m'', FLAGS_grid_col_num := 2\<rparr>) = Inr (node_files, col_blocks) \<and>
    concat node_files = [''m000''] \<and> (\<exists>!i. i < length col_blocks \<and> Range_In (col_blocks ! i) 1)"
proof -
  let ?fs = "default_flags\<lparr>FLAGS_data_input := ''m'', FLAGS_grid_col_num := 2\<rparr>"
  let ?sys = "sample_files(''m000.size'' := sample_files ''m.size'')"
  have "ColSeg ?sys ''m000'' = ColSeg sample_files ''m''" by (simp add: ColSeg_def open_text_def)
  then have col: "ColSeg ?sys (FLAGS_data_input ?fs @ ''000'') = Inr (mk_range 0 3)" using sample_mat_files by (simp add: mat_files_def)
  have "uint (Size (mk_range 0 3)) \<le> 2 ^ 50" by (simp add: Size_def mk_range_def)
  from assign_data_partitions [OF _ _ _ _ _ col this] obtain nf cb where
    "AssignData ?sys ?fs = Inr (nf, cb)" "concat nf = part_files ?fs"
    "\<forall>v. Range_In (mk_range 0 3) v \<longrightarrow> (\<exists>!i. i < length cb \<and> Range_In (cb ! i) v)"
    by (auto simp: default_flags_def)
  moreover have "part_files ?fs = [''m000'']" by code_simp
  moreover have "Range_In (mk_range 0 3) 1" by (simp add: Range_In_def mk_range_def)
  ultimately show ?thesis by auto
qed

end
