(* ===== verification/Pagerank_Iter.thy ===== *)
theory Pagerank_Iter
  imports Pagerank
begin

text \<open>
  The iteration of the pagerank program on its own block of the matrix, and the program as a whole, against forty rounds on lists of neighbours.
\<close>

section \<open>The iteration against its definition on adjacency lists\<close>

text \<open>
  What Eigen documents of vectors of \<open>n\<close> coefficients: \<open>coeffs\<close> are the coefficients of a vector, a new one has
  any, and access inside the vector reads and writes one of them.
\<close>

definition eigen_ok :: "'v eigen \<Rightarrow> ('v \<Rightarrow> double list) \<Rightarrow> i64 \<Rightarrow> bool" where
  "eigen_ok lib coeffs n \<longleftrightarrow>
     (\<forall>p. \<exists>v. e_ones_times lib n p = Inr v \<and> coeffs v = replicate (unat n) (d_mul (d_of_int 1) p)) \<and>
     (\<exists>v. e_new lib n = Inr v \<and> length (coeffs v) = unat n) \<and>
     (\<forall>v k. unat k < length (coeffs v) \<longrightarrow> e_get lib v k = Inr (coeffs v ! unat k)) \<and>
     (\<forall>v k x. unat k < length (coeffs v) \<longrightarrow> (\<exists>v'. e_set lib v k x = Inr v' \<and> coeffs v' = (coeffs v)[unat k := x])) \<and>
     (\<forall>w u. coeffs (e_assign lib w u) = coeffs u)"

text \<open>The iteration: the score of a row with neighbours \<open>cs\<close>, a round, forty rounds.\<close>

definition row_mean :: "double list \<Rightarrow> nat list \<Rightarrow> double" where
  "row_mean w cs = foldl (\<lambda>v c. d_add v (d_div (w ! c) (d_of_int (int (length cs))))) (Fin 0) cs"

definition ref_round :: "double \<Rightarrow> double \<Rightarrow> nat list list \<Rightarrow> double list \<Rightarrow> double list" where
  "ref_round alpha penalty adj w = map (\<lambda>cs. d_add (d_mul (row_mean w cs) alpha) penalty) adj"

definition ref_scores :: "double \<Rightarrow> nat \<Rightarrow> nat list list \<Rightarrow> double list" where
  "ref_scores alpha rounds adj =
     (let penalty = d_div (d_sub (d_of_int 1) alpha) (d_of_int (int (length adj)))
      in (ref_round alpha penalty adj ^^ rounds) (replicate (length adj) (d_mul (d_of_int 1) penalty)))"

text \<open>The neighbours of the rows in the files of a matrix with \<open>n\<close> columns.\<close>

definition adjacency :: "i64 list \<Rightarrow> i64 list \<Rightarrow> nat \<Rightarrow> nat list list" where
  "adjacency os is n =
     map (\<lambda>i. filter (\<lambda>c. c < n) (map (\<lambda>j. unat (is ! j)) [unat (os ! i)..<unat (os ! Suc i)])) [0..<n]"

lemma unat_ucast_32_64 [simp]: "unat (ucast (c :: i32) :: i64) = unat c"
  using unsigned_less [of c, where ?'a = nat] by (simp add: unsigned_ucast_eq take_bit_nat_eq_self)

lemma unat_ucast_64_32: "unat (c :: i64) < 2 ^ 32 \<Longrightarrow> unat (ucast c :: i32) = unat c"
  by (simp add: unsigned_ucast_eq take_bit_nat_eq_self)

lemma add_entries_ok:
  assumes "eigen_ok lib coeffs n" and "\<forall>j \<in> set js. unat j < length xs \<and> unat (xs ! unat j) < length (coeffs w)"
  shows "add_entries lib (Some xs) w deg js v =
    Inr (foldl (\<lambda>v c. d_add v (d_div (coeffs w ! c) deg)) v (map (\<lambda>j. unat (xs ! unat j)) js))"
  using assms(2)
proof (induction js arbitrary: v)
  case (Cons j js)
  have "e_get lib w (ucast (xs ! unat j)) = Inr (coeffs w ! unat (xs ! unat j))"
    using assms(1) Cons.prems by (simp add: eigen_ok_def)
  with Cons show ?case by (simp add: arr_get_def)
qed simp

text \<open>The block the iteration runs on: offsets that grow and fit into 32 bits, columns below \<open>n\<close>.\<close>

definition columns :: "i32 RSpMat \<Rightarrow> nat \<Rightarrow> nat list" where
  "columns m i = map (unat \<circ> fst) (row_entries m i)"

definition block_ok :: "i32 RSpMat \<Rightarrow> bool" where
  "block_ok m \<longleftrightarrow> (\<exists>os xs. m_offset m = Some os \<and> m_index m = Some xs \<and> unat (m_rows m) < length os \<and> unat (m_rows m) \<le> 2 ^ 32 \<and>
     (\<forall>i < unat (m_rows m). os ! i \<le> os ! Suc i) \<and> unat (os ! unat (m_rows m)) < 2 ^ 32 \<and>
     unat (os ! unat (m_rows m)) \<le> length xs) \<and>
     (\<forall>i < unat (m_rows m). \<forall>c \<in> set (columns m i). c < unat (m_rows m))"

lemma row_sum_ok:
  assumes "eigen_ok lib coeffs n" and "unat first \<le> unat end" and "unat end < 2 ^ 32" and "unat end \<le> length xs"
    and "\<forall>j \<in> {unat first..<unat end}. unat (xs ! j) < length (coeffs w)"
  shows "row_sum lib (Some xs) w first end = Inr (row_mean (coeffs w) (map (\<lambda>j. unat (xs ! j)) [unat first..<unat end]))"
proof -
  let ?js = "map of_nat [unat first..<unat end] :: i32 list"
  have j: "unat (of_nat j :: i32) = j" if "j \<in> {unat first..<unat end}" for j
    using that assms(3) by (simp add: unat_of_nat)
  have cs: "map (\<lambda>j. unat (xs ! unat j)) ?js = map (\<lambda>j. unat (xs ! j)) [unat first..<unat end]" using j by auto
  have "\<forall>j \<in> set ?js. unat j < length xs \<and> unat (xs ! unat j) < length (coeffs w)" using j assms(4,5) by fastforce
  from add_entries_ok [OF assms(1) this] have
    "add_entries lib (Some xs) w (d_of_int (uint (end - first))) ?js (Fin 0) =
      Inr (foldl (\<lambda>v c. d_add v (d_div (coeffs w ! c) (d_of_int (uint (end - first))))) (Fin 0) (map (\<lambda>j. unat (xs ! j)) [unat first..<unat end]))"
    unfolding cs .
  moreover have "uint (end - first) = int (unat end - unat first)"
    using assms(2) by (metis uint_nat unat_sub word_le_nat_alt)
  ultimately show ?thesis
    using assms(2,3) by (simp add: row_sum_def row_mean_def unat_ucast_64_32)
qed

lemma rank_rows_ok:
  assumes "eigen_ok lib coeffs n" and "block_ok adj" and "length (coeffs w) = unat (m_rows adj)"
  shows "i \<le> unat (m_rows adj) \<Longrightarrow> length (coeffs u) = unat (m_rows adj) \<Longrightarrow>
    \<exists>u'. rank_rows lib alpha penalty adj w (map of_nat [i..<unat (m_rows adj)]) u = Inr u' \<and>
      coeffs u' = take i (coeffs u) @ map (\<lambda>i. d_add (d_mul (row_mean (coeffs w) (columns adj i)) alpha) penalty) [i..<unat (m_rows adj)]"
proof (induction "unat (m_rows adj) - i" arbitrary: i u)
  case (Suc d)
  let ?n = "unat (m_rows adj)" and ?g = "\<lambda>i. d_add (d_mul (row_mean (coeffs w) (columns adj i)) alpha) penalty"
  have i: "i < ?n" using Suc.hyps(2) by simp
  obtain os xs where m: "m_offset adj = Some os" "m_index adj = Some xs" "?n < length os" "?n \<le> 2 ^ 32"
      "\<forall>i < ?n. os ! i \<le> os ! Suc i" "unat (os ! ?n) < 2 ^ 32" "unat (os ! ?n) \<le> length xs"
    and cols: "\<forall>c \<in> set (columns adj i). c < ?n"
    using assms(2) i by (auto simp: block_ok_def)
  have ix: "unat (of_nat i :: i64) = i" "unat (of_nat i + 1 :: i64) = Suc i"
    using i m(4) by (simp_all add: unat_of_nat unat_word_ariths)
  have "os ! Suc i \<le> os ! ?n" using le_chain [of ?n "\<lambda>k. os ! k" "Suc i"] m(5) i by simp
  then have e: "unat (os ! i) \<le> unat (os ! Suc i)" "unat (os ! Suc i) < 2 ^ 32" "unat (os ! Suc i) \<le> length xs"
    using m(5-7) i by (auto simp: word_le_nat_alt)
  have c: "columns adj i = map (\<lambda>j. unat (xs ! j)) [unat (os ! i)..<unat (os ! Suc i)]"
    by (simp add: columns_def row_entries_def entry_def m(1,2))
  with cols have "\<forall>j \<in> {unat (os ! i)..<unat (os ! Suc i)}. unat (xs ! j) < length (coeffs w)" by (simp add: assms(3))
  from row_sum_ok [OF assms(1) e this] c have s: "row_sum lib (Some xs) w (os ! i) (os ! Suc i) = Inr (row_mean (coeffs w) (columns adj i))" by simp
  obtain u1 where u1: "e_set lib u (of_nat i) (?g i) = Inr u1" "coeffs u1 = (coeffs u)[i := ?g i]"
    using assms(1) i ix Suc.prems(2) unfolding eigen_ok_def by metis
  have "d = ?n - Suc i" "Suc i \<le> ?n" "length (coeffs u1) = ?n" using Suc.hyps(2) Suc.prems(2) u1(2) by auto
  from Suc.hyps(1) [OF this] obtain u' where
    u': "rank_rows lib alpha penalty adj w (map of_nat [Suc i..<?n]) u1 = Inr u'" "coeffs u' = take (Suc i) (coeffs u1) @ map ?g [Suc i..<?n]" by blast
  have split: "[i..<?n] = i # [Suc i..<?n]" using i by (simp add: upt_conv_Cons)
  have "rank_rows lib alpha penalty adj w (map of_nat [i..<?n]) u = rank_rows lib alpha penalty adj w (map of_nat [Suc i..<?n]) u1"
    unfolding split using m(1-3) ix i s u1(1) by (simp add: arr_get_def)
  moreover have "take (Suc i) (coeffs u1) = take i (coeffs u) @ [?g i]" using u1(2) i Suc.prems(2) by (simp add: take_Suc_conv_app_nth)
  ultimately show ?case using u' split by auto
qed auto

lemma rank_iter_ok:
  assumes "eigen_ok lib coeffs n" and "block_ok adj"
  shows "length (coeffs w) = unat (m_rows adj) \<Longrightarrow> length (coeffs u) = unat (m_rows adj) \<Longrightarrow>
    \<exists>w'. rank_iter lib alpha penalty adj k w u = Inr w' \<and>
      coeffs w' = (ref_round alpha penalty (map (columns adj) [0..<unat (m_rows adj)]) ^^ k) (coeffs w)"
proof (induction k arbitrary: w u)
  case (Suc k)
  from rank_rows_ok [OF assms Suc.prems(1) _ Suc.prems(2), of 0 alpha penalty] obtain u1 where
    u1: "rank_rows lib alpha penalty adj w (map of_nat [0..<unat (m_rows adj)]) u = Inr u1"
      "coeffs u1 = ref_round alpha penalty (map (columns adj) [0..<unat (m_rows adj)]) (coeffs w)"
    by (auto simp: ref_round_def)
  moreover have "coeffs (e_assign lib w u1) = coeffs u1" using assms(1) by (simp add: eigen_ok_def)
  moreover have "length (coeffs u1) = unat (m_rows adj)" by (simp add: u1(2) ref_round_def)
  ultimately show ?case using Suc.IH [of "e_assign lib w u1" u1] by (simp add: funpow_swap1)
qed simp

section \<open>The program as a whole\<close>

text \<open>The block of a square matrix whose files are complete.\<close>

lemma load_block:
  assumes "mat_files fsys name (mk_range 0 n) (mk_range 0 n) os is vs" and "unat n \<le> 2 ^ 32" and "0 < unat n"
    and "os ! 0 = 0" and "unat (last os) < 2 ^ 32"
  shows "\<exists>adj. load_blocks fsys mem (mk_range 0 n) i [name] tmp = Inr [adj] \<and> block_ok adj \<and> m_row adj = mk_range 0 n \<and>
    m_col adj = mk_range 0 n \<and> map (columns adj) [0..<unat n] = adjacency os is (unat n)"
proof -
  have size: "Size (mk_range 0 n) = n" by (simp add: Size_def mk_range_def)
  have os: "length os = unat n + 1" "\<forall>i < unat n. os ! i \<le> os ! Suc i" "unat (last os) \<le> length is"
    "\<forall>ws. vs = Some ws \<longrightarrow> length ws = length is"
    using assms(1) by (auto simp: mat_files_def size)
  have last: "last os = os ! unat n" using os(1) by (cases "os = []") (simp_all add: last_conv_nth)
  define m where "m = (RSpMat_Clear tmp)\<lparr>m_row := mk_range 0 n, m_col := mk_range 0 n, m_nnz := os ! unat n, m_offset := Some os,
    m_index := Some (take (unat (os ! unat n)) is), m_value := map_option (take (unat (os ! unat n))) vs\<rparr>"
  have all: "rows_to_load Range_All (mk_range 0 n) = Inr (mk_range 0 n)" by (simp add: rows_to_load_def Range_eq_def)
  have b: "0 = unat (rg_start (mk_range 0 n))" "unat n = unat (rg_end (mk_range 0 n))" "unat n < 2 ^ 58"
    using assms(2) by (simp_all add: mk_range_def)
  have shift: "shift_offset os = os" using assms(4) by (simp add: shift_offset_def)
  have load: "RSpMat_Load fsys name Range_All tmp = Inr m"
    using load_eq [OF assms(1) all b(1,2) assms(3) b(3), of tmp] os(1,3) assms(4) shift last by (simp add: m_def)
  have rows: "m_rows m = n" by (simp add: m_def m_rows_def size)
  have ok: "mat_ok m"
    unfolding mat_ok_def rows using os assms(2,5) last
    by (cases vs) (auto simp: m_def places_def has_value_def)
  have "SupsetEq (m_col m) (mk_range 0 n)" by (simp add: m_def SupsetEq_def)
  from VSlice_sliced [OF ok this] assms(3) rows obtain adj where
    sl: "VSlice (j_offset mem i) (j_index mem i) (j_value mem i) (mk_range 0 n) m (new_RSpMat (j_nnz mem)) = Inr adj"
      "sliced (mk_range 0 n) m (unat n) adj" by metis
  obtain ros where ros: "m_offset adj = Some ros" "length ros = unat n + 5" "unat (ros ! unat n) \<le> unat (os ! unat n)"
      "\<forall>k < unat n. ros ! k \<le> ros ! Suc k"
    and pl: "places (unat (m_nnz m) + 5) (has_value m) adj" and rc: "m_row adj = mk_range 0 n" "m_col adj = mk_range 0 n"
    and ent: "\<forall>k < unat n. row_entries adj k = slice_entries (mk_range 0 n) (row_entries m k)"
    using sl(2) rows by (auto simp: sliced_def m_def)
  have row: "row_entries m k = map (\<lambda>j. (is ! j, map_option (\<lambda>ws. ws ! j) vs)) [unat (os ! k)..<unat (os ! Suc k)]" if "k < unat n" for k
    using loaded_rows [OF assms(1) assms(3), of k m] that os(1) assms(4) shift by (simp add: m_def)
  have cut: "map (unat \<circ> fst) (slice_entries (mk_range 0 n) xs) = filter (\<lambda>c. c < unat n) (map (unat \<circ> fst) xs)" for xs
    using assms(2) by (induction xs)
      (auto simp: slice_entries_def slice_entry_def Range_In_def mk_range_def word_less_nat_alt unat_ucast_64_32)
  have cols: "columns adj k = filter (\<lambda>c. c < unat n) (map (\<lambda>j. unat (is ! j)) [unat (os ! k)..<unat (os ! Suc k)])" if "k < unat n" for k
    using that ent by (simp add: columns_def cut [unfolded comp_def] row comp_def)
  have "block_ok adj"
    using ros pl rc assms(2,5) last cols unfolding block_ok_def m_rows_def
    by (auto simp: places_def size m_def)
  moreover have "map (columns adj) [0..<unat n] = adjacency os is (unat n)" using cols by (simp add: adjacency_def)
  ultimately show ?thesis using load sl(1) rc by simp
qed

lemma ColSeg_pos: "ColSeg fsys f = Inr (mk_range 0 n) \<Longrightarrow> 1 \<le> unat n"
  using ColSeg_Valid [of fsys f] by (fastforce simp: Valid_def mk_range_def word_less_nat_alt)

lemma AssignData_default:
  assumes "ColSeg fsys ''data/stanford-000'' = Inr (mk_range 0 n)" and "unat n \<le> 2 ^ 32"
  shows "AssignData fsys default_flags = Inr ([[''data/stanford-000'']], [mk_range 0 n])"
proof -
  let ?fs = default_flags
  have size: "Size (mk_range 0 n) = n" by (simp add: Size_def mk_range_def)
  have n: "uint n \<le> 2 ^ 50" using of_nat_mono [OF assms(2), where ?'a = int] by simp
  have one: "sint (FLAGS_data_part_num ?fs) = 1" "sint (FLAGS_grid_row_num ?fs) = 1" "sint (FLAGS_grid_col_num ?fs) = 1"
    by (simp_all add: default_flags_def)
  have "lin_point 1 1 0 = 0" "lin_point 1 1 1 = 1" "lin_point (uint n) 1 0 = 0" "lin_point (uint n) 1 1 = uint n"
    using lin_point(1,2) [of 1 1] lin_point(1,2) [of "uint n" 1] n by auto
  moreover have "fmt03d (nat 0) = ''000''" by code_simp
  ultimately show ?thesis
    using AssignData_ok [of ?fs fsys "mk_range 0 n"] one n assms(1) size by (simp add: default_flags_def mk_range_def)
qed

text \<open>The program on complete files; the rounds are those of \<open>ref_scores\<close>.\<close>

lemma pagerank_main_run:
  assumes "mat_files fsys ''data/stanford-000'' (mk_range 0 n) (mk_range 0 n) os is vs" and "unat n \<le> 2 ^ 32"
    and "os ! 0 = 0" and "unat (last os) < 2 ^ 32" and "eigen_ok lib coeffs n"
  shows "\<exists>w. pagerank_main lib fsys mem default_flags = Inr (0, w) \<and>
    coeffs w = ref_scores (FLAGS_alpha default_flags) 40 (adjacency os is (unat n))"
proof -
  let ?a = "FLAGS_alpha default_flags" and ?adj = "adjacency os is (unat n)"
  have size: "Size (mk_range 0 n) = n" by (simp add: Size_def mk_range_def)
  have f: "RowSeg fsys ''data/stanford-000'' = Inr (mk_range 0 n)" "ColSeg fsys ''data/stanford-000'' = Inr (mk_range 0 n)"
    using assms(1) by (auto simp: mat_files_def)
  have n: "0 < unat n" using ColSeg_pos [OF f(2)] by simp
  from load_block [OF assms(1,2) n assms(3,4)] obtain adj where
    adj: "load_blocks fsys mem (mk_range 0 n) 0 [''data/stanford-000''] (new_RSpMat (j_nnz mem)) = Inr [adj]" "block_ok adj"
      "m_row adj = mk_range 0 n" "m_col adj = mk_range 0 n" "map (columns adj) [0..<unat n] = ?adj" by blast
  have rows: "m_rows adj = n" "square adj" by (simp_all add: m_rows_def square_def Range_eq_def adj(3,4) size)
  let ?p = "d_div (d_sub (d_of_int 1) ?a) (d_of_int (uint n))"
  obtain w u where w: "e_ones_times lib n ?p = Inr w" "coeffs w = replicate (unat n) (d_mul (d_of_int 1) ?p)"
    and u: "e_new lib n = Inr u" "length (coeffs u) = unat n" using assms(5) unfolding eigen_ok_def by metis
  from rank_iter_ok [OF assms(5) adj(2), of w u ?a ?p 40] w u rows(1) adj(5) obtain w' where
    w': "rank_iter lib ?a ?p adj 40 w u = Inr w'" "coeffs w' = (ref_round ?a ?p ?adj ^^ 40) (coeffs w)" by auto
  have "coeffs w' = ref_scores ?a 40 ?adj" using w'(2) w(2) by (simp add: ref_scores_def adjacency_def Let_def)
  moreover have "vec_at [[''data/stanford-000'']] (sint (FLAGS_my_row_rank default_flags)) = Inr [''data/stanford-000'']"
    "vec_at [mk_range 0 n] (sint (FLAGS_my_col_rank default_flags)) = Inr (mk_range 0 n)" "vec_at [adj] 0 = Inr adj"
    by (simp_all add: vec_at_def default_flags_def)
  ultimately show ?thesis
    using AssignData_default [OF f(2) assms(2)] adj(1) rows w(1) u(1) w'(1)
    by (simp add: pagerank_main_def size)
qed

text \<open>A row that ends at \<open>2 ^ 32\<close> entries or more has no sum.\<close>

lemma row_sum_wide: "2 ^ 32 \<le> unat end \<Longrightarrow> row_sum lib index w first end \<noteq> Inr v"
  by (simp add: row_sum_def Let_def bindR_Inr_iff)

end
