(* ===== verification/Pagerank_Scores.thy ===== *)
theory Pagerank_Scores
  imports Pagerank_Iter
begin

text \<open>
  How large the scores of the pagerank program are: bounds on a row that hold for every rounding of the locale
  \<open>rounding\<close>, their accumulation over the rounds, and what follows for the result of the program.
\<close>

section \<open>The size of the scores\<close>

text \<open>Many roundings in a row.\<close>

lemma unit_rd_val: "unit_rd = 1 / 2 ^ 53"
  by (simp add: unit_rd_def power_int_minus)

lemma pow_up: "2 * of_nat k * unit_rd \<le> 1 \<Longrightarrow> (1 + unit_rd) ^ k \<le> 1 + 2 * of_nat k * unit_rd"
proof (induction k)
  case (Suc k)
  let ?x = "2 * of_nat k * unit_rd :: rat"
  have "?x + 2 * unit_rd \<le> 1" using Suc.prems by (simp add: algebra_simps)
  then have x: "?x \<le> 1" using unit_rd by linarith
  have "(1 + unit_rd) ^ Suc k \<le> (1 + ?x) * (1 + unit_rd)" using Suc.IH [OF x] unit_rd by (simp add: mult.commute mult_right_mono)
  also have "\<dots> \<le> 1 + ?x + unit_rd + 1 * unit_rd" using mult_right_mono [OF x, of unit_rd] unit_rd by (simp add: algebra_simps)
  finally show ?case by (simp add: algebra_simps)
qed simp

lemma pow_lo: "1 - of_nat k * unit_rd \<le> (1 - unit_rd) ^ k"
proof (induction k)
  case (Suc k)
  have "1 - of_nat (Suc k) * unit_rd \<le> (1 - of_nat k * unit_rd) * (1 - unit_rd)"
    using unit_rd by (simp add: algebra_simps)
  also have "\<dots> \<le> (1 - unit_rd) ^ k * (1 - unit_rd)" using Suc unit_rd by (intro mult_right_mono) simp_all
  finally show ?case by (simp add: mult.commute)
qed simp

lemma pow_few: "k \<le> 2 ^ 38 \<Longrightarrow> 1 \<le> (1 + unit_rd) ^ k \<and> (1 + unit_rd) ^ k \<le> 10001 / 10000 \<and> 9999 / 10000 \<le> (1 - unit_rd) ^ k \<and> (1 - unit_rd) ^ k \<le> 1"
proof -
  assume "k \<le> 2 ^ 38"
  then have k: "(of_nat k :: rat) \<le> 2 ^ 38" using of_nat_mono [of k "2 ^ 38", where ?'a = rat] by simp
  then have "2 * of_nat k * unit_rd \<le> 1 / 16384" "of_nat k * unit_rd \<le> 1 / 32768" by (simp_all add: unit_rd_val)
  then have "(1 + unit_rd) ^ k \<le> 10001 / 10000" "9999 / 10000 \<le> (1 - unit_rd) ^ k" using pow_up [of k] pow_lo [of k] by auto
  then show ?thesis using unit_rd by (auto intro!: one_le_power power_le_one)
qed

lemma normal_half: "4 * normal_min \<le> x \<Longrightarrow> 1 / 2 \<le> c \<Longrightarrow> normal_min \<le> x * c"
  using mult_mono [of "4 * normal_min" x "1 / 2" c] normal_min by simp

text \<open>The mean and the score of a row, with every operation rounded.\<close>

definition mean :: "(rat \<Rightarrow> rat) \<Rightarrow> rat list \<Rightarrow> rat" where
  "mean rd xs = foldl (\<lambda>v x. rd (v + x)) 0 (map (\<lambda>x. rd (x / of_nat (length xs))) xs)"

definition score :: "(rat \<Rightarrow> rat) \<Rightarrow> rat \<Rightarrow> rat \<Rightarrow> rat list \<Rightarrow> rat" where
  "score rd a p xs = rd (rd (mean rd xs * a) + p)"

context rounding
begin

lemma mean_le:
  assumes "\<forall>x \<in> set xs. 0 \<le> x \<and> x \<le> b" and "normal_min * of_nat (length xs) \<le> b"
  shows "0 \<le> mean rd xs \<and> mean rd xs \<le> b * (1 + unit_rd) ^ (length xs + 1)"
proof (cases "xs = []")
  case True
  then show ?thesis using assms(2) unit_rd by (simp add: mean_def)
next
  case False
  let ?d = "of_nat (length xs) :: rat"
  have d: "0 < ?d" using False by simp
  have b: "normal_min \<le> b / ?d" using assms(2) d by (simp add: pos_le_divide_eq)
  have "0 \<le> rd (x / ?d) \<and> rd (x / ?d) \<le> b / ?d * (1 + unit_rd)" if "x \<in> set xs" for x
    using that assms(1) d b by (intro conjI rd_nonneg rd_le divide_right_mono) auto
  moreover have "b / ?d * 1 \<le> b / ?d * (1 + unit_rd)" using b normal_min unit_rd by (intro mult_left_mono) linarith+
  then have "normal_min \<le> b / ?d * (1 + unit_rd)" using b by simp
  ultimately have "0 \<le> mean rd xs \<and> mean rd xs \<le> ?d * (b / ?d * (1 + unit_rd)) * (1 + unit_rd) ^ length xs"
    unfolding mean_def using rd_sum_le [of "map (\<lambda>x. rd (x / ?d)) xs" "b / ?d * (1 + unit_rd)"] by simp
  then show ?thesis using d by (simp add: mult.assoc)
qed

lemma mean_ge:
  assumes "\<forall>x \<in> set xs. b \<le> x" and "4 * normal_min * of_nat (length xs) \<le> b" and "length xs \<le> 2 ^ 38" and "xs \<noteq> []"
  shows "b * (1 - unit_rd) ^ (length xs + 1) \<le> mean rd xs"
proof -
  let ?d = "of_nat (length xs) :: rat"
  have d: "0 < ?d" using assms(4) by simp
  have b: "4 * normal_min \<le> b / ?d" using assms(2) d by (simp add: pos_le_divide_eq)
  have "b / ?d * (1 - unit_rd) \<le> rd (x / ?d)" if "x \<in> set xs" for x
    using that assms(1) d b normal_min by (intro rd_ge divide_right_mono) auto
  moreover have "4 * normal_min * (1 / 2) \<le> b / ?d * (1 - unit_rd)" using b normal_min by (intro mult_mono) (simp_all add: unit_rd_val)
  moreover have "1 / 2 \<le> (1 - unit_rd) ^ length xs" using pow_few [OF assms(3)] by linarith
  ultimately have "?d * (b / ?d * (1 - unit_rd)) * (1 - unit_rd) ^ length xs \<le> mean rd xs"
    unfolding mean_def using rd_sum_ge [of "map (\<lambda>x. rd (x / ?d)) xs" "b / ?d * (1 - unit_rd)"] by simp
  then show ?thesis using d by (simp add: mult.assoc)
qed

lemma score_le:
  assumes "\<forall>x \<in> set xs. 0 \<le> x \<and> x \<le> b" and "normal_min * of_nat (length xs) \<le> b" and "0 < a" and "normal_min \<le> b * a" and "0 \<le> p"
  shows "score rd a p xs \<le> (b * a + p) * (1 + unit_rd) ^ (length xs + 3)"
proof -
  let ?c = "(1 + unit_rd) ^ (length xs + 1)"
  have c: "1 \<le> ?c" "1 \<le> (1 + unit_rd) ^ (length xs + 2)" using unit_rd by (simp_all add: one_le_power del: power_Suc)
  have m: "0 \<le> mean rd xs" "mean rd xs \<le> b * ?c" using mean_le [OF assms(1,2)] by auto
  have ba: "0 < b * a" using assms(4) normal_min by linarith
  have "b * a * 1 \<le> b * a * ?c" using c(1) ba by (intro mult_left_mono) simp_all
  then have n: "normal_min \<le> b * a * ?c" using assms(4) by linarith
  have "mean rd xs * a \<le> b * a * ?c" using mult_right_mono [OF m(2), of a] assms(3) by (simp add: ac_simps)
  from rd_le [OF _ this n] m(1) assms(3) have r: "rd (mean rd xs * a) \<le> b * a * (1 + unit_rd) ^ (length xs + 2)"
    by (simp add: ac_simps)
  have "p * 1 \<le> p * (1 + unit_rd) ^ (length xs + 2)" using c(2) assms(5) by (intro mult_left_mono)
  with r have s: "rd (mean rd xs * a) + p \<le> (b * a + p) * (1 + unit_rd) ^ (length xs + 2)" by (simp only: distrib_right)
  have "normal_min \<le> (b * a + p) * 1" using assms(4,5) by simp
  also have "\<dots> \<le> (b * a + p) * (1 + unit_rd) ^ (length xs + 2)" using c(2) ba assms(5) by (intro mult_left_mono) simp_all
  finally have "normal_min \<le> (b * a + p) * (1 + unit_rd) ^ (length xs + 2)" .
  from rd_le [OF _ s this] rd_nonneg [of "mean rd xs * a"] m(1) assms(3,5) show ?thesis
    by (simp add: score_def ac_simps numeral_3_eq_3)
qed

lemma score_ge:
  assumes "\<forall>x \<in> set xs. b \<le> x" and "4 * normal_min * of_nat (length xs) \<le> b" and "length xs + 3 \<le> 2 ^ 38" and "xs \<noteq> []"
    and "0 < a" and "4 * normal_min \<le> b * a" and "0 \<le> p"
  shows "(b * a + p) * (1 - unit_rd) ^ (length xs + 3) \<le> score rd a p xs"
proof -
  let ?c = "(1 - unit_rd) ^ (length xs + 1)"
  have c: "1 / 2 \<le> ?c" "1 / 2 \<le> (1 - unit_rd) ^ (length xs + 2)" "(1 - unit_rd) ^ (length xs + 2) \<le> 1"
    using pow_few [of "length xs + 1"] pow_few [of "length xs + 2"] assms(3) by auto
  have m: "b * ?c \<le> mean rd xs" using mean_ge [OF assms(1,2) _ assms(4)] assms(3) by simp
  have n: "normal_min \<le> b * a * ?c" by (rule normal_half [OF assms(6) c(1)])
  have "b * a * ?c \<le> mean rd xs * a" using mult_right_mono [OF m, of a] assms(5) by (simp add: ac_simps)
  from rd_ge [OF this n] have r: "b * a * (1 - unit_rd) ^ (length xs + 2) \<le> rd (mean rd xs * a)" by (simp add: ac_simps)
  have "p * (1 - unit_rd) ^ (length xs + 2) \<le> p * 1" using c(3) assms(7) by (intro mult_left_mono)
  with r have s: "(b * a + p) * (1 - unit_rd) ^ (length xs + 2) \<le> rd (mean rd xs * a) + p" by (simp only: distrib_right)
  have "normal_min \<le> (b * a + p) * (1 - unit_rd) ^ (length xs + 2)"
    by (rule normal_half [OF _ c(2)]) (use assms(6,7) in linarith)
  from rd_ge [OF s this] show ?thesis by (simp add: score_def ac_simps numeral_3_eq_3)
qed

lemma score_ge_p: "\<forall>x \<in> set xs. 0 \<le> x \<Longrightarrow> normal_min * of_nat (length xs) \<le> b \<Longrightarrow> \<forall>x \<in> set xs. x \<le> b \<Longrightarrow> 0 < a \<Longrightarrow> 0 \<le> p \<Longrightarrow> rd p = p \<Longrightarrow> p \<le> score rd a p xs"
  using mean_le [of xs b] rd_nonneg [of "mean rd xs * a"] rd_mono [of p "rd (mean rd xs * a) + p"] by (simp add: score_def)

end

text \<open>On finite numbers that are not too large the operations on \<open>double\<close> are those with rounding.\<close>

lemma big: "x \<le> 2 ^ 200 \<Longrightarrow> x \<le> (2 :: rat) powi 1000"
  by (rule order_trans [of _ "2 ^ 200"]) simp_all

lemma d_ops_ok:
  "0 \<le> x \<Longrightarrow> 0 \<le> y \<Longrightarrow> x + y \<le> 2 ^ 200 \<Longrightarrow> d_add (Fin x) (Fin y) = Fin (fl (x + y))"
  "0 \<le> x \<Longrightarrow> 0 \<le> y \<Longrightarrow> x * y \<le> 2 ^ 200 \<Longrightarrow> d_mul (Fin x) (Fin y) = Fin (fl (x * y))"
  "0 \<le> x \<Longrightarrow> 0 < y \<Longrightarrow> x / y \<le> 2 ^ 200 \<Longrightarrow> d_div (Fin x) (Fin y) = Fin (fl (x / y))"
  using mk_double_ok big by auto

lemma fl_le_100: "0 \<le> x \<Longrightarrow> x \<le> 2 ^ 100 \<Longrightarrow> 0 \<le> fl x \<and> fl x \<le> 2 ^ 100"
  using ieee.rd_nonneg [of x] ieee.rd_le_powi [of x 100] power_int_of_nat [of "2 :: rat" 100] by simp

lemma sum_small:
  assumes "\<forall>x \<in> set xs. 0 \<le> x \<and> x \<le> 2 ^ 100" and "length xs \<le> 2 ^ 32"
  shows "0 \<le> foldl (\<lambda>v x. fl (v + x)) 0 xs \<and> foldl (\<lambda>v x. fl (v + x)) 0 xs \<le> 2 ^ 133"
proof -
  have "normal_min \<le> 2 ^ 100" by (simp add: normal_min_def)
  note s = ieee.rd_sum_le [OF assms(1) this]
  have "(of_nat (length xs) :: rat) \<le> 2 ^ 32" using of_nat_mono [OF assms(2), where ?'a = rat] by simp
  moreover have c: "(1 + unit_rd) ^ length xs \<le> 2" "0 \<le> (1 + unit_rd) ^ length xs"
    using pow_few [of "length xs"] assms(2) by auto
  ultimately have "of_nat (length xs) * 2 ^ 100 * (1 + unit_rd) ^ length xs \<le> 2 ^ 32 * 2 ^ 100 * 2"
    by (intro mult_mono) simp_all
  with s show ?thesis by simp
qed

lemma row_mean_ok:
  assumes "\<forall>c \<in> set cs. c < length xs" and "\<forall>x \<in> set xs. 0 \<le> x \<and> x \<le> 2 ^ 100" and "length cs \<le> 2 ^ 32"
  shows "row_mean (map Fin xs) cs = Fin (mean fl (map ((!) xs) cs)) \<and> 0 \<le> mean fl (map ((!) xs) cs) \<and> mean fl (map ((!) xs) cs) \<le> 2 ^ 133"
proof (cases "cs = []")
  case True
  then show ?thesis by (simp add: row_mean_def mean_def)
next
  case False
  let ?d = "of_nat (length cs) :: rat" and ?t = "\<lambda>c. fl (xs ! c / of_nat (length cs))"
  have d: "1 \<le> ?d" using False by (simp add: Suc_leI)
  have x: "0 \<le> xs ! c / ?d" "xs ! c / ?d \<le> 2 ^ 100" if "c \<in> set cs" for c
  proof -
    have c: "0 \<le> xs ! c" "xs ! c \<le> 2 ^ 100" using that assms(1,2) by auto
    then show "0 \<le> xs ! c / ?d" using d by simp
    have "xs ! c / ?d \<le> xs ! c / 1" using c d False by (intro divide_left_mono) simp_all
    then show "xs ! c / ?d \<le> 2 ^ 100" using c by simp
  qed
  have div: "d_div (map Fin xs ! c) (Fin ?d) = Fin (?t c)" if "c \<in> set cs" for c
    using that assms(1,2) False d_ops_ok(3) [of "xs ! c" ?d] x [OF that] by (simp add: order_trans [OF _ power_increasing])
  have t: "0 \<le> ?t c \<and> ?t c \<le> 2 ^ 100" if "c \<in> set cs" for c using fl_le_100 x [OF that] by simp
  have fold: "set ds \<subseteq> set cs \<Longrightarrow> length ds \<le> length cs \<Longrightarrow> foldl (\<lambda>v c. d_add v (d_div (map Fin xs ! c) (Fin ?d))) (Fin 0) ds =
      Fin (foldl (\<lambda>v x. fl (v + x)) 0 (map ?t ds))" for ds
  proof (induction ds rule: rev_induct)
    case (snoc c ds)
    let ?v = "foldl (\<lambda>v x. fl (v + x)) 0 (map ?t ds)"
    have "0 \<le> ?v" "?v \<le> 2 ^ 133" using sum_small [of "map ?t ds"] t snoc.prems assms(3) by auto
    moreover have "0 \<le> ?t c" "?t c \<le> 2 ^ 100" using t snoc.prems(1) by auto
    ultimately show ?case using snoc div d_ops_ok(1) [of ?v "?t c"] by simp
  qed simp
  have "d_of_int (int (length cs)) = Fin ?d" using d_of_int_ok [of "int (length cs)"] assms(3) by simp
  then have "row_mean (map Fin xs) cs = Fin (mean fl (map ((!) xs) cs))"
    using fold [of cs] by (simp add: row_mean_def mean_def comp_def)
  moreover have "0 \<le> mean fl (map ((!) xs) cs) \<and> mean fl (map ((!) xs) cs) \<le> 2 ^ 133"
    using sum_small [of "map ?t cs"] t assms(3) by (simp add: mean_def comp_def)
  ultimately show ?thesis by simp
qed

lemma ref_round_ok:
  assumes "\<forall>cs \<in> set adj. (\<forall>c \<in> set cs. c < length xs) \<and> length cs \<le> 2 ^ 32" and "\<forall>x \<in> set xs. 0 \<le> x \<and> x \<le> 2 ^ 100"
    and "0 \<le> a" and "a \<le> 1" and "0 \<le> p" and "p \<le> 1"
  shows "ref_round (Fin a) (Fin p) adj (map Fin xs) = map Fin (map (\<lambda>cs. score fl a p (map ((!) xs) cs)) adj)"
proof -
  have "d_add (d_mul (row_mean (map Fin xs) cs) (Fin a)) (Fin p) = Fin (score fl a p (map ((!) xs) cs))" if "cs \<in> set adj" for cs
  proof -
    let ?m = "mean fl (map ((!) xs) cs)"
    have m: "row_mean (map Fin xs) cs = Fin ?m" "0 \<le> ?m" "?m \<le> 2 ^ 133" using row_mean_ok [of cs xs] assms(1,2) that by auto
    have "?m * a \<le> 2 ^ 133 * 1" using m assms(3,4) by (intro mult_mono) simp_all
    then have ma: "0 \<le> ?m * a" "?m * a \<le> 2 ^ 133" using m assms(3) by simp_all
    have "0 \<le> fl (?m * a)" "fl (?m * a) \<le> 2 ^ 133"
      using ieee.rd_nonneg [OF ma(1)] ieee.rd_le_powi [OF ma(1), of 133] ma(2) power_int_of_nat [of "2 :: rat" 133] by simp_all
    then have "d_add (Fin (fl (?m * a))) (Fin p) = Fin (score fl a p (map ((!) xs) cs))"
      unfolding score_def using assms(5,6) by (intro d_ops_ok(1)) simp_all
    moreover have "d_mul (Fin ?m) (Fin a) = Fin (fl (?m * a))" using m ma assms(3) by (intro d_ops_ok(2)) simp_all
    ultimately show ?thesis by (simp only: m(1))
  qed
  then show ?thesis by (simp add: ref_round_def)
qed

text \<open>The scores without rounding, when every row has an entry: they are the same for all rows.\<close>

fun exact :: "rat \<Rightarrow> rat \<Rightarrow> nat \<Rightarrow> rat" where
  "exact a p 0 = p"
| "exact a p (Suc k) = exact a p k * a + p"

lemma exact_closed: "exact a p k * (1 - a) = p * (1 - a ^ Suc k)"
proof (induction k)
  case (Suc k)
  have "exact a p (Suc k) * (1 - a) = exact a p k * (1 - a) * a + p * (1 - a)" by (simp add: algebra_simps)
  then show ?case unfolding Suc.IH by (simp add: algebra_simps)
qed simp

lemma exact_ge: "0 \<le> a \<Longrightarrow> 0 \<le> p \<Longrightarrow> p \<le> exact a p k"
  by (induction k) simp_all

text \<open>The invariant: after \<open>k\<close> rounds, with at most \<open>2 ^ 32\<close> entries in a row.\<close>

definition steps :: nat where
  "steps = 2 ^ 32 + 3"

definition near :: "bool \<Rightarrow> rat \<Rightarrow> rat \<Rightarrow> nat \<Rightarrow> rat \<Rightarrow> bool" where
  "near full a p k x \<longleftrightarrow> p \<le> x \<and> x \<le> exact a p k * (1 + unit_rd) ^ (steps * k) \<and>
     (full \<longrightarrow> exact a p k * (1 - unit_rd) ^ (steps * k) \<le> x)"

definition sane :: "rat \<Rightarrow> rat \<Rightarrow> bool" where
  "sane a p \<longleftrightarrow> 1 / 2 \<le> a \<and> a \<le> 9 / 10 \<and> 1 / 2 ^ 50 \<le> p \<and> p \<le> 1 \<and> fl p = p"

lemma exact_le:
  assumes "sane a p"
  shows "exact a p k \<le> 10"
proof -
  have a: "1 / 2 \<le> a" "a \<le> 9 / 10" and p: "0 < p" "p \<le> 1" using assms unfolding sane_def by (auto intro: less_le_trans [of 0 "1 / 2 ^ 50"])
  have "p * (1 - a ^ Suc k) \<le> 1 * 1" using a p by (intro mult_mono) (simp_all add: power_le_one del: power_Suc)
  then have "exact a p k * (1 - a) \<le> 1" using exact_closed [of a p k] a by simp
  moreover have "exact a p k * (1 / 10) \<le> exact a p k * (1 - a)"
    using a p exact_ge [of a p k] by (intro mult_left_mono) linarith+
  ultimately show ?thesis by linarith
qed

lemma normal_tiny:
  assumes "length xs \<le> 2 ^ 32"
  shows "4 * normal_min * of_nat (length xs) \<le> 1 / 2 ^ 60" and "4 * normal_min \<le> 1 / 2 ^ 60" and "normal_min * of_nat (length xs) \<le> 1 / 2 ^ 60"
proof -
  have "(of_nat (length xs) :: rat) \<le> 2 ^ 32" using of_nat_mono [OF assms, where ?'a = rat] by simp
  then have "4 * normal_min * of_nat (length xs) \<le> 4 * normal_min * 2 ^ 32" using normal_min by (intro mult_left_mono) simp_all
  also have "\<dots> \<le> 1 / 2 ^ 60" by (simp add: normal_min_def)
  finally show n: "4 * normal_min * of_nat (length xs) \<le> 1 / 2 ^ 60" .
  show "4 * normal_min \<le> 1 / 2 ^ 60" by (simp add: normal_min_def)
  show "normal_min * of_nat (length xs) \<le> 1 / 2 ^ 60"
    using n mult_nonneg_nonneg [of normal_min "of_nat (length xs)"] normal_min by (simp only: mult.assoc) linarith
qed

lemma sane_facts:
  assumes "sane a p" and "k \<le> 40"
  shows "1 / 2 \<le> a" and "0 < a" and "1 / 2 ^ 50 \<le> p" and "0 \<le> p" and "fl p = p" and "p \<le> exact a p k"
    and "1 \<le> (1 + unit_rd) ^ (steps * k)" and "9999 / 10000 \<le> (1 - unit_rd) ^ (steps * k)" and "(1 - unit_rd) ^ (steps * k) \<le> 1"
proof -
  show a: "1 / 2 \<le> a" "0 < a" and p: "1 / 2 ^ 50 \<le> p" "0 \<le> p" and "fl p = p" using assms(1) by (auto simp: sane_def)
  show "p \<le> exact a p k" using exact_ge a(2) p(2) by simp
  have "steps * k \<le> 2 ^ 38" using mult_le_mono2 [of k 40 steps] assms(2) by (simp add: steps_def)
  from pow_few [OF this] show "1 \<le> (1 + unit_rd) ^ (steps * k)" "9999 / 10000 \<le> (1 - unit_rd) ^ (steps * k)" "(1 - unit_rd) ^ (steps * k) \<le> 1"
    by auto
qed

text \<open>What is at least half the penalty is in the range where rounding has a small relative error.\<close>

lemma half_penalty:
  assumes "sane a p" and "p \<le> s" and "1 / 2 \<le> c"
  shows "1 / 2 ^ 60 \<le> s * c" and "1 / 2 ^ 60 \<le> s * c * a"
proof -
  have a: "1 / 2 \<le> a" and p: "1 / 2 ^ 50 \<le> p" "0 \<le> p" using assms(1) by (auto simp: sane_def)
  have sc: "1 / 2 ^ 50 * (1 / 2) \<le> s * c" by (rule mult_mono) (use assms p in linarith)+
  moreover have "(1 / 2 ^ 60 :: rat) \<le> 1 / 2 ^ 50 * (1 / 2)" "(1 / 2 ^ 60 :: rat) \<le> 1 / 2 ^ 50 * (1 / 2) * (1 / 2)" by simp_all
  moreover have "1 / 2 ^ 50 * (1 / 2) * (1 / 2) \<le> s * c * a" by (rule mult_mono [OF sc a]) (use assms p in simp_all)
  ultimately show "1 / 2 ^ 60 \<le> s * c" "1 / 2 ^ 60 \<le> s * c * a" by (auto intro: order_trans)
qed

lemma near_step_le:
  assumes "sane a p" and "k < 40" and "\<forall>x \<in> set xs. near full a p k x" and "length xs \<le> 2 ^ 32"
  shows "p \<le> score fl a p xs" and "score fl a p xs \<le> exact a p (Suc k) * (1 + unit_rd) ^ (steps * Suc k)"
proof -
  let ?s = "exact a p k" and ?c = "(1 + unit_rd) ^ (steps * k)"
  have k: "k \<le> 40" using assms(2) by simp
  note f = sane_facts [OF assms(1) k]
  have x: "\<forall>x \<in> set xs. 0 \<le> x \<and> x \<le> ?s * ?c" using assms(3) f(4) by (auto simp: near_def)
  have c: "1 / 2 \<le> ?c" using f(7) by linarith
  have n: "normal_min * of_nat (length xs) \<le> ?s * ?c" using normal_tiny(3) [OF assms(4)] half_penalty(1) [OF assms(1) f(6) c] by (rule order_trans)
  have n': "normal_min \<le> ?s * ?c * a" using normal_tiny(2) [OF assms(4)] half_penalty(2) [OF assms(1) f(6) c] normal_min by linarith
  show "p \<le> score fl a p xs" using ieee.score_ge_p [OF _ n _ f(2,4,5)] x by blast
  have "0 \<le> ?s * ?c * a + p" "?s * ?c * a + p \<le> exact a p (Suc k) * ?c"
    using f mult_left_mono [OF f(7) f(4)] by (simp_all add: algebra_simps)
  then have "(?s * ?c * a + p) * (1 + unit_rd) ^ (length xs + 3) \<le> exact a p (Suc k) * ?c * (1 + unit_rd) ^ steps"
    using assms(4) unit_rd by (intro mult_mono power_increasing) (auto simp: steps_def)
  then show "score fl a p xs \<le> exact a p (Suc k) * (1 + unit_rd) ^ (steps * Suc k)"
    using ieee.score_le [OF x n f(2) n' f(4)] by (simp add: power_add mult.assoc mult.commute [of ?c] del: exact.simps)
qed

lemma near_step_ge:
  assumes "sane a p" and "k < 40" and "\<forall>x \<in> set xs. near True a p k x" and "length xs \<le> 2 ^ 32" and "xs \<noteq> []"
  shows "exact a p (Suc k) * (1 - unit_rd) ^ (steps * Suc k) \<le> score fl a p xs"
proof -
  let ?s = "exact a p k" and ?c = "(1 - unit_rd) ^ (steps * k)"
  have k: "k \<le> 40" using assms(2) by simp
  note f = sane_facts [OF assms(1) k]
  have x: "\<forall>x \<in> set xs. ?s * ?c \<le> x" using assms(3) by (auto simp: near_def)
  have c: "1 / 2 \<le> ?c" using f(8) by linarith
  have n: "4 * normal_min * of_nat (length xs) \<le> ?s * ?c" using normal_tiny(1) [OF assms(4)] half_penalty(1) [OF assms(1) f(6) c] by (rule order_trans)
  have n': "4 * normal_min \<le> ?s * ?c * a" using normal_tiny(2) [OF assms(4)] half_penalty(2) [OF assms(1) f(6) c] by (rule order_trans)
  have "exact a p (Suc k) * ?c \<le> ?s * ?c * a + p" using mult_left_mono [OF f(9) f(4)] by (simp add: algebra_simps)
  moreover have "0 \<le> exact a p (Suc k) * ?c" using f by simp
  ultimately have "exact a p (Suc k) * ?c * (1 - unit_rd) ^ steps \<le> (?s * ?c * a + p) * (1 - unit_rd) ^ (length xs + 3)"
    using assms(4) unit_rd by (intro mult_mono power_decreasing) (auto simp: steps_def)
  moreover have "length xs + 3 \<le> 2 ^ 38" using assms(4) by simp
  ultimately show ?thesis
    using ieee.score_ge [OF x n _ assms(5) f(2) n' f(4)] by (simp add: power_add mult.assoc mult.commute [of ?c] del: exact.simps)
qed

lemma near_step:
  "sane a p \<Longrightarrow> k < 40 \<Longrightarrow> \<forall>x \<in> set xs. near full a p k x \<Longrightarrow> length xs \<le> 2 ^ 32 \<Longrightarrow> full \<longrightarrow> xs \<noteq> [] \<Longrightarrow>
   near full a p (Suc k) (score fl a p xs)"
  using near_step_le [of a p k xs full] near_step_ge [of a p k xs] by (cases full) (simp_all add: near_def del: exact.simps mult_Suc_right)

lemma near_small: "sane a p \<Longrightarrow> k \<le> 40 \<Longrightarrow> near full a p k x \<Longrightarrow> 0 \<le> x \<and> x \<le> 2 ^ 100"
proof -
  assume h: "sane a p" "k \<le> 40" "near full a p k x"
  have "steps * k \<le> 2 ^ 38" using mult_le_mono2 [of k 40 steps] h(2) by (simp add: steps_def)
  from pow_few [OF this] have c: "0 \<le> (1 + unit_rd) ^ (steps * k)" "(1 + unit_rd) ^ (steps * k) \<le> 2" by linarith+
  have p: "0 \<le> p" using h(1) unfolding sane_def by (auto intro: order_trans [of 0 "1 / 2 ^ 50"])
  have "exact a p k * (1 + unit_rd) ^ (steps * k) \<le> 10 * 2"
    by (rule mult_mono [OF exact_le [OF h(1)] c(2)]) (use c(1) in simp_all)
  then have "x \<le> 20" "p \<le> x" using h(3) by (auto simp: near_def)
  then show ?thesis using p by simp
qed

lemma rounds_near:
  assumes "sane a p" and "\<forall>cs \<in> set adj. (\<forall>c \<in> set cs. c < length adj) \<and> length cs \<le> 2 ^ 32" and "full \<longrightarrow> [] \<notin> set adj"
  shows "k \<le> 40 \<Longrightarrow> \<exists>xs. (ref_round (Fin a) (Fin p) adj ^^ k) (replicate (length adj) (Fin p)) = map Fin xs \<and>
    length xs = length adj \<and> (\<forall>x \<in> set xs. near full a p k x)"
proof (induction k)
  case 0
  then show ?case by (intro exI [of _ "replicate (length adj) p"]) (simp add: near_def)
next
  case (Suc k)
  then obtain xs where xs: "(ref_round (Fin a) (Fin p) adj ^^ k) (replicate (length adj) (Fin p)) = map Fin xs"
    "length xs = length adj" "\<forall>x \<in> set xs. near full a p k x" by auto
  have ap: "0 \<le> a" "a \<le> 1" "0 \<le> p" "p \<le> 1" using assms(1) unfolding sane_def by (auto intro: order_trans [of 0 "1 / 2 ^ 50"])
  have small: "\<forall>x \<in> set xs. 0 \<le> x \<and> x \<le> 2 ^ 100" using near_small [OF assms(1), of k] Suc.prems xs(3) by (meson Suc_leD)
  let ?ys = "map (\<lambda>cs. score fl a p (map ((!) xs) cs)) adj"
  have "ref_round (Fin a) (Fin p) adj (map Fin xs) = map Fin ?ys"
    by (rule ref_round_ok [OF _ small ap]) (use assms(2) xs(2) in simp)
  moreover have "near full a p (Suc k) (score fl a p (map ((!) xs) cs))" if "cs \<in> set adj" for cs
    by (rule near_step [OF assms(1)]) (use that assms(2,3) xs(2,3) Suc.prems in \<open>auto simp: nth_mem\<close>)
  ultimately show ?case using xs(1) by (intro exI [of _ ?ys]) simp
qed

text \<open>The flags of the program: \<open>alpha\<close> is the \<open>double\<close> next to 0.8, the penalty is close to \<open>0.2 / n\<close>.\<close>

definition alpha_val :: rat where
  "alpha_val = fl (8 / 10)"

definition penalty_val :: "nat \<Rightarrow> rat" where
  "penalty_val n = fl (fl (1 - alpha_val) / of_nat n)"

lemma alpha_val: "\<bar>alpha_val - 8 / 10\<bar> \<le> 1 / 10000000000"
proof -
  have "\<bar>alpha_val - 8 / 10\<bar> \<le> 8 / 10 * unit_rd" unfolding alpha_val_def by (rule ieee.rd_err) (simp add: normal_min_def)
  also have "\<dots> \<le> 1 / 10000000000" by (simp add: unit_rd_val)
  finally show ?thesis .
qed

lemma default_alpha: "FLAGS_alpha default_flags = Fin alpha_val"
  using mk_double_ok [of "8 / 10"] big [of "8 / 10"] by (simp add: default_flags_def alpha_val_def)

lemma penalty_val:
  assumes "1 \<le> n" and "n \<le> 2 ^ 32"
  shows "\<bar>penalty_val n * of_nat n - 2 / 10\<bar> \<le> 1 / 1000000000" and "d_div (d_sub (d_of_int 1) (Fin alpha_val)) (d_of_int (int n)) = Fin (penalty_val n)"
    and "sane alpha_val (penalty_val n)" and "d_mul (d_of_int 1) (Fin (penalty_val n)) = Fin (penalty_val n)"
proof -
  let ?n = "of_nat n :: rat" and ?q = "fl (1 - alpha_val)"
  have n: "1 \<le> ?n" "?n \<le> 2 ^ 32" using assms(1) of_nat_mono [OF assms(2), where ?'a = rat] by (simp_all)
  have al: "1 / 2 \<le> alpha_val" "alpha_val \<le> 9 / 10" using alpha_val by linarith+
  have "normal_min \<le> 1 / 10" by (simp add: normal_min_def)
  then have "normal_min \<le> 1 - alpha_val" using al by linarith
  from ieee.rd_err [OF this] have e1: "\<bar>?q - (1 - alpha_val)\<bar> \<le> (1 - alpha_val) * unit_rd" .
  also have "\<dots> \<le> 1 * unit_rd" using al unit_rd by (intro mult_right_mono) simp_all
  also have "\<dots> \<le> 1 / 10000000000" by (simp add: unit_rd_val)
  finally have q: "\<bar>?q - 2 / 10\<bar> \<le> 2 / 10000000000" using alpha_val by linarith
  then have q1: "1 / 10 \<le> ?q" "?q \<le> 3 / 10" by linarith+
  have "1 / 10 / 2 ^ 32 \<le> ?q / ?n" using q1 n by (intro frac_le) simp_all
  moreover have "(1 / 2 ^ 40 :: rat) \<le> 1 / 10 / 2 ^ 32" "normal_min \<le> 1 / 2 ^ 40" by (simp_all add: normal_min_def)
  ultimately have b: "1 / 2 ^ 40 \<le> ?q / ?n" "normal_min \<le> ?q / ?n" by linarith+
  have "?q / ?n \<le> (3 / 10) / 1" using q1 n by (intro frac_le) simp_all
  then have up: "?q / ?n \<le> 3 / 10" by simp
  have e2: "\<bar>penalty_val n - ?q / ?n\<bar> \<le> ?q / ?n * unit_rd" unfolding penalty_val_def by (rule ieee.rd_err [OF b(2)])
  have "penalty_val n * ?n - ?q = (penalty_val n - ?q / ?n) * ?n" using n by (simp add: left_diff_distrib)
  then have "\<bar>penalty_val n * ?n - ?q\<bar> = \<bar>penalty_val n - ?q / ?n\<bar> * ?n" by (simp only: abs_mult)
  also have "\<dots> \<le> ?q / ?n * unit_rd * ?n" using e2 n by (intro mult_right_mono) simp_all
  also have "\<dots> = ?q * unit_rd" using n by simp
  also have "\<dots> \<le> 1 * unit_rd" using q1 unit_rd by (intro mult_right_mono) simp_all
  also have "\<dots> \<le> 1 / 10000000000" by (simp add: unit_rd_val)
  finally have "\<bar>penalty_val n * ?n - ?q\<bar> \<le> 1 / 10000000000" .
  then show "\<bar>penalty_val n * ?n - 2 / 10\<bar> \<le> 1 / 1000000000" using q by linarith
  have "?q / ?n * unit_rd \<le> 1 * unit_rd" using up unit_rd by (intro mult_right_mono) linarith+
  moreover have "1 * unit_rd \<le> 1 / 2" "1 / 2 ^ 50 + 1 * unit_rd \<le> 1 / 2 ^ 40" by (simp_all add: unit_rd_val)
  ultimately have pv: "1 / 2 ^ 50 \<le> penalty_val n" "penalty_val n \<le> 1" using e2 b(1) up by linarith+
  have idem: "fl (penalty_val n) = penalty_val n" unfolding penalty_val_def using q1 n by (intro ieee.rd_idem) simp
  show "sane alpha_val (penalty_val n)" using al pv idem by (simp add: sane_def)
  have one: "d_of_int 1 = Fin 1" "d_of_int (int n) = Fin ?n" using d_of_int_ok [of 1] d_of_int_ok [of "int n"] assms(2) by simp_all
  have "mk_double (1 - alpha_val) = Fin ?q" using al by (intro mk_double_ok big) simp_all
  moreover have "(3 / 10 :: rat) \<le> 2 ^ 200" by simp
  then have "?q / ?n \<le> 2 ^ 200" using up by (rule order_trans [rotated])
  then have "d_div (Fin ?q) (Fin ?n) = Fin (penalty_val n)" unfolding penalty_val_def using n q1 by (intro d_ops_ok(3)) linarith+
  ultimately show "d_div (d_sub (d_of_int 1) (Fin alpha_val)) (d_of_int (int n)) = Fin (penalty_val n)"
    by (simp add: one d_sub_def del: d_div.simps)
  show "d_mul (d_of_int 1) (Fin (penalty_val n)) = Fin (penalty_val n)"
    using idem pv d_ops_ok(2) [of 1 "penalty_val n"] by (simp add: one)
qed

lemma exact_near:
  assumes "1 \<le> n" and "n \<le> 2 ^ 32"
  shows "9997 / 10000 \<le> exact alpha_val (penalty_val n) 40 * of_nat n" and "exact alpha_val (penalty_val n) 40 * of_nat n \<le> 10001 / 10000"
proof -
  let ?a = alpha_val
  define e p where "e = exact alpha_val (penalty_val n) 40 * of_nat n" and "p = penalty_val n * of_nat n"
  have a: "7999999999 / 10000000000 \<le> ?a" "?a \<le> 80001 / 100000" "1999999999 / 10000000000 \<le> 1 - ?a" "1 - ?a \<le> 2000000001 / 10000000000"
    using alpha_val by linarith+
  have p: "1 / 5 - 1 / 1000000000 \<le> p" "p \<le> 1 / 5 + 1 / 1000000000" using penalty_val(1) [OF assms, folded p_def] by linarith+
  have eq: "e * (1 - ?a) = p * (1 - ?a ^ 41)" using exact_closed [of ?a "penalty_val n" 40] by (simp add: e_def p_def ac_simps)
  have "?a ^ 41 \<le> (80001 / 100000) ^ 41" using a by (intro power_mono) linarith+
  also have "\<dots> \<le> 2 / 10000" by (simp add: power_divide)
  finally have pw: "?a ^ 41 \<le> 2 / 10000" "0 \<le> ?a ^ 41" using a by auto
  have "0 \<le> penalty_val n" using penalty_val(3) [OF assms] unfolding sane_def by (auto intro: order_trans [of 0 "1 / 2 ^ 50"])
  then have e0: "0 \<le> e" using exact_ge [of ?a "penalty_val n" 40] a by (simp add: e_def)
  have "e * (1999999999 / 10000000000) \<le> e * (1 - ?a)" using a(3) e0 by (rule mult_left_mono)
  also have "\<dots> \<le> p * 1" unfolding eq using p pw by (intro mult_left_mono) linarith+
  finally have "e \<le> 10001 / 10000" using p by linarith
  then show "exact alpha_val (penalty_val n) 40 * of_nat n \<le> 10001 / 10000" unfolding e_def .
  have "199999999 / 1000000000 * (9998 / 10000) \<le> p * (1 - ?a ^ 41)" using p pw by (intro mult_mono) linarith+
  also have "\<dots> \<le> e * (2000000001 / 10000000000)" unfolding eq [symmetric] using a(4) e0 by (rule mult_left_mono)
  finally have "9997 / 10000 \<le> e" by linarith
  then show "9997 / 10000 \<le> exact alpha_val (penalty_val n) 40 * of_nat n" unfolding e_def .
qed

lemma adjacency_rows:
  assumes "length os = n + 1" and "\<forall>i < n. os ! i \<le> os ! Suc i" and "unat (last os) < 2 ^ 32" and "cs \<in> set (adjacency os is n)"
  shows "(\<forall>c \<in> set cs. c < n) \<and> length cs \<le> 2 ^ 32"
proof -
  obtain i where i: "i < n" and cs: "cs = filter (\<lambda>c. c < n) (map (\<lambda>j. unat (is ! j)) [unat (os ! i)..<unat (os ! Suc i)])"
    using assms(4) by (auto simp: adjacency_def)
  have "last os = os ! n" using assms(1) by (cases "os = []") (simp_all add: last_conv_nth)
  then have "unat (os ! Suc i) < 2 ^ 32" using le_chain [of n "\<lambda>k. os ! k" "Suc i"] assms(2,3) i by (simp add: word_le_nat_alt)
  moreover have "length cs \<le> unat (os ! Suc i)" unfolding cs by (rule le_trans [OF length_filter_le]) simp
  ultimately show ?thesis using cs by auto
qed

lemma length_ref_scores: "length (ref_scores alpha k adj) = length adj"
  by (cases k) (simp_all add: ref_scores_def ref_round_def Let_def)

lemma ref_scores_near:
  assumes "1 \<le> length adj" and "length adj \<le> 2 ^ 32" and "\<forall>cs \<in> set adj. (\<forall>c \<in> set cs. c < length adj) \<and> length cs \<le> 2 ^ 32"
    and "full \<longrightarrow> [] \<notin> set adj" and "x \<in> set (ref_scores (FLAGS_alpha default_flags) 40 adj)"
  shows "\<exists>r. x = Fin r \<and> 199 / 1000 \<le> r * of_nat (length adj) \<and> r * of_nat (length adj) \<le> 1001 / 1000 \<and>
    (full \<longrightarrow> 999 / 1000 \<le> r * of_nat (length adj))"
proof -
  let ?n = "length adj" and ?p = "penalty_val (length adj)"
  note pv = penalty_val [OF assms(1,2)] and en = exact_near [OF assms(1,2)]
  have "ref_scores (FLAGS_alpha default_flags) 40 adj = (ref_round (Fin alpha_val) (Fin ?p) adj ^^ 40) (replicate ?n (Fin ?p))"
    by (simp only: ref_scores_def default_alpha pv(2,4) Let_def)
  with rounds_near [OF pv(3) assms(3,4), of 40] assms(5) obtain r where r: "x = Fin r" "near full alpha_val ?p 40 r" by auto
  let ?c = "(1 + unit_rd) ^ (steps * 40)" and ?c' = "(1 - unit_rd) ^ (steps * 40)" and ?e = "exact alpha_val ?p 40"
  have "steps * 40 \<le> 2 ^ 38" by (simp add: steps_def)
  from pow_few [OF this] have c: "0 \<le> ?c" "?c \<le> 10001 / 10000" "9999 / 10000 \<le> ?c'" by linarith+
  define R where "R = r * of_nat ?n"
  have "r * of_nat ?n \<le> ?e * ?c * of_nat ?n" "?p * of_nat ?n \<le> R" using r(2) unfolding near_def R_def by (auto intro: mult_right_mono)
  then have "R \<le> ?e * of_nat ?n * ?c" by (simp add: ac_simps R_def)
  also have "\<dots> \<le> 10001 / 10000 * (10001 / 10000)" using en c by (intro mult_mono) simp_all
  finally have "R \<le> 1001 / 1000" by linarith
  moreover have "199 / 1000 \<le> R" using \<open>?p * of_nat ?n \<le> R\<close> pv(1) by linarith
  moreover have "999 / 1000 \<le> R" if full
  proof -
    have "9997 / 10000 * (9999 / 10000) \<le> ?e * of_nat ?n * ?c'" using en c by (intro mult_mono) simp_all
    also have "\<dots> = ?e * ?c' * of_nat ?n" by (simp add: ac_simps)
    also have "\<dots> \<le> R" using r(2) that unfolding near_def R_def by (auto intro: mult_right_mono)
    finally show ?thesis by linarith
  qed
  ultimately show ?thesis using r(1) by (simp add: R_def)
qed

text \<open>The scores of the program; with \<open>full\<close> every row has an entry.\<close>

lemma pagerank_main_scores:
  assumes "mat_files fsys ''data/stanford-000'' (mk_range 0 n) (mk_range 0 n) os is vs" and "unat n \<le> 2 ^ 32"
    and "os ! 0 = 0" and "unat (last os) < 2 ^ 32" and "eigen_ok lib coeffs n" and "full \<longrightarrow> [] \<notin> set (adjacency os is (unat n))"
  shows "\<exists>w. pagerank_main lib fsys mem default_flags = Inr (0, w) \<and> length (coeffs w) = unat n \<and>
    (\<forall>x \<in> set (coeffs w). \<exists>r. x = Fin r \<and> 199 / 1000 \<le> r * of_nat (unat n) \<and> r * of_nat (unat n) \<le> 1001 / 1000 \<and>
      (full \<longrightarrow> 999 / 1000 \<le> r * of_nat (unat n)))"
proof -
  let ?adj = "adjacency os is (unat n)"
  have "Size (mk_range 0 n) = n" by (simp add: Size_def mk_range_def)
  then have os: "length os = unat n + 1" "\<forall>i < unat n. os ! i \<le> os ! Suc i" using assms(1) by (auto simp: mat_files_def)
  have "ColSeg fsys ''data/stanford-000'' = Inr (mk_range 0 n)" using assms(1) by (simp add: mat_files_def)
  then have n: "1 \<le> unat n" using ColSeg_pos by blast
  have len: "length ?adj = unat n" by (simp add: adjacency_def)
  have rows: "\<forall>cs \<in> set ?adj. (\<forall>c \<in> set cs. c < length ?adj) \<and> length cs \<le> 2 ^ 32"
    unfolding len using adjacency_rows [OF os assms(4)] by blast
  obtain w where w: "pagerank_main lib fsys mem default_flags = Inr (0, w)" "coeffs w = ref_scores (FLAGS_alpha default_flags) 40 ?adj"
    using pagerank_main_run [OF assms(1-5)] by blast
  have "length (coeffs w) = unat n" unfolding w(2) by (simp add: length_ref_scores len)
  moreover have "\<exists>r. x = Fin r \<and> 199 / 1000 \<le> r * of_nat (unat n) \<and> r * of_nat (unat n) \<le> 1001 / 1000 \<and>
      (full \<longrightarrow> 999 / 1000 \<le> r * of_nat (unat n))" if "x \<in> set (coeffs w)" for x
    using ref_scores_near [OF _ _ rows assms(6), unfolded len] n assms(2) that unfolding w(2) by blast
  ultimately show ?thesis using w(1) by blast
qed

section \<open>The result of the program\<close>

text \<open>
  C21: the program computes the iteration. On the files of a square matrix, whose rows and entries can be counted in 32 bits,
  and with vectors that behave as Eigen documents, the program gets to its end and the coefficients of \<open>w\<close>
  are, as \<open>double\<close> values, those of forty rounds on the lists of neighbours in the files.
\<close>

theorem pagerank_main_is_iteration:
  assumes "mat_files fsys ''data/stanford-000'' (mk_range 0 n) (mk_range 0 n) os is vs" and "unat n \<le> 2 ^ 32"
    and "os ! 0 = 0" and "unat (last os) < 2 ^ 32" and "eigen_ok lib coeffs n"
  shows "\<exists>w. pagerank_main lib fsys mem default_flags = Inr (0, w) \<and>
    coeffs w = ref_scores (FLAGS_alpha default_flags) 40 (adjacency os is (unat n))"
  by (rule pagerank_main_run [OF assms])

text \<open>Vectors as lists, and a web of two pages: the first has links to both, the second to the first.\<close>

definition list_eigen :: "double list eigen" where
  "list_eigen =
     \<lparr>e_ones_times = \<lambda>n p. Inr (replicate (unat n) (d_mul (d_of_int 1) p)), e_new = \<lambda>n. Inr (replicate (unat n) NaN),
      e_get = \<lambda>v k. arr_get (Some v) k,
      e_set = \<lambda>v k x. (if unat k < length v then Inr (v[unat k := x]) else Inl Out_of_bounds),
      e_assign = \<lambda>w u. u\<rparr>"

lemma list_eigen_ok: "eigen_ok list_eigen id n"
  by (simp add: eigen_ok_def list_eigen_def arr_get_def)

definition web_files :: files where
  "web_files = (\<lambda>_. None)
     (''data/stanford-000.size'' := Some (map (\<lambda>c. of_nat (of_char c)) ''0 2 0 2''),
      ''data/stanford-000.rowcnt'' := Some (concat (map i64_bytes [0, 2, 3])),
      ''data/stanford-000.colidx'' := Some (concat (map i64_bytes [0, 1, 0])))"

definition blank_memory :: memory where
  "blank_memory = \<lparr>j_nnz = 0, j_offset = \<lambda>_ _. 0, j_index = \<lambda>_ _. 0, j_value = \<lambda>_ _. []\<rparr>"

lemma web_mat_files: "mat_files web_files ''data/stanford-000'' (mk_range 0 2) (mk_range 0 2) [0, 2, 3] [0, 1, 0] None"
proof -
  have "open_text web_files (''data/stanford-000'' @ ''.size'') = Some ''0 2 0 2''"
    unfolding open_text_def web_files_def by (simp add: text_bytes [unfolded map_map] del: list.map)
  moreover have "stream_size_t 0 (Some ''0 2 0 2'') = (0, Some '' 2 0 2'')" "stream_size_t 0 (Some '' 2 0 2'') = (2, Some '' 0 2'')"
    "stream_size_t 0 (Some '' 0 2'') = (0, Some '' 2'')" "stream_size_t 0 (Some '' 2'') = (2, Some [])"
    by code_simp+
  ultimately have "RowSeg web_files ''data/stanford-000'' = Inr (mk_range 0 2)" "ColSeg web_files ''data/stanford-000'' = Inr (mk_range 0 2)"
    by (simp_all add: RowSeg_def ColSeg_def Valid_def mk_range_def)
  moreover have "unat (Size (mk_range 0 2)) = 2" by (simp add: Size_def mk_range_def)
  ultimately show ?thesis by (auto simp: mat_files_def web_files_def less_2_cases_iff)
qed

lemma web_adjacency: "adjacency [0, 2, 3] [0, 1, 0] 2 = [[0, 1], [0]]"
  by code_simp

theorem pagerank_main_is_iteration_witness:
  "\<exists>w. pagerank_main list_eigen web_files blank_memory default_flags = Inr (0, w) \<and>
     w = ref_scores (FLAGS_alpha default_flags) 40 [[0, 1], [0]]"
  using pagerank_main_is_iteration [OF web_mat_files _ _ _ list_eigen_ok, of blank_memory] by (simp add: web_adjacency)



text \<open>
  C38: the scores do not depend on the links. When every row has an entry in a column of the matrix, each of the \<open>n\<close> scores is
  \<open>1 / n\<close> up to one part in a thousand: a row is divided by its own number of entries, so its sum is a mean of scores, and
  rounds that start from equal scores keep them equal up to rounding.
\<close>

theorem pagerank_scores_uniform:
  assumes "mat_files fsys ''data/stanford-000'' (mk_range 0 n) (mk_range 0 n) os is vs" and "unat n \<le> 2 ^ 32"
    and "os ! 0 = 0" and "unat (last os) < 2 ^ 32" and "eigen_ok lib coeffs n" and "[] \<notin> set (adjacency os is (unat n))"
  shows "\<exists>w. pagerank_main lib fsys mem default_flags = Inr (0, w) \<and> length (coeffs w) = unat n \<and>
    (\<forall>x \<in> set (coeffs w). \<exists>r. x = Fin r \<and> \<bar>r * of_nat (unat n) - 1\<bar> \<le> 1 / 1000)"
proof -
  have "True \<longrightarrow> [] \<notin> set (adjacency os is (unat n))" using assms(6) by simp
  note scores = pagerank_main_scores [OF assms(1-5) this, of mem]
  have "\<bar>y - 1\<bar> \<le> 1 / 1000" if "y \<le> 1001 / 1000" "999 / 1000 \<le> y" for y :: rat using that by linarith
  then show ?thesis using scores by meson
qed

theorem pagerank_scores_uniform_witness:
  "\<exists>w. pagerank_main list_eigen web_files blank_memory default_flags = Inr (0, w) \<and> length w = 2 \<and>
     (\<forall>x \<in> set w. \<exists>r. x = Fin r \<and> \<bar>r * 2 - 1\<bar> \<le> 1 / 1000)"
  using pagerank_scores_uniform [OF web_mat_files _ _ _ list_eigen_ok, of blank_memory] by (simp add: web_adjacency)

end
