(* ===== verification/Spec2Isabelle.thy ===== *)
theory Spec2Isabelle
  imports Buffer_Props Timer_Thr Chain Handshake Hello_Props Pagerank_Scores
begin

text \<open>
  A verification of QuiltDB, a library in C++ for tables of counters that the nodes of a
  cluster share. Every node keeps a copy of a table. An increment changes the copy at once and
  travels to the other nodes in batches, along a horizontal and a vertical ring of nodes. Values can be
  anything with an addition and a subtraction. Paths below are relative to \<open>src/\<close> of the
  repository, whose library is in \<open>src/quiltdb\<close>.

  \<^bold>\<open>The program and how its parts interact.\<close> A process makes one \<open>QuiltDB\<close> object. It has, per
  direction, a \<^emph>\<open>propagator\<close> and a \<^emph>\<open>receiver\<close>, each with a thread of its own, and a directory of
  \<^emph>\<open>internal tables\<close>. \<open>Table::Inc\<close> changes the table and pushes a log message to the
  propagator of the table. The propagator thread sums the logs per key in an update store. A
  \<^emph>\<open>timer\<close> thread wakes it in intervals; it then packs the store of each table into an
  \<^emph>\<open>update buffer\<close>, a block of raw memory with the updates and, per node, the range of sequence numbers they
  stand for, and pushes it to the receiver of the downstream node; a second buffer with the node's own updates is
  handed to the paired receiver. A receiver thread that gets a buffer looks for the node's own
  range; if it is there, the buffer has gone round the ring, and the own updates are
  subtracted. What is left is forwarded to the paired propagator, added to the table, and given to the user's callback.
  At the start receivers and propagators shake hands; at the end a receiver tells its upstream
  propagators, which stop sending and acknowledge, and it ends when all have done so.

  \<^bold>\<open>How it is modelled.\<close> A structure or class is a record with the members of the source, an
  enumeration a datatype, a function or method a definition of the same name (with the class in front where names
  clash). \<open>int32_t\<close> and \<open>int64_t\<close> are words of 32 and 64 bits with the wrap-around of the
  machine; signed comparisons are \<open><s\<close> and \<open><=s\<close>. A statement that may fail has a value of type
  \<open>'a res\<close>: a failed \<open>CHECK\<close>, a \<open>LOG(FATAL)\<close>, an access outside a block, a null pointer, a
  receive that blocks for ever, a loop that never ends and an undefined operation on numbers are different values of \<open>fault\<close>.
  Memory that a constructor does not initialise is a parameter (\<open>junk\<close>, \<open>old\<close>). Update buffers
  are bytes: the operations do the pointer arithmetic of the source with checked access. \<open>boost::unordered_map\<close> is an association list, and
  statements hold for any order of it. A handler of a thread's loop takes
  the thread's state and one message and gives the new state and the list of messages sent, in order; a thread's
  life is a list of such events (\<open>prop_run\<close>, \<open>recv_run\<close>), and several threads are a step
  relation in which any of them may take the next step (\<open>link_step\<close>, \<open>table_step\<close>). Messages between threads of a process are
  values; a buffer that goes over the network is its bytes, cast back on the other side.
  The 0MQ library is the parameter \<open>zmq_lib\<close> (which calls succeed); \<open>zmq_ok\<close> is the one that does not fail. The YAML library, the
  results of \<open>pthread_create\<close>, the sleep of the timer and the vectors of Eigen (\<open>eigen\<close>, with \<open>eigen_ok\<close> for what it documents) are parameters as well.
  A finite \<open>double\<close> is a rational number; each operation rounds its exact result once, so the compiler is assumed not to fuse
  a product with a sum, and the two zeros are one value.

  \<^bold>\<open>Interfaces.\<close> What a component relies on is a locale, with the client's lemmas proved in it and an interpretation on
  the model: \<open>update_buffer\<close> (appending and iterating; interpreted on the byte-level operations), \<open>value_algebra\<close> (what the
  value functions of a table must satisfy; interpreted on \<open>IntAdd\<close> and \<open>IntSub\<close> of \<open>apps/helloworld\<close>),
  \<open>event_loop\<close> and \<open>ranked_loop\<close> (a thread that handles events and moves through its states in one
  direction; interpreted on the propagator and on the receiver thread), \<open>step_invariant\<close> (interpreted on the connection between
  threads and on the tables), \<open>rounding\<close> (a rounding of rational numbers that is monotone, exact on short numbers and has a small relative
  error; interpreted on \<open>fl\<close>, the rounding of IEEE 754).

  \<^bold>\<open>Theories.\<close>
  \<^item> \<open>QDB_Prelude\<close>: machine types, faults, raw memory, little-endian layout, unordered maps. \<open>Event_Loop\<close>: the last three locales above.
  \<^item> \<open>Memstruct\<close> models \<open>utils/memstruct.hpp\<close> and \<open>.cpp\<close>. \<open>Buffer_Spec\<close> has the abstract buffer (\<open>abuf\<close>), the
    relation \<open>ub_rep\<close> between it and the bytes, and a refinement lemma per operation; \<open>Buffer_Props\<close> the properties.
    Loops over a buffer have the fuel \<open>ub_fuel\<close>, one more than the bytes behind the header; each round moves on by at
    least one byte, and the refinement lemmas show that the loops end before the fuel does.
  \<^item> \<open>Protocol\<close> models \<open>comm/protocol.hpp\<close> and \<open>include/common.hpp\<close>; \<open>Zmq_Util\<close> models \<open>utils/zmq_util.cpp\<close> and
    \<open>comm/comm_util.cpp\<close>; \<open>Values\<close> models the calls of value functions.
  \<^item> \<open>Propagator\<close> models \<open>comm/propagator.hpp\<close> and \<open>.cpp\<close>: the calls of application threads, the
    handshake, and the handlers of the loop. \<open>Propagator_Term\<close> shows how the thread moves through its states, that it ends,
    and that it keeps quiet after its acknowledgement; \<open>Propagator_Data\<close> what it sends.
  \<^item> \<open>Internal_Table\<close> models \<open>internal_table\<close> and \<open>include/table.hpp\<close>; \<open>Table_Props\<close> has what an
    application reads after its increments and that values keep their size.
  \<^item> \<open>Receiver\<close> models \<open>comm/receiver.hpp\<close> and \<open>.cpp\<close>. \<open>Receiver_Data\<close> shows that own updates are removed
    exactly, and two situations in which a correct buffer is refused; \<open>Receiver_Term\<close> has the states, the
    end, and the order of messages in which the thread does not end.
  \<^item> \<open>Timer_Thr\<close>, \<open>Config_Parser\<close>, \<open>Quilt_DB\<close> with \<open>Quilt_DB_Props\<close>: \<open>utils/timer_thr\<close>,
    \<open>utils/config_parser\<close> and \<open>include/quiltdb\<close>.
  \<^item> \<open>Ring\<close> puts the threads of a node together and two nodes in a ring: after a round both tables have the
    increments of both nodes, and in the second round one node counts its own a second time.
    \<open>Prop_Stream\<close> follows the propagator thread over any interleaving of logs, forwarded buffers and timer events: what goes out is what came
    in, and the ranges of the buffers continue each other. \<open>Chain\<close> composes this with the receivers to a chain of any number of nodes.
    \<open>Shutdown_Link\<close> is the connection of any number of propagators with their receiver, in any interleaving; \<open>Handshake\<close> shows that
    the start leads to the state from which this begins.
  \<^item> \<open>Hello_World\<close> and \<open>Hello_Props\<close>: \<open>main\<close> of \<open>apps/helloworld\<close>, which uses everything above.
  \<^item> \<open>Sparse_Mat\<close> and \<open>Sparse_Props\<close>: ranges, binary files and sparse matrices of \<open>apps/pagerank\<close>.
  \<^item> \<open>Double\<close>: the type \<open>double\<close> with the rounding of IEEE 754, and the locale \<open>rounding\<close> of what programs rely on. \<open>Pagerank\<close> models
    \<open>apps/pagerank/pagerank.h\<close> and \<open>pagerank.cpp\<close> and shows that the files and columns are partitioned; \<open>Pagerank_Iter\<close> compares the program with
    the iteration on lists of neighbours; \<open>Pagerank_Scores\<close> bounds the error of the roundings and with it the scores.

  \<^bold>\<open>What the theorems show.\<close> The buffer refines a bounded sequence of updates and a small map of ranges and survives its journey as bytes.
  The propagator sends exactly the sum of what was logged and forwarded, in any order of events, and after its acknowledgement nothing; a chain of nodes of any length delivers every
  increment once; the receiver cancels exactly the own updates. Both
  threads end when they have heard what they wait for, and only then; no update is lost to a receiver that has ended. The
  database wires its threads, registers tables and waits for all threads at the end. Errors of the code are
  stated as theorems too: the iteration over ranges stops at a freed slot, with the double count as its consequence;
  two own buffers in one received buffer are refused; a receiver without upstream nodes may wait for ever; an interval of at most 0 sends nothing;
  keys are cut to 32 bits; loading rows of a matrix reads too many entries; dividing a range loses the remainder. The pagerank program
  cuts its data without a gap, computes forty rounds of its iteration and never overflows; but its scores are all \<open>1 / n\<close> up to rounding when
  every row has an entry.

  \<^bold>\<open>Bounds.\<close> Properties of buffers assume that a block is smaller than two gigabytes (\<open>fits\<close>), since its
  sizes are \<open>int32_t\<close>, those of runs that fewer than \<open>2 ^ 63\<close> events happen, since sequence numbers are \<open>int64_t\<close>, and those of matrices that the arrays have fewer than \<open>2 ^ 59\<close> elements, so that their bytes can be
  addressed. The loop of \<open>helloworld\<close> does ten rounds at most. Column ranges are cut exactly up to \<open>2 ^ 50\<close> columns, and the pagerank program is
  followed for matrices whose rows and entries can be counted in 32 bits, since it counts entries in \<open>uint32_t\<close>.

  \<^bold>\<open>Not modelled.\<close> Logging, freeing of memory and destruction of sockets have no state here. The two places where
  the code erases an element of a map and then advances the erased iterator are modelled as the clearing they intend; this
  is undefined in C++. Inside a process the order of steps is that of the handlers: an operation on a table holds the lock of
  its one key and is one step. Of \<open>apps/pagerank/pagerank.cpp\<close> the norms that are only logged are left out. \<open>apps/pagarank\<close> is an old copy of \<open>apps/pagerank\<close> that does not
  compile and is not built. Vendored code under \<open>third_party\<close>, build files and scripts have no logic of the program.
\<close>

end
